(* ===== verification/Prelude.thy ===== *)
theory Prelude
  imports Main "HOL-Library.Word" "HOL-Library.Char_ord" "HOL-Library.List_Lexorder"
begin

text \<open>
  Shared vocabulary of the development.

  \<^item> Names for the fixed-width integers of the C++ code: \<open>byte\<close> (\<open>uint8_t\<close>),
    \<open>u32\<close>, \<open>u64\<close>, and the aliases \<open>NodeId\<close>, \<open>Term\<close>, \<open>Index\<close>, \<open>SimTime\<close>, \<open>EventId\<close>
    of \<open>src/raft/types.hpp\<close>, \<open>src/sim/network.hpp\<close>, \<open>src/sim/time.hpp\<close> and
    \<open>src/sim/event_queue.hpp\<close>. Addition and subtraction wrap, as in C++.
  \<^item> Exceptions: a function that may throw returns \<open>exn + 'a\<close>; a method of an object that may
    throw returns an \<open>outcome\<close>, which keeps the object as it was when the exception left it.
  \<^item> \<open>std::map\<close> as a strictly sorted association list, with its interface as the
    locale \<open>ordered_map\<close>.
  \<^item> Collections of simplification rules: \<open>word_simps\<close> moves 64-bit index arithmetic to
    \<open>nat\<close>, \<open>result_simps\<close> runs the two result types.
\<close>

named_theorems word_simps \<open>unsigned word arithmetic on natural numbers\<close>
named_theorems result_simps \<open>evaluation of results and outcomes\<close>

section \<open>Machine integers\<close>

type_synonym byte = "8 word"
type_synonym u32 = "32 word"
type_synonym u64 = "64 word"
type_synonym NodeId = "32 word"
type_synonym Term = "64 word"
type_synonym Index = "64 word"
type_synonym SimTime = "64 word"
type_synonym EventId = "64 word"

lemma unat64_bound [simp]: "unat (x :: 64 word) < 18446744073709551616"
  using unsigned_less [of x] by simp

lemma unat32_bound [simp]: "unat (x :: 32 word) < 4294967296"
  using unsigned_less [of x] by simp

lemma unat_of_nat_64 [word_simps]: "n < 18446744073709551616 \<Longrightarrow> unat (of_nat n :: 64 word) = n"
  by (simp add: unat_of_nat take_bit_eq_mod)

lemma unat_of_nat_32 [word_simps]: "n < 4294967296 \<Longrightarrow> unat (of_nat n :: 32 word) = n"
  by (simp add: unat_of_nat take_bit_eq_mod)

lemma unat_add_64 [word_simps]:
  "unat a + unat b < 18446744073709551616 \<Longrightarrow> unat (a + b :: 64 word) = unat a + unat b"
  by (simp add: unat_word_ariths)

lemma unat_succ_64: "lo < hi \<Longrightarrow> unat (lo + 1 :: 64 word) = unat lo + 1"
proof -
  assume "lo < hi"
  then have "unat lo + 1 < 18446744073709551616"
    using unat64_bound [of hi] unfolding word_less_nat_alt by linarith
  then show ?thesis by (simp add: unat_add_64)
qed

lemma unat_sub_64 [word_simps]: "b \<le> a \<Longrightarrow> unat (a - b :: 64 word) = unat a - unat b"
  by (simp add: unat_sub_if' word_le_nat_alt)

lemmas word_le_unat [word_simps] = word_le_nat_alt
lemmas word_less_unat [word_simps] = word_less_nat_alt

lemma word_eq_unat: "(a = b) \<longleftrightarrow> unat a = unat b" for a b :: "64 word"
  by (simp add: word_unat_eq_iff)

section \<open>Exceptions\<close>

text \<open>
  What the code can throw. \<open>AssertFail\<close> is a failed \<open>assert\<close> of a build without
  \<open>NDEBUG\<close>: it aborts the process and no handler catches it. The other constructors
  are C++ exceptions.
\<close>

datatype exn =
    Underrun
  | UnknownTag
  | OutOfRange
  | EmptyMessage
  | LogicError
  | IoError
  | AssertFail

fun catchable :: "exn \<Rightarrow> bool" where
  "catchable AssertFail = False"
| "catchable _ = True"

definition bindR :: "exn + 'a \<Rightarrow> ('a \<Rightarrow> exn + 'b) \<Rightarrow> exn + 'b" where
  "bindR r f = (case r of Inl e \<Rightarrow> Inl e | Inr x \<Rightarrow> f x)"

lemma bindR_simps [simp, result_simps]: "bindR (Inl e) f = Inl e" "bindR (Inr x) f = f x"
  by (simp_all add: bindR_def)

lemma bindR_eq_Inr: "bindR r f = Inr y \<longleftrightarrow> (\<exists>x. r = Inr x \<and> f x = Inr y)"
  by (cases r) auto

definition mapR :: "('a \<Rightarrow> 'b) \<Rightarrow> exn + 'a \<Rightarrow> exn + 'b" where
  "mapR f r = bindR r (\<lambda>x. Inr (f x))"

lemma mapR_simps [simp, result_simps]: "mapR f (Inl e) = Inl e" "mapR f (Inr x) = Inr (f x)"
  by (simp_all add: mapR_def)

lemma mapR_eq_Inr: "mapR f r = Inr y \<longleftrightarrow> (\<exists>x. r = Inr x \<and> y = f x)"
  by (cases r) auto

text \<open>
  A method of a mutable object: it returns with the new object, or an exception leaves it with
  the object as mutated so far. \<open>thenO\<close> is sequencing, \<open>foldO\<close> a range-based
  \<open>for\<close> loop, \<open>liftO\<close> a call of a throwing \<open>const\<close> method.
\<close>

datatype 's outcome = Ret 's | Raise exn 's

primrec thenO :: "'s outcome \<Rightarrow> ('s \<Rightarrow> 's outcome) \<Rightarrow> 's outcome" where
  "thenO (Ret s) f = f s"
| "thenO (Raise e s) f = Raise e s"

primrec foldO :: "('a \<Rightarrow> 's \<Rightarrow> 's outcome) \<Rightarrow> 'a list \<Rightarrow> 's \<Rightarrow> 's outcome" where
  "foldO f [] s = Ret s"
| "foldO f (x # xs) s = thenO (f x s) (foldO f xs)"

definition liftO :: "exn + 'a \<Rightarrow> 's \<Rightarrow> ('a \<Rightarrow> 's outcome) \<Rightarrow> 's outcome" where
  "liftO r s f = (case r of Inl e \<Rightarrow> Raise e s | Inr x \<Rightarrow> f x)"

lemma liftO_simps [simp, result_simps]: "liftO (Inl e) s f = Raise e s" "liftO (Inr x) s f = f x"
  by (simp_all add: liftO_def)

primrec the_state :: "'s outcome \<Rightarrow> 's" where
  "the_state (Ret s) = s"
| "the_state (Raise e s) = s"

primrec returns :: "'s outcome \<Rightarrow> bool" where
  "returns (Ret s) = True"
| "returns (Raise e s) = False"

lemma returns_iff: "returns r \<longleftrightarrow> (\<exists>s. r = Ret s)"
  by (cases r) auto

text \<open>
  \<open>ends P r\<close>: the object satisfies \<open>P\<close> when the call ends, whether it returned or an
  exception left it. The introduction rules follow the structure of a method body.
\<close>

definition ends :: "('s \<Rightarrow> bool) \<Rightarrow> 's outcome \<Rightarrow> bool" where
  "ends P r \<longleftrightarrow> P (the_state r)"

lemma ends_simps [simp]: "ends P (Ret s) = P s" "ends P (Raise e s) = P s"
  by (simp_all add: ends_def)

lemma ends_Ret: "ends P r \<Longrightarrow> r = Ret s \<Longrightarrow> P s"
  by simp

lemma ends_thenO: "ends P r \<Longrightarrow> (\<And>s. r = Ret s \<Longrightarrow> P s \<Longrightarrow> ends P (f s)) \<Longrightarrow> ends P (thenO r f)"
  by (cases r) auto

lemma ends_liftO: "P s \<Longrightarrow> (\<And>x. r = Inr x \<Longrightarrow> ends P (f x)) \<Longrightarrow> ends P (liftO r s f)"
  by (cases r) auto

lemma ends_if: "(b \<Longrightarrow> ends P r) \<Longrightarrow> (\<not> b \<Longrightarrow> ends P r') \<Longrightarrow> ends P (if b then r else r')"
  by simp

lemma ends_foldO:
  "P s \<Longrightarrow> (\<And>x s. x \<in> set xs \<Longrightarrow> P s \<Longrightarrow> ends P (f x s)) \<Longrightarrow> ends P (foldO f xs s)"
proof (induction xs arbitrary: s)
  case (Cons x xs)
  then show ?case by (auto intro!: ends_thenO)
qed simp

lemma ends_mono: "ends P r \<Longrightarrow> (\<And>s. P s \<Longrightarrow> Q s) \<Longrightarrow> ends Q r"
  by (simp add: ends_def)

lemma ends_conj: "ends P r \<Longrightarrow> ends Q r \<Longrightarrow> ends (\<lambda>s. P s \<and> Q s) r"
  by (simp add: ends_def)

lemmas ends_intros = ends_thenO ends_liftO ends_if ends_foldO

lemma foldO_append: "foldO f (xs @ ys) s = thenO (foldO f xs s) (foldO f ys)"
proof (induction xs arbitrary: s)
  case (Cons x xs)
  then show ?case by (cases "f x s") simp_all
qed simp

text \<open>
  A computation that may also run forever, as the rejection loop of the random generator and the
  event loop may: \<open>None\<close> is a computation that does not return.
\<close>

type_synonym 'a run = "(exn + 'a) option"

definition bindX :: "'a run \<Rightarrow> ('a \<Rightarrow> 'b run) \<Rightarrow> 'b run" where
  "bindX r f = (case r of None \<Rightarrow> None | Some (Inl e) \<Rightarrow> Some (Inl e) | Some (Inr x) \<Rightarrow> f x)"

lemma bindX_simps [simp, result_simps]:
  "bindX None f = None" "bindX (Some (Inl e)) f = Some (Inl e)" "bindX (Some (Inr x)) f = f x"
  by (simp_all add: bindX_def)

lemma bindX_eq_ret: "bindX r f = Some (Inr y) \<longleftrightarrow> (\<exists>x. r = Some (Inr x) \<and> f x = Some (Inr y))"
  by (auto simp: bindX_def split: option.splits sum.splits)

section \<open>Ordered maps\<close>

text \<open>
  \<open>std::map<K, V>\<close> iterates in key order, so it is a list of pairs with strictly increasing
  keys. \<open>om_put\<close> is \<open>m[k] = v\<close>, \<open>om_erase\<close> is \<open>m.erase(k)\<close>,
  \<open>map_of\<close> is \<open>find\<close>. \<open>om_touch\<close> is the default insertion done by
  reading \<open>m[k]\<close>, whose value is \<open>om_get\<close>.
\<close>

type_synonym ('k, 'v) omap = "('k \<times> 'v) list"

definition om_sorted :: "('k::linorder, 'v) omap \<Rightarrow> bool" where
  "om_sorted m = sorted_wrt (<) (map fst m)"

fun om_put :: "'k::linorder \<Rightarrow> 'v \<Rightarrow> ('k, 'v) omap \<Rightarrow> ('k, 'v) omap" where
  "om_put k v [] = [(k, v)]"
| "om_put k v ((k', v') # m) =
     (if k < k' then (k, v) # (k', v') # m
      else if k = k' then (k, v) # m
      else (k', v') # om_put k v m)"

fun om_erase :: "'k::linorder \<Rightarrow> ('k, 'v) omap \<Rightarrow> ('k, 'v) omap" where
  "om_erase k [] = []"
| "om_erase k ((k', v') # m) = (if k = k' then m else (k', v') # om_erase k m)"

definition om_get :: "('k, 'v::zero) omap \<Rightarrow> 'k \<Rightarrow> 'v" where
  "om_get m k = (case map_of m k of None \<Rightarrow> 0 | Some v \<Rightarrow> v)"

definition om_touch :: "'k::linorder \<Rightarrow> ('k, 'v::zero) omap \<Rightarrow> ('k, 'v) omap" where
  "om_touch k m = (case map_of m k of None \<Rightarrow> om_put k 0 m | Some _ \<Rightarrow> m)"

lemma om_sorted_simps [simp]:
  "om_sorted []"
  "om_sorted ((k, v) # m) \<longleftrightarrow> (\<forall>k'\<in>fst ` set m. k < k') \<and> om_sorted m"
  by (auto simp: om_sorted_def)

lemma map_of_below: "\<forall>k'\<in>fst ` set m. k < k' \<Longrightarrow> map_of m k = None" for k :: "'k::linorder"
  by (induction m) auto

lemma fst_set_om_put [simp]: "fst ` set (om_put k v m) = insert k (fst ` set m)"
  by (induction k v m rule: om_put.induct) auto

lemma set_om_erase_subset: "set (om_erase k m) \<subseteq> set m"
  by (induction k m rule: om_erase.induct) auto

lemma map_of_om_put [simp]: "map_of (om_put k v m) = (map_of m)(k \<mapsto> v)"
  by (induction k v m rule: om_put.induct) (auto simp: fun_eq_iff)

lemma map_of_om_erase: "om_sorted m \<Longrightarrow> map_of (om_erase k m) = (map_of m)(k := None)"
  by (induction k m rule: om_erase.induct) (auto simp: fun_eq_iff map_of_below)

lemma om_sorted_om_put: "om_sorted m \<Longrightarrow> om_sorted (om_put k v m)"
proof (induction k v m rule: om_put.induct)
  case (2 k v k' v' m)
  then show ?case
  proof (cases k k' rule: linorder_cases)
    case less
    with 2 show ?thesis by fastforce
  next
    case equal
    with 2 show ?thesis by simp
  next
    case greater
    with 2 show ?thesis by auto
  qed
qed simp

lemma om_sorted_om_erase: "om_sorted m \<Longrightarrow> om_sorted (om_erase k m)"
  by (induction k m rule: om_erase.induct) (auto dest: subsetD [OF set_om_erase_subset])

lemma om_erase_absent: "map_of m k = None \<Longrightarrow> om_erase k m = m"
  by (induction k m rule: om_erase.induct) (auto split: if_splits)

lemma om_ext:
  assumes "om_sorted m" "om_sorted m'" "map_of m = map_of m'"
  shows "m = m'"
  using assms
proof (induction m arbitrary: m')
  case Nil
  then show ?case by (cases m') (auto simp: fun_eq_iff split: if_splits)
next
  case (Cons p m)
  obtain k v where p: "p = (k, v)" by (cases p)
  from Cons.prems(3) p obtain k' v' r where m': "m' = (k', v') # r"
    by (cases m') (auto dest: fun_cong [where x = k])
  have eq: "map_of (p # m) x = map_of m' x" for x
    by (rule fun_cong [OF Cons.prems(3)])
  have lt: "map_of m' x = None" if "x < k'" for x
    using that Cons.prems(2) m' by (intro map_of_below) force
  have lt2: "map_of (p # m) x = None" if "x < k" for x
    using that Cons.prems(1) p by (intro map_of_below) force
  have "k = k'"
  proof (rule ccontr)
    assume "k \<noteq> k'"
    then consider "k < k'" | "k' < k" by fastforce
    then show False
      using lt [of k] lt2 [of k'] eq [of k] eq [of k'] p m' by cases (auto split: if_splits)
  qed
  with eq [of k] p m' have v: "v = v'" by simp
  have "map_of m x = map_of r x" for x
  proof (cases "x = k")
    case True
    with Cons.prems \<open>k = k'\<close> p m' show ?thesis by (simp add: map_of_below)
  next
    case False
    with eq [of x] \<open>k = k'\<close> p m' show ?thesis by simp
  qed
  then have "map_of m = map_of r" by blast
  with Cons p m' v \<open>k = k'\<close> show ?case by simp
qed

text \<open>
  The interface of an ordered map as its clients use it: a key lookup, \<open>m[k] = v\<close>,
  \<open>erase\<close>, and iteration in key order.
\<close>

locale ordered_map =
  fixes empty :: "'m"
    and put :: "'k::linorder \<Rightarrow> 'v \<Rightarrow> 'm \<Rightarrow> 'm"
    and erase :: "'k \<Rightarrow> 'm \<Rightarrow> 'm"
    and items :: "'m \<Rightarrow> ('k \<times> 'v) list"
    and invar :: "'m \<Rightarrow> bool"
  assumes invar_empty: "invar empty"
    and invar_put: "invar m \<Longrightarrow> invar (put k v m)"
    and invar_erase: "invar m \<Longrightarrow> invar (erase k m)"
    and items_empty: "items empty = []"
    and items_sorted: "invar m \<Longrightarrow> om_sorted (items m)"
    and find_put: "invar m \<Longrightarrow> map_of (items (put k v m)) = (map_of (items m))(k \<mapsto> v)"
    and find_erase: "invar m \<Longrightarrow> map_of (items (erase k m)) = (map_of (items m))(k := None)"
begin

definition put_all :: "('k \<times> 'v) list \<Rightarrow> 'm \<Rightarrow> 'm" where
  "put_all kvs m = fold (\<lambda>(k, v). put k v) kvs m"

lemma put_all_invar: "invar m \<Longrightarrow> invar (put_all kvs m)"
  unfolding put_all_def by (induction kvs arbitrary: m) (auto simp: invar_put)

lemma find_put_all:
  "invar m \<Longrightarrow> map_of (items (put_all kvs m)) = map_of (items m) ++ map_of (rev kvs)"
  unfolding put_all_def
  by (induction kvs arbitrary: m) (auto simp: invar_put find_put map_add_def fun_eq_iff split: option.splits)

lemma distinct_keys: "invar m \<Longrightarrow> distinct (map fst (items m))"
  using items_sorted [of m] strict_sorted_iff [of "map fst (items m)"] by (simp add: om_sorted_def)

text \<open>Writing back all pairs of a map, in iteration order, into an empty map restores it.\<close>

lemma reload_items: "invar m \<Longrightarrow> items (put_all (items m) empty) = items m"
proof (rule om_ext)
  assume inv: "invar m"
  have "map_of (rev (items m)) = map_of (items m)"
    using distinct_keys [OF inv] by (intro map_of_inject_set [THEN iffD2]) (auto simp: rev_map [symmetric])
  then show "map_of (items (put_all (items m) empty)) = map_of (items m)"
    by (simp add: find_put_all invar_empty items_empty)
qed (simp_all add: items_sorted put_all_invar invar_empty)

end

interpretation om: ordered_map "[]" om_put om_erase "\<lambda>m. m" om_sorted
  by unfold_locales (auto simp: om_sorted_om_put om_sorted_om_erase map_of_om_erase)

lemma om_get_put [simp]: "om_get (om_put k v m) k' = (if k' = k then v else om_get m k')"
  by (simp add: om_get_def)

lemma om_get_touch [simp]: "om_get (om_touch k m) k' = om_get m k'"
  by (auto simp: om_get_def om_touch_def split: option.splits)

lemma om_sorted_touch: "om_sorted m \<Longrightarrow> om_sorted (om_touch k m)"
  by (auto simp: om_touch_def om_sorted_om_put split: option.splits)

end
