(* ===== verification/Codec.thy ===== *)
theory Codec
  imports Prelude
begin

unbundle bit_operations_syntax

text \<open>
  The byte codec of \<open>src/storage/codec.hpp\<close>. An \<open>Encoder\<close> is the list of bytes pushed
  so far: each method is the bytes it appends, and a sequence of calls is their concatenation.
  A \<open>Decoder\<close> is the list of bytes between \<open>ptr_\<close> and \<open>end_\<close>: each method
  returns the value read and the remaining bytes, or the underrun exception of \<open>check\<close>.

  The locale \<open>wire_format\<close> is the contract every encoding of the program keeps: decoding the
  encoding followed by any bytes gives the value back and leaves those bytes. Injectivity,
  prefix-freeness and the decoding of counted sequences follow from it once for all formats.
\<close>

section \<open>Encoder\<close>

definition enc_u8 :: "byte \<Rightarrow> byte list" where
  "enc_u8 v = [v]"

definition enc_u32 :: "u32 \<Rightarrow> byte list" where
  "enc_u32 v = [ucast v, ucast (drop_bit 8 v), ucast (drop_bit 16 v), ucast (drop_bit 24 v)]"

primrec enc_le :: "nat \<Rightarrow> u64 \<Rightarrow> byte list" where
  "enc_le 0 v = []"
| "enc_le (Suc n) v = ucast (v AND 0xFF) # enc_le n (drop_bit 8 v)"

definition enc_u64 :: "u64 \<Rightarrow> byte list" where
  "enc_u64 v = enc_le 8 v"

definition enc_boolean :: "bool \<Rightarrow> byte list" where
  "enc_boolean v = enc_u8 (if v then 1 else 0)"

definition byte_of_char :: "char \<Rightarrow> byte" where
  "byte_of_char c = of_nat (of_char c)"

definition char_of_byte :: "byte \<Rightarrow> char" where
  "char_of_byte b = char_of (unat b)"

definition enc_str :: "string \<Rightarrow> byte list" where
  "enc_str s = enc_u32 (of_nat (length s)) @ map byte_of_char s"

text \<open>The idiom \<open>u32(size); for (b : bytes) u8(b)\<close>.\<close>

definition enc_blob :: "byte list \<Rightarrow> byte list" where
  "enc_blob bs = enc_u32 (of_nat (length bs)) @ concat (map enc_u8 bs)"

section \<open>Decoder\<close>

definition dec_u8 :: "byte list \<Rightarrow> exn + (byte \<times> byte list)" where
  "dec_u8 bs = (if length bs < 1 then Inl Underrun else Inr (bs ! 0, drop 1 bs))"

definition dec_u32 :: "byte list \<Rightarrow> exn + (u32 \<times> byte list)" where
  "dec_u32 bs =
     (if length bs < 4 then Inl Underrun
      else Inr (ucast (bs ! 0) OR push_bit 8 (ucast (bs ! 1))
                OR push_bit 16 (ucast (bs ! 2)) OR push_bit 24 (ucast (bs ! 3)), drop 4 bs))"

definition dec_u64 :: "byte list \<Rightarrow> exn + (u64 \<times> byte list)" where
  "dec_u64 bs =
     (if length bs < 8 then Inl Underrun
      else Inr (fold (\<lambda>i v. v OR push_bit (8 * i) (ucast (bs ! i))) [0..<8] 0, drop 8 bs))"

definition dec_boolean :: "byte list \<Rightarrow> exn + (bool \<times> byte list)" where
  "dec_boolean bs = bindR (dec_u8 bs) (\<lambda>(b, r). Inr (b \<noteq> 0, r))"

definition dec_slice :: "nat \<Rightarrow> byte list \<Rightarrow> exn + (byte list \<times> byte list)" where
  "dec_slice n bs = (if length bs < n then Inl Underrun else Inr (take n bs, drop n bs))"

definition dec_str :: "byte list \<Rightarrow> exn + (string \<times> byte list)" where
  "dec_str bs =
     bindR (dec_u32 bs) (\<lambda>(len, r).
       if length r < unat len then Inl Underrun
       else Inr (map char_of_byte (take (unat len) r), drop (unat len) r))"

text \<open>The loop \<open>while (!sub.empty()) buf.push_back(sub.u8())\<close>.\<close>

function dec_drain :: "byte list \<Rightarrow> exn + byte list" where
  "dec_drain bs =
     (if bs = [] then Inr []
      else case dec_u8 bs of Inl e \<Rightarrow> Inl e | Inr (b, r) \<Rightarrow> mapR ((#) b) (dec_drain r))"
  by pat_completeness auto
termination
  by (relation "measure length") (auto simp: dec_u8_def split: if_splits)

declare dec_drain.simps [simp del]

text \<open>The loop \<open>for (i = 0; i < n; ++i) out.push_back(decode(dec))\<close>.\<close>

primrec dec_n :: "(byte list \<Rightarrow> exn + ('a \<times> byte list)) \<Rightarrow> nat \<Rightarrow> byte list \<Rightarrow> exn + ('a list \<times> byte list)" where
  "dec_n d 0 bs = Inr ([], bs)"
| "dec_n d (Suc n) bs =
     bindR (d bs) (\<lambda>(x, r). bindR (dec_n d n r) (\<lambda>(xs, r'). Inr (x # xs, r')))"

text \<open>The idiom \<open>len = u32(); sub = slice(len); while (!sub.empty()) ...\<close>.\<close>

definition dec_blob :: "byte list \<Rightarrow> exn + (byte list \<times> byte list)" where
  "dec_blob bs =
     bindR (dec_u32 bs) (\<lambda>(len, r).
     bindR (dec_slice (unat len) r) (\<lambda>(sub, r').
     bindR (dec_drain sub) (\<lambda>buf. Inr (buf, r'))))"

section \<open>Wire formats\<close>

text \<open>
  \<open>wf\<close> bounds the sizes: the encoder writes a length through \<open>static_cast<uint32_t>\<close>, so
  a string or list of 4294967296 elements or more is not written faithfully.
\<close>

locale wire_format =
  fixes enc :: "'a \<Rightarrow> byte list"
    and dec :: "byte list \<Rightarrow> exn + ('a \<times> byte list)"
    and wf :: "'a \<Rightarrow> bool"
  assumes dec_enc: "wf x \<Longrightarrow> dec (enc x @ r) = Inr (x, r)"
begin

lemma dec_enc_end: "wf x \<Longrightarrow> dec (enc x) = Inr (x, [])"
  using dec_enc [of x "[]"] by simp

lemma enc_prefix_free:
  assumes "wf x" "wf y" and eq: "enc x @ r = enc y @ s"
  shows "x = y \<and> r = s"
proof -
  have "Inr (x, r) = dec (enc x @ r)" by (rule dec_enc [OF assms(1), symmetric])
  also have "\<dots> = Inr (y, s)" unfolding eq by (rule dec_enc [OF assms(2)])
  finally show ?thesis by simp
qed

lemma enc_inj: "wf x \<Longrightarrow> wf y \<Longrightarrow> enc x = enc y \<Longrightarrow> x = y"
  using enc_prefix_free [of x y "[]" "[]"] by simp

lemma dec_n_enc: "list_all wf xs \<Longrightarrow> dec_n dec (length xs) (concat (map enc xs) @ r) = Inr (xs, r)"
  by (induction xs) (simp_all add: dec_enc)

end

section \<open>Round trips of the primitive encodings\<close>

lemma length_enc_u32 [simp]: "length (enc_u32 v) = 4"
  by (simp add: enc_u32_def)

lemma length_enc_le [simp]: "length (enc_le n v) = n"
  by (induction n arbitrary: v) auto

lemma length_enc_u64 [simp]: "length (enc_u64 v) = 8"
  by (simp add: enc_u64_def)

lemma enc_not_Nil [simp]: "enc_u8 b \<noteq> []" "enc_u32 v \<noteq> []" "enc_u64 w \<noteq> []"
  using length_enc_u32 [of v] length_enc_u64 [of w] by (auto simp: enc_u8_def simp del: length_enc_u32 length_enc_u64)

lemma dec_u8_enc [simp]: "dec_u8 (enc_u8 v @ r) = Inr (v, r)"
  by (simp add: dec_u8_def enc_u8_def)

lemma dec_u8_Cons [simp]: "dec_u8 (v # r) = Inr (v, r)"
  by (simp add: dec_u8_def)

lemma u32_bytes:
  "ucast (ucast v :: byte) OR push_bit 8 (ucast (ucast (drop_bit 8 v) :: byte))
     OR push_bit 16 (ucast (ucast (drop_bit 16 v) :: byte))
     OR push_bit 24 (ucast (ucast (drop_bit 24 v) :: byte)) = v"
  for v :: u32
proof (rule bit_word_eqI)
  fix n assume "n < LENGTH(32)"
  then consider "n < 8" | "8 \<le> n" "n < 16" | "16 \<le> n" "n < 24" | "24 \<le> n" "n < 32"
    by fastforce
  then show "bit (ucast (ucast v :: byte) OR push_bit 8 (ucast (ucast (drop_bit 8 v) :: byte))
     OR push_bit 16 (ucast (ucast (drop_bit 16 v) :: byte))
     OR push_bit 24 (ucast (ucast (drop_bit 24 v) :: byte)) :: u32) n = bit v n"
    by cases (auto simp: bit_simps)
qed

lemma dec_u32_enc [simp]: "dec_u32 (enc_u32 v @ r) = Inr (v, r)"
  by (simp add: dec_u32_def enc_u32_def u32_bytes)

lemma nth_enc_le: "i < n \<Longrightarrow> enc_le n v ! i = ucast (drop_bit (8 * i) v AND 0xFF)"
proof (induction n arbitrary: v i)
  case (Suc n)
  then show ?case by (cases i) (simp_all add: algebra_simps)
qed simp

lemma ucast_byte: "ucast (ucast (x AND 0xFF) :: byte) = take_bit 8 x" for x :: u64
proof -
  have "x AND 0xFF = take_bit 8 x" by (simp add: take_bit_eq_mask mask_eq_exp_minus_1)
  then show ?thesis by (auto intro!: bit_word_eqI simp: bit_simps)
qed

lemma take_bit_step: "take_bit k x OR push_bit k (take_bit m (drop_bit k x)) = take_bit (k + m) x" for x :: u64
  by (rule bit_word_eqI) (auto simp: bit_simps)

lemma u64_bytes_upto:
  "n \<le> 8 \<Longrightarrow> fold (\<lambda>i v. v OR push_bit (8 * i) (ucast (enc_u64 x ! i))) [0..<n] 0 = take_bit (8 * n) x"
proof (induction n)
  case (Suc n)
  then show ?case
    by (simp add: enc_u64_def nth_enc_le ucast_byte take_bit_step algebra_simps)
qed simp

lemma u64_bytes: "fold (\<lambda>i v. v OR push_bit (8 * i) (ucast (enc_u64 x ! i))) [0..<8] 0 = x"
proof -
  have "take_bit (8 * 8) x = x" by (rule bit_word_eqI) (simp add: bit_simps)
  with u64_bytes_upto [of 8 x] show ?thesis by (simp only: order_refl)
qed

lemma dec_u64_enc [simp]: "dec_u64 (enc_u64 v @ r) = Inr (v, r)"
proof -
  have "fold (\<lambda>i w. w OR push_bit (8 * i) (ucast ((enc_u64 v @ r) ! i))) [0..<8] (0 :: u64)
      = fold (\<lambda>i w. w OR push_bit (8 * i) (ucast (enc_u64 v ! i))) [0..<8] 0"
    by (intro List.fold_cong) (auto simp: nth_append)
  then have "dec_u64 (enc_u64 v @ r) = Inr (v, drop 8 (enc_u64 v @ r))"
    unfolding dec_u64_def by (simp only: u64_bytes length_append length_enc_u64) simp
  then show ?thesis by simp
qed

lemma dec_boolean_enc [simp]: "dec_boolean (enc_boolean b @ r) = Inr (b, r)"
  by (simp add: dec_boolean_def enc_boolean_def)

lemma char_of_byte_of_char [simp]: "char_of_byte (byte_of_char c) = c"
  by (simp add: char_of_byte_def byte_of_char_def unat_of_nat)

lemma dec_str_enc [simp]: "length s < 2 ^ 32 \<Longrightarrow> dec_str (enc_str s @ r) = Inr (s, r)"
  by (simp add: dec_str_def enc_str_def word_simps comp_def)

lemma dec_drain_eq [simp]: "dec_drain bs = Inr bs"
  by (induction bs) (subst dec_drain.simps, simp)+

lemma concat_enc_u8 [simp]: "concat (map enc_u8 bs) = bs"
  by (induction bs) (simp_all add: enc_u8_def)

lemma dec_blob_enc [simp]: "length bs < 2 ^ 32 \<Longrightarrow> dec_blob (enc_blob bs @ r) = Inr (bs, r)"
  by (simp add: dec_blob_def enc_blob_def dec_slice_def word_simps)

interpretation u8: wire_format enc_u8 dec_u8 "\<lambda>_. True"
  by unfold_locales simp

interpretation u32: wire_format enc_u32 dec_u32 "\<lambda>_. True"
  by unfold_locales simp

interpretation u64: wire_format enc_u64 dec_u64 "\<lambda>_. True"
  by unfold_locales simp

interpretation boolean: wire_format enc_boolean dec_boolean "\<lambda>_. True"
  by unfold_locales simp

interpretation str: wire_format enc_str dec_str "\<lambda>s. length s < 2 ^ 32"
  by unfold_locales simp

interpretation blob: wire_format enc_blob dec_blob "\<lambda>bs. length bs < 2 ^ 32"
  by unfold_locales simp

end
