(* ===== verification/Types.thy ===== *)
theory Types
  imports Codec
begin

text \<open>
  The data model of \<open>src/raft/types.hpp\<close>: commands of the replicated state machine, their
  results, roles and log entries. \<open>std::variant\<close> is a datatype with one constructor per
  alternative; \<open>std::string\<close> is \<open>string\<close>, whose characters are bytes.
\<close>

datatype command =
    CmdPut string string
  | CmdDelete string
  | CmdCas string string string
  | CmdGet string
  | CmdAddServer NodeId
  | CmdRemoveServer NodeId

record CmdResult =
  res_ok :: bool
  res_value :: string
  res_error :: string

datatype Role = Follower | Candidate | Leader

record LogEntry =
  le_term :: Term
  le_index :: Index
  le_cmd :: command

text \<open>The test \<open>holds_alternative<CmdAddServer>(cmd) || holds_alternative<CmdRemoveServer>(cmd)\<close>.\<close>

fun is_config :: "command \<Rightarrow> bool" where
  "is_config (CmdAddServer _) = True"
| "is_config (CmdRemoveServer _) = True"
| "is_config _ = False"

text \<open>
  Commands whose strings fit the 32-bit length fields of the encoding; the encoded command then
  has to fit one too, since log entries and frames carry its length in 32 bits.
\<close>

fun cmd_size :: "command \<Rightarrow> nat" where
  "cmd_size (CmdPut k v) = 9 + length k + length v"
| "cmd_size (CmdDelete k) = 5 + length k"
| "cmd_size (CmdCas k e v) = 13 + length k + length e + length v"
| "cmd_size (CmdGet k) = 5 + length k"
| "cmd_size (CmdAddServer _) = 5"
| "cmd_size (CmdRemoveServer _) = 5"

definition wf_command :: "command \<Rightarrow> bool" where
  "wf_command c \<longleftrightarrow> cmd_size c < 2 ^ 32"

definition wf_entry :: "LogEntry \<Rightarrow> bool" where
  "wf_entry e \<longleftrightarrow> wf_command (le_cmd e)"

end
