(* ===== verification/Durable_Store.thy ===== *)
theory Durable_Store
  imports Prelude
begin

text \<open>
  \<open>src/storage/durable_store.cpp\<close>: a byte vector with a flushed prefix; a crash drops the
  unflushed tail. The locale \<open>idurable_store\<close> is the contract of
  \<open>src/storage/idurable_store.hpp\<close> as the write-ahead log and the Raft node rely on it:
  \<open>read_all\<close> is the content, \<open>read_durable\<close> its flushed prefix.
\<close>

record DurableStore =
  ds_data :: "byte list"
  ds_flushed_end :: nat

definition ds_init :: DurableStore where
  "ds_init = \<lparr>ds_data = [], ds_flushed_end = 0\<rparr>"

text \<open>\<open>std::vector::resize\<close>: cut, or pad with zero bytes.\<close>

definition resize :: "nat \<Rightarrow> byte list \<Rightarrow> byte list" where
  "resize n bs = take n bs @ replicate (n - length bs) 0"

definition ds_append :: "byte list \<Rightarrow> DurableStore \<Rightarrow> DurableStore" where
  "ds_append bs s = s\<lparr>ds_data := ds_data s @ bs\<rparr>"

definition ds_flush :: "DurableStore \<Rightarrow> DurableStore" where
  "ds_flush s = s\<lparr>ds_flushed_end := length (ds_data s)\<rparr>"

definition ds_crash :: "DurableStore \<Rightarrow> DurableStore" where
  "ds_crash s = s\<lparr>ds_data := resize (ds_flushed_end s) (ds_data s)\<rparr>"

definition ds_read_durable :: "DurableStore \<Rightarrow> byte list" where
  "ds_read_durable s = take (ds_flushed_end s) (ds_data s)"

definition ds_read_all :: "DurableStore \<Rightarrow> byte list" where
  "ds_read_all s = ds_data s"

definition ds_truncate_to :: "nat \<Rightarrow> DurableStore \<Rightarrow> DurableStore" where
  "ds_truncate_to off s =
     (let s' = (if off \<le> ds_flushed_end s then s\<lparr>ds_flushed_end := off\<rparr> else s)
      in if off \<le> length (ds_data s') then s'\<lparr>ds_data := resize off (ds_data s')\<rparr> else s')"

definition ds_durable_size :: "DurableStore \<Rightarrow> nat" where
  "ds_durable_size s = ds_flushed_end s"

definition ds_total_size :: "DurableStore \<Rightarrow> nat" where
  "ds_total_size s = length (ds_data s)"

text \<open>The flushed prefix lies inside the buffer.\<close>

definition ds_inv :: "DurableStore \<Rightarrow> bool" where
  "ds_inv s \<longleftrightarrow> ds_flushed_end s \<le> length (ds_data s)"

lemmas ds_defs = ds_init_def ds_append_def ds_flush_def ds_crash_def ds_read_durable_def
  ds_read_all_def ds_truncate_to_def ds_durable_size_def ds_total_size_def ds_inv_def resize_def

section \<open>The contract of a durable store\<close>

locale idurable_store =
  fixes append :: "byte list \<Rightarrow> 's \<Rightarrow> 's"
    and flush :: "'s \<Rightarrow> 's"
    and crash :: "'s \<Rightarrow> 's"
    and read_durable :: "'s \<Rightarrow> byte list"
    and read_all :: "'s \<Rightarrow> byte list"
    and truncate_to :: "nat \<Rightarrow> 's \<Rightarrow> 's"
    and invar :: "'s \<Rightarrow> bool"
  assumes invar_append: "invar s \<Longrightarrow> invar (append bs s)"
    and invar_flush: "invar s \<Longrightarrow> invar (flush s)"
    and invar_crash: "invar s \<Longrightarrow> invar (crash s)"
    and invar_truncate: "invar s \<Longrightarrow> invar (truncate_to n s)"
    and all_append: "read_all (append bs s) = read_all s @ bs"
    and durable_append: "invar s \<Longrightarrow> read_durable (append bs s) = read_durable s"
    and all_flush: "read_all (flush s) = read_all s"
    and durable_flush: "read_durable (flush s) = read_all s"
    and all_crash: "invar s \<Longrightarrow> read_all (crash s) = read_durable s"
    and durable_crash: "invar s \<Longrightarrow> read_durable (crash s) = read_durable s"
    and all_truncate: "invar s \<Longrightarrow> n \<le> length (read_all s) \<Longrightarrow> read_all (truncate_to n s) = take n (read_all s)"
    and durable_truncate: "invar s \<Longrightarrow> n \<le> length (read_all s) \<Longrightarrow>
      read_durable (truncate_to n s) = take n (read_durable s)"
begin

text \<open>
  The rewriting idiom of \<open>RaftNode::persist\<close> and \<open>RaftNode::save_snapshot\<close>: truncate to
  zero, append, flush. Afterwards the store durably holds exactly the bytes written, whatever it held
  before, and a crash does not lose them.
\<close>

definition rewrite :: "byte list \<Rightarrow> 's \<Rightarrow> 's" where
  "rewrite bs s = flush (append bs (truncate_to 0 s))"

lemma rewrite_durable: "invar s \<Longrightarrow> read_durable (rewrite bs s) = bs"
  by (simp add: rewrite_def durable_flush all_append all_truncate)

lemma rewrite_invar: "invar s \<Longrightarrow> invar (rewrite bs s)"
  by (simp add: rewrite_def invar_flush invar_append invar_truncate)

lemma rewrite_crash: "invar s \<Longrightarrow> read_durable (crash (rewrite bs s)) = bs"
  by (simp add: durable_crash rewrite_invar rewrite_durable)

text \<open>Whatever is appended after the last flush is lost by a crash, and nothing else is.\<close>

lemma crash_after_appends:
  "invar s \<Longrightarrow> read_all (crash (fold append bss (flush s))) = read_all s"
proof -
  assume inv: "invar s"
  have "invar t \<Longrightarrow> invar (fold append bss t) \<and> read_durable (fold append bss t) = read_durable t" for t
    by (induction bss arbitrary: t) (simp_all add: invar_append durable_append)
  from this [of "flush s"] inv show ?thesis
    by (simp add: all_crash invar_flush durable_flush)
qed

end

interpretation ds: idurable_store ds_append ds_flush ds_crash ds_read_durable ds_read_all ds_truncate_to ds_inv
  by unfold_locales (auto simp: ds_defs Let_def min_def)

lemma ds_inv_init [simp]: "ds_inv ds_init"
  by (simp add: ds_defs)

lemma ds_durable_size_read: "ds_inv s \<Longrightarrow> ds_durable_size s = length (ds_read_durable s)"
  by (simp add: ds_defs)

end
