(* ===== verification/Wal.thy ===== *)
theory Wal
  imports Types Durable_Store
begin

unbundle bit_operations_syntax

text \<open>
  \<open>src/storage/wal.cpp\<close>: the encoding of commands, the CRC-32C of a record, and the
  write-ahead log of framed records \<open>[length][payload][crc]\<close> over a durable store, with
  its replay loop.
\<close>

section \<open>CRC-32C\<close>

definition crc_shift :: "u32 \<Rightarrow> u32" where
  "crc_shift crc = drop_bit 1 crc XOR (0x82F63B78 AND - (crc AND 1))"

definition crc_byte :: "byte \<Rightarrow> u32 \<Rightarrow> u32" where
  "crc_byte b crc = (crc_shift ^^ 8) (crc XOR ucast b)"

definition crc32c :: "byte list \<Rightarrow> u32" where
  "crc32c bs = fold crc_byte bs 0xFFFFFFFF XOR 0xFFFFFFFF"

section \<open>Commands as bytes\<close>

fun encode_command :: "command \<Rightarrow> byte list" where
  "encode_command (CmdPut k v) = enc_u8 1 @ enc_str k @ enc_str v"
| "encode_command (CmdDelete k) = enc_u8 2 @ enc_str k"
| "encode_command (CmdCas k e v) = enc_u8 3 @ enc_str k @ enc_str e @ enc_str v"
| "encode_command (CmdGet k) = enc_u8 4 @ enc_str k"
| "encode_command (CmdAddServer i) = enc_u8 5 @ enc_u32 i"
| "encode_command (CmdRemoveServer i) = enc_u8 6 @ enc_u32 i"

definition decode_command :: "byte list \<Rightarrow> exn + command" where
  "decode_command bs =
     bindR (dec_u8 bs) (\<lambda>(tag, r).
       if tag = 1 then
         bindR (dec_str r) (\<lambda>(k, r). bindR (dec_str r) (\<lambda>(v, r). Inr (CmdPut k v)))
       else if tag = 2 then
         bindR (dec_str r) (\<lambda>(k, r). Inr (CmdDelete k))
       else if tag = 3 then
         bindR (dec_str r) (\<lambda>(k, r). bindR (dec_str r) (\<lambda>(e, r).
           bindR (dec_str r) (\<lambda>(v, r). Inr (CmdCas k e v))))
       else if tag = 4 then
         bindR (dec_str r) (\<lambda>(k, r). Inr (CmdGet k))
       else if tag = 5 then
         bindR (dec_u32 r) (\<lambda>(i, r). Inr (CmdAddServer i))
       else if tag = 6 then
         bindR (dec_u32 r) (\<lambda>(i, r). Inr (CmdRemoveServer i))
       else Inl UnknownTag)"

lemma length_encode_command [simp]: "length (encode_command c) = cmd_size c"
  by (cases c) (simp_all add: enc_u8_def enc_str_def)

lemma decode_encode_command_app: "wf_command c \<Longrightarrow> decode_command (encode_command c @ r) = Inr c"
  by (cases c) (simp_all add: decode_command_def wf_command_def)

lemma decode_encode_command: "wf_command c \<Longrightarrow> decode_command (encode_command c) = Inr c"
  using decode_encode_command_app [of c "[]"] by simp

section \<open>The log of framed records\<close>

definition wal_append :: "command \<Rightarrow> DurableStore \<Rightarrow> DurableStore" where
  "wal_append cmd s =
     (let payload = encode_command cmd;
          len = of_nat (length payload);
          crc = crc32c payload
      in ds_append (enc_u32 crc) (ds_append payload (ds_append (enc_u32 len) s)))"

definition wal_flush :: "DurableStore \<Rightarrow> DurableStore" where
  "wal_flush s = ds_flush s"

function replay_loop :: "byte list \<Rightarrow> command list" where
  "replay_loop p =
     (if p = [] then []
      else if length p < 4 then []
      else case dec_u32 (take 4 p) of
        Inl _ \<Rightarrow> []
      | Inr (len, _) \<Rightarrow>
          (let p1 = drop 4 p in
           if length p1 < unat len + 4 then []
           else
             let payload = take (unat len) p1;
                 p2 = drop (unat len) p1
             in case dec_u32 (take 4 p2) of
                  Inl _ \<Rightarrow> []
                | Inr (stored_crc, _) \<Rightarrow>
                    if crc32c payload \<noteq> stored_crc then []
                    else case decode_command payload of
                           Inl _ \<Rightarrow> []
                         | Inr c \<Rightarrow> c # replay_loop (drop 4 p2)))"
  by pat_completeness auto
termination
  by (relation "measure length") auto

declare replay_loop.simps [simp del]

definition wal_replay :: "DurableStore \<Rightarrow> command list" where
  "wal_replay s = replay_loop (ds_read_durable s)"

section \<open>Replay recovers exactly the complete records\<close>

definition wal_frame :: "command \<Rightarrow> byte list" where
  "wal_frame c = enc_u32 (of_nat (length (encode_command c))) @ encode_command c
     @ enc_u32 (crc32c (encode_command c))"

lemma wal_append_frame: "ds_read_all (wal_append c s) = ds_read_all s @ wal_frame c"
  by (simp add: wal_append_def wal_frame_def ds_defs Let_def)

lemma wal_append_durable: "ds_inv s \<Longrightarrow> ds_inv (wal_append c s) \<and> ds_read_durable (wal_append c s) = ds_read_durable s"
  by (simp add: wal_append_def Let_def ds.invar_append ds.durable_append)

lemma length_wal_frame: "length (wal_frame c) = cmd_size c + 8"
  by (simp add: wal_frame_def)

lemma replay_loop_short: "length p < 4 \<Longrightarrow> replay_loop p = []"
  by (subst replay_loop.simps) simp

lemma replay_loop_cut:
  "take 4 p = enc_u32 len \<Longrightarrow> length (drop 4 p) < unat len + 4 \<Longrightarrow> replay_loop p = []"
  using u32.dec_enc_end [of len] by (subst replay_loop.simps) (simp add: Let_def)

lemma wal_frame_not_Nil [simp]: "wal_frame c \<noteq> []"
  using length_wal_frame [of c] by fastforce

lemma replay_frame:
  assumes "wf_command c"
  shows "replay_loop (wal_frame c @ r) = c # replay_loop r"
proof -
  let ?p = "encode_command c"
  have len: "unat (of_nat (length ?p) :: u32) = length ?p"
    using assms by (simp add: wf_command_def word_simps)
  have "take 4 (wal_frame c @ r) = enc_u32 (of_nat (length ?p))"
    by (simp add: wal_frame_def)
  moreover have "drop 4 (wal_frame c @ r) = ?p @ enc_u32 (crc32c ?p) @ r"
    by (simp add: wal_frame_def)
  ultimately show ?thesis
    using len assms u32.dec_enc_end
    by (subst replay_loop.simps) (simp add: Let_def length_wal_frame decode_encode_command)
qed

text \<open>
  A crash of a real disk can cut the file anywhere. \<open>complete_records\<close> are the records whose
  last byte lies within the first \<open>k\<close> bytes.
\<close>

fun complete_records :: "nat \<Rightarrow> command list \<Rightarrow> command list" where
  "complete_records k [] = []"
| "complete_records k (c # cs) =
     (if length (wal_frame c) \<le> k then c # complete_records (k - length (wal_frame c)) cs else [])"

lemma replay_short_frame:
  assumes "wf_command c" and short: "k < length (wal_frame c)"
  shows "replay_loop (take k (wal_frame c @ r)) = []"
proof (cases "k < 4")
  case True
  then show ?thesis by (intro replay_loop_short) simp
next
  case False
  let ?p = "encode_command c"
  show ?thesis
  proof (rule replay_loop_cut)
    show "take 4 (take k (wal_frame c @ r)) = enc_u32 (of_nat (length ?p))"
      using False by (simp add: wal_frame_def min_def)
    have "unat (of_nat (length ?p) :: u32) = length ?p"
      using assms by (simp add: wf_command_def word_simps)
    then show "length (drop 4 (take k (wal_frame c @ r))) < unat (of_nat (length ?p) :: u32) + 4"
      using short False by (simp add: length_wal_frame)
  qed
qed

lemma replay_torn:
  "list_all wf_command cs \<Longrightarrow> replay_loop (take k (concat (map wal_frame cs))) = complete_records k cs"
proof (induction cs arbitrary: k)
  case Nil
  then show ?case by (simp add: replay_loop.simps)
next
  case (Cons c cs)
  show ?case
  proof (cases "length (wal_frame c) \<le> k")
    case True
    then have "take k (concat (map wal_frame (c # cs)))
        = wal_frame c @ take (k - length (wal_frame c)) (concat (map wal_frame cs))"
      by simp
    moreover have "wf_command c" using Cons.prems by simp
    ultimately show ?thesis using Cons True by (simp only: replay_frame) simp
  next
    case False
    with Cons.prems show ?thesis by (simp add: replay_short_frame del: take_append)
  qed
qed

lemma complete_records_all: "length (concat (map wal_frame cs)) \<le> k \<Longrightarrow> complete_records k cs = cs"
  by (induction cs arbitrary: k) auto

lemma complete_records_prefix: "\<exists>n. complete_records k cs = take n cs"
proof (induction cs arbitrary: k)
  case (Cons c cs)
  from Cons [of "k - length (wal_frame c)"] obtain n
    where "complete_records (k - length (wal_frame c)) cs = take n cs" by blast
  then show ?case
    by (cases "length (wal_frame c) \<le> k") (auto intro: exI [of _ "Suc n"] exI [of _ 0])
qed simp

definition wal_write :: "command list \<Rightarrow> DurableStore \<Rightarrow> DurableStore" where
  "wal_write cs s = fold wal_append cs s"

lemma wal_write_all: "ds_read_all (wal_write cs s) = ds_read_all s @ concat (map wal_frame cs)"
  unfolding wal_write_def by (induction cs arbitrary: s) (simp_all add: wal_append_frame)

lemma wal_write_durable:
  "ds_inv s \<Longrightarrow> ds_inv (wal_write cs s) \<and> ds_read_durable (wal_write cs s) = ds_read_durable s"
  unfolding wal_write_def by (induction cs arbitrary: s) (simp_all add: wal_append_durable)

section \<open>Properties\<close>

text \<open>
  C7. Commands appended to the log and flushed survive a crash and are replayed exactly, in order,
  whatever else is appended after the flush: the unflushed records are lost and nothing else is.
\<close>

theorem wal_replay_exact:
  assumes "list_all wf_command cs"
  shows "wal_replay (ds_crash (wal_write ds (wal_flush (wal_write cs ds_init)))) = cs"
proof -
  let ?s = "wal_flush (wal_write cs ds_init)"
  have inv: "ds_inv ?s" by (simp add: wal_flush_def ds.invar_flush wal_write_durable)
  have "ds_read_durable ?s = concat (map wal_frame cs)"
    by (simp add: wal_flush_def ds.durable_flush wal_write_all) (simp add: ds_defs)
  then have "ds_read_durable (ds_crash (wal_write ds ?s)) = take (length (concat (map wal_frame cs))) (concat (map wal_frame cs))"
    using wal_write_durable [OF inv] by (simp add: ds.durable_crash)
  with assms show ?thesis by (simp only: wal_replay_def replay_torn) (simp add: complete_records_all)
qed

theorem wal_replay_exact_witness:
  "wal_replay (ds_crash (wal_write [CmdGet ''x''] (wal_flush (wal_write [CmdPut ''k'' ''v'', CmdDelete ''k''] ds_init))))
     = [CmdPut ''k'' ''v'', CmdDelete ''k'']"
  by (rule wal_replay_exact) (simp add: wf_command_def)

text \<open>
  C8. However many of its first bytes survive on disk, a log of framed records replays a prefix of the
  commands written: exactly those whose frame is complete. A torn tail record is never replayed.
\<close>

theorem wal_replay_torn_prefix:
  assumes "list_all wf_command cs" "ds_read_durable s = take k (concat (map wal_frame cs))"
  shows "wal_replay s = complete_records k cs \<and> (\<exists>n. wal_replay s = take n cs)"
  using assms replay_torn [of cs k] complete_records_prefix [of k cs] by (simp add: wal_replay_def)

theorem wal_replay_torn_prefix_witness:
  "wal_replay \<lparr>ds_data = take 20 (concat (map wal_frame [CmdDelete ''k'', CmdGet ''k''])), ds_flushed_end = 20\<rparr>
     = [CmdDelete ''k'']"
proof -
  have "length (wal_frame (CmdDelete ''k'')) = 14" "length (wal_frame (CmdGet ''k'')) = 14"
    by (simp_all add: length_wal_frame)
  then show ?thesis
    using wal_replay_torn_prefix [of "[CmdDelete ''k'', CmdGet ''k'']" "\<lparr>ds_data = take 20 (concat (map wal_frame
      [CmdDelete ''k'', CmdGet ''k''])), ds_flushed_end = 20\<rparr>" 20]
    by (simp add: wf_command_def ds_read_durable_def)
qed

end
