(* ===== verification/File_Store.thy ===== *)
theory File_Store
  imports Durable_Store
begin

text \<open>
  \<open>src/storage/file_durable_store.cpp\<close>: the durable store of the real server, a file with an in-memory
  mirror. The operating system is a parameter: the record \<open>posix\<close> of the calls the code makes, on a
  state \<open>'o\<close>. What the code relies on is \<open>posix_ok\<close>: the documented effect of a call that reports
  success. A call that fails may do anything.

  The theorem is that the file store behaves as the simulated \<open>DurableStore\<close>, and that opening the
  file again after a power failure is the simulated \<open>crash\<close>.
\<close>

section \<open>The operating system\<close>

record 'o posix =
  px_open :: "string \<Rightarrow> 'o \<Rightarrow> int \<times> 'o"
  px_fstat :: "int \<Rightarrow> 'o \<Rightarrow> int \<times> nat"
  px_pread :: "int \<Rightarrow> nat \<Rightarrow> nat \<Rightarrow> 'o \<Rightarrow> int \<times> byte list"
  px_pwrite :: "int \<Rightarrow> byte list \<Rightarrow> nat \<Rightarrow> 'o \<Rightarrow> int \<times> 'o"
  px_fsync :: "int \<Rightarrow> 'o \<Rightarrow> int \<times> 'o"
  px_ftruncate :: "int \<Rightarrow> nat \<Rightarrow> 'o \<Rightarrow> int \<times> 'o"

text \<open>
  \<open>file fd o\<close> is what reads through the descriptor see, \<open>disk fd o\<close> what would survive a power failure, and
  \<open>stored path o\<close> the content of the file at a path, empty if there is none.
\<close>

definition posix_ok ::
  "'o posix \<Rightarrow> (int \<Rightarrow> 'o \<Rightarrow> byte list) \<Rightarrow> (int \<Rightarrow> 'o \<Rightarrow> byte list) \<Rightarrow> (string \<Rightarrow> 'o \<Rightarrow> byte list) \<Rightarrow> bool" where
  "posix_ok P file disk stored \<longleftrightarrow>
     (\<forall>path o1 fd o2. px_open P path o1 = (fd, o2) \<longrightarrow> 0 \<le> fd \<longrightarrow>
        file fd o2 = stored path o1 \<and> disk fd o2 = stored path o1)
     \<and> (\<forall>fd o1 r n. px_fstat P fd o1 = (r, n) \<longrightarrow> 0 \<le> r \<longrightarrow> n = length (file fd o1))
     \<and> (\<forall>fd len off o1 n bs. px_pread P fd len off o1 = (n, bs) \<longrightarrow> 0 \<le> n \<longrightarrow>
          nat n \<le> len \<and> bs = take (nat n) (drop off (file fd o1)) \<and> length bs = nat n)
     \<and> (\<forall>fd bs off o1 n o2. px_pwrite P fd bs off o1 = (n, o2) \<longrightarrow> n = int (length bs) \<longrightarrow> off \<le> length (file fd o1) \<longrightarrow>
          file fd o2 = take off (file fd o1) @ bs @ drop (off + length bs) (file fd o1))
     \<and> (\<forall>fd o1 r o2. px_fsync P fd o1 = (r, o2) \<longrightarrow> 0 \<le> r \<longrightarrow> file fd o2 = file fd o1 \<and> disk fd o2 = file fd o1)
     \<and> (\<forall>fd n o1 r o2. px_ftruncate P fd n o1 = (r, o2) \<longrightarrow> 0 \<le> r \<longrightarrow> n \<le> length (file fd o1) \<longrightarrow>
          file fd o2 = take n (file fd o1))"

lemma posix_open:
  "posix_ok P file disk stored \<Longrightarrow> px_open P path o1 = (fd, o2) \<Longrightarrow> 0 \<le> fd
    \<Longrightarrow> file fd o2 = stored path o1 \<and> disk fd o2 = stored path o1"
  and posix_fstat: "posix_ok P file disk stored \<Longrightarrow> px_fstat P fd o1 = (r, n) \<Longrightarrow> 0 \<le> r \<Longrightarrow> n = length (file fd o1)"
  and posix_pread: "posix_ok P file disk stored \<Longrightarrow> px_pread P fd len off o1 = (k, bs) \<Longrightarrow> 0 \<le> k
    \<Longrightarrow> nat k \<le> len \<and> bs = take (nat k) (drop off (file fd o1)) \<and> length bs = nat k"
  and posix_pwrite: "posix_ok P file disk stored \<Longrightarrow> px_pwrite P fd bs off o1 = (k, o2) \<Longrightarrow> k = int (length bs)
    \<Longrightarrow> off \<le> length (file fd o1) \<Longrightarrow> file fd o2 = take off (file fd o1) @ bs @ drop (off + length bs) (file fd o1)"
  and posix_fsync: "posix_ok P file disk stored \<Longrightarrow> px_fsync P fd o1 = (r, o2) \<Longrightarrow> 0 \<le> r
    \<Longrightarrow> file fd o2 = file fd o1 \<and> disk fd o2 = file fd o1"
  and posix_ftruncate: "posix_ok P file disk stored \<Longrightarrow> px_ftruncate P fd n o1 = (r, o2) \<Longrightarrow> 0 \<le> r
    \<Longrightarrow> n \<le> length (file fd o1) \<Longrightarrow> file fd o2 = take n (file fd o1)"
  unfolding posix_ok_def by simp_all

section \<open>The store\<close>

record FileDurableStore =
  fs_fd :: int
  fs_buffer :: "byte list"
  fs_flushed_end :: nat

definition fs_open :: "'o posix \<Rightarrow> string \<Rightarrow> 'o \<Rightarrow> (exn + FileDurableStore) \<times> 'o" where
  "fs_open P path os =
     (let (fd, os) = px_open P path os in
      if fd < 0 then (Inl IoError, os)
      else
        let (r, file_size) = px_fstat P fd os in
        if r < 0 then (Inl IoError, os)
        else if file_size > 0 then
          let (n, bs) = px_pread P fd file_size 0 os in
          if n < 0 \<or> nat n \<noteq> file_size then (Inl IoError, os)
          else (Inr \<lparr>fs_fd = fd, fs_buffer = bs, fs_flushed_end = file_size\<rparr>, os)
        else (Inr \<lparr>fs_fd = fd, fs_buffer = [], fs_flushed_end = file_size\<rparr>, os))"

definition fs_append :: "byte list \<Rightarrow> FileDurableStore \<Rightarrow> FileDurableStore" where
  "fs_append bytes s = s\<lparr>fs_buffer := fs_buffer s @ bytes\<rparr>"

definition fs_flush :: "'o posix \<Rightarrow> FileDurableStore \<times> 'o \<Rightarrow> (FileDurableStore \<times> 'o) outcome" where
  "fs_flush P st =
     (let (s, os) = st in
      if length (fs_buffer s) \<le> fs_flushed_end s then Ret (s, os)
      else
        let to_write = length (fs_buffer s) - fs_flushed_end s;
            (n, os) = px_pwrite P (fs_fd s) (drop (fs_flushed_end s) (fs_buffer s)) (fs_flushed_end s) os
        in if n < 0 \<or> nat n \<noteq> to_write then Raise IoError (s, os)
           else
             let (r, os) = px_fsync P (fs_fd s) os
             in if r < 0 then Raise IoError (s, os)
                else Ret (s\<lparr>fs_flushed_end := length (fs_buffer s)\<rparr>, os))"

definition fs_crash :: "FileDurableStore \<times> 'o \<Rightarrow> (FileDurableStore \<times> 'o) outcome" where
  "fs_crash st = Raise AssertFail st"

definition fs_read_durable :: "FileDurableStore \<Rightarrow> byte list" where
  "fs_read_durable s = take (fs_flushed_end s) (fs_buffer s)"

definition fs_read_all :: "FileDurableStore \<Rightarrow> byte list" where
  "fs_read_all s = fs_buffer s"

definition fs_durable_size :: "FileDurableStore \<Rightarrow> nat" where
  "fs_durable_size s = fs_flushed_end s"

definition fs_total_size :: "FileDurableStore \<Rightarrow> nat" where
  "fs_total_size s = length (fs_buffer s)"

definition fs_truncate_to :: "'o posix \<Rightarrow> nat \<Rightarrow> FileDurableStore \<times> 'o \<Rightarrow> (FileDurableStore \<times> 'o) outcome" where
  "fs_truncate_to P offset st =
     (let (s, os) = st in
      if offset > length (fs_buffer s) then Ret (s, os)
      else
        let s = s\<lparr>fs_buffer := resize offset (fs_buffer s)\<rparr>
        in if offset < fs_flushed_end s then
             let (r, os) = px_ftruncate P (fs_fd s) offset os
             in if r < 0 then Raise IoError (s, os)
                else
                  let (r, os) = px_fsync P (fs_fd s) os
                  in if r < 0 then Raise IoError (s, os)
                     else Ret (s\<lparr>fs_flushed_end := offset\<rparr>, os)
           else Ret (s, os))"

section \<open>The file store implements the simulated store\<close>

datatype store_op = Append "byte list" | Flush | Truncate nat

fun fs_op :: "'o posix \<Rightarrow> store_op \<Rightarrow> FileDurableStore \<times> 'o \<Rightarrow> (FileDurableStore \<times> 'o) outcome" where
  "fs_op P (Append bs) st = Ret (fs_append bs (fst st), snd st)"
| "fs_op P Flush st = fs_flush P st"
| "fs_op P (Truncate n) st = fs_truncate_to P n st"

fun ds_op :: "store_op \<Rightarrow> DurableStore \<Rightarrow> DurableStore" where
  "ds_op (Append bs) s = ds_append bs s"
| "ds_op Flush s = ds_flush s"
| "ds_op (Truncate n) s = ds_truncate_to n s"

definition fs_abs :: "FileDurableStore \<Rightarrow> DurableStore" where
  "fs_abs s = \<lparr>ds_data = fs_buffer s, ds_flushed_end = fs_flushed_end s\<rparr>"

text \<open>Between two calls the file and the disk hold exactly the flushed prefix of the mirror.\<close>

definition mirrored :: "(int \<Rightarrow> 'o \<Rightarrow> byte list) \<Rightarrow> (int \<Rightarrow> 'o \<Rightarrow> byte list) \<Rightarrow> FileDurableStore \<times> 'o \<Rightarrow> bool" where
  "mirrored file disk st \<longleftrightarrow> (case st of (s, os) \<Rightarrow>
     fs_flushed_end s \<le> length (fs_buffer s) \<and> file (fs_fd s) os = fs_read_durable s
     \<and> disk (fs_fd s) os = fs_read_durable s)"

lemma flush_mirrored:
  assumes P: "posix_ok P file disk stored" and m: "mirrored file disk (s, os)" and r: "fs_flush P (s, os) = Ret (s', os')"
  shows "mirrored file disk (s', os') \<and> fs_abs s' = ds_flush (fs_abs s) \<and> fs_fd s' = fs_fd s"
proof (cases "length (fs_buffer s) \<le> fs_flushed_end s")
  case True
  with m r show ?thesis by (auto simp: fs_flush_def mirrored_def fs_abs_def ds_flush_def)
next
  case False
  let ?bs = "drop (fs_flushed_end s) (fs_buffer s)" and ?fd = "fs_fd s" and ?off = "fs_flushed_end s"
  obtain n o1 where w: "px_pwrite P ?fd ?bs ?off os = (n, o1)" by fastforce
  obtain c o2 where f: "px_fsync P ?fd o1 = (c, o2)" by fastforce
  from False r w f have n: "n = int (length ?bs)" and c: "0 \<le> c"
    and s': "s' = s\<lparr>fs_flushed_end := length (fs_buffer s)\<rparr>" "os' = o2"
    by (auto simp: fs_flush_def Let_def split: if_splits)
  have len: "length (file ?fd os) = ?off" and pre: "file ?fd os = take ?off (fs_buffer s)"
    using m by (simp_all add: mirrored_def fs_read_durable_def)
  have le: "?off \<le> length (file ?fd os)" using len by simp
  have "file ?fd o1 = take ?off (file ?fd os) @ ?bs @ drop (?off + length ?bs) (file ?fd os)"
    using posix_pwrite [OF P w n le] .
  then have "file ?fd o1 = fs_buffer s" using len by (simp add: pre)
  moreover note posix_fsync [OF P f c]
  ultimately show ?thesis by (simp add: s' mirrored_def fs_read_durable_def fs_abs_def ds_flush_def)
qed

lemma truncate_mirrored:
  assumes P: "posix_ok P file disk stored" and m: "mirrored file disk (s, os)" and r: "fs_truncate_to P off (s, os) = Ret (s', os')"
  shows "mirrored file disk (s', os') \<and> fs_abs s' = ds_truncate_to off (fs_abs s) \<and> fs_fd s' = fs_fd s"
proof -
  have inv: "fs_flushed_end s \<le> length (fs_buffer s)" using m by (simp add: mirrored_def)
  consider "off > length (fs_buffer s)" | "off \<le> length (fs_buffer s)" "fs_flushed_end s \<le> off"
    | "off < fs_flushed_end s" using inv by linarith
  then show ?thesis
  proof cases
    case 1
    with m r inv show ?thesis by (auto simp: fs_truncate_to_def fs_abs_def ds_truncate_to_def)
  next
    case 2
    with m r show ?thesis
      by (auto simp: fs_truncate_to_def fs_abs_def ds_truncate_to_def mirrored_def fs_read_durable_def resize_def Let_def)
  next
    case 3
    let ?fd = "fs_fd s"
    obtain a o1 where t: "px_ftruncate P ?fd off os = (a, o1)" by fastforce
    obtain c o2 where f: "px_fsync P ?fd o1 = (c, o2)" by fastforce
    from 3 inv r t f have ok: "0 \<le> a" "0 \<le> c"
      and s': "s' = s\<lparr>fs_buffer := take off (fs_buffer s), fs_flushed_end := off\<rparr>" "os' = o2"
      by (auto simp: fs_truncate_to_def Let_def resize_def split: if_splits)
    have cont: "file ?fd os = take (fs_flushed_end s) (fs_buffer s)" using m by (simp add: mirrored_def fs_read_durable_def)
    have "file ?fd o1 = take off (file ?fd os)" using posix_ftruncate [OF P t ok(1)] 3 inv cont by simp
    moreover note posix_fsync [OF P f ok(2)]
    ultimately show ?thesis
      using 3 inv cont by (simp add: s' mirrored_def fs_read_durable_def fs_abs_def ds_truncate_to_def resize_def Let_def min_def)
  qed
qed

lemma op_mirrored:
  assumes "posix_ok P file disk stored" "mirrored file disk st" "fs_op P a st = Ret st'"
  shows "mirrored file disk st' \<and> fs_abs (fst st') = ds_op a (fs_abs (fst st)) \<and> fs_fd (fst st') = fs_fd (fst st)"
proof (cases a)
  case (Append bs)
  with assms(2,3) show ?thesis
    by (cases st) (auto simp: fs_append_def mirrored_def fs_read_durable_def fs_abs_def ds_append_def)
next
  case Flush
  with assms show ?thesis using flush_mirrored [OF assms(1), of "fst st" "snd st" "fst st'" "snd st'"] by simp
next
  case (Truncate n)
  with assms show ?thesis using truncate_mirrored [OF assms(1), of "fst st" "snd st" n "fst st'" "snd st'"] by simp
qed

lemma ops_mirrored:
  assumes "posix_ok P file disk stored" "mirrored file disk st" "foldO (fs_op P) ops st = Ret st'"
  shows "mirrored file disk st' \<and> fs_abs (fst st') = fold ds_op ops (fs_abs (fst st)) \<and> fs_fd (fst st') = fs_fd (fst st)"
  using assms(2,3)
proof (induction ops arbitrary: st)
  case (Cons a ops)
  from Cons.prems(2) obtain st1 where "fs_op P a st = Ret st1" "foldO (fs_op P) ops st1 = Ret st'"
    by (cases "fs_op P a st") auto
  with op_mirrored [OF assms(1) Cons.prems(1), of a st1] Cons.IH [of st1] show ?case by simp
qed simp

lemma open_reads:
  assumes P: "posix_ok P file disk stored" and r: "fs_open P path os = (Inr s, os')"
  shows "fs_abs s = \<lparr>ds_data = stored path os, ds_flushed_end = length (stored path os)\<rparr> \<and> mirrored file disk (s, os')"
proof -
  obtain fd o1 where o: "px_open P path os = (fd, o1)" by fastforce
  obtain c n where st: "px_fstat P fd o1 = (c, n)" by fastforce
  obtain k bs where rd: "px_pread P fd n 0 o1 = (k, bs)" by fastforce
  from r o st rd have fd: "0 \<le> fd" "0 \<le> c" "os' = o1"
    and s: "n > 0 \<and> 0 \<le> k \<and> nat k = n \<and> s = \<lparr>fs_fd = fd, fs_buffer = bs, fs_flushed_end = n\<rparr>
      \<or> n = 0 \<and> s = \<lparr>fs_fd = fd, fs_buffer = [], fs_flushed_end = n\<rparr>"
    by (auto simp: fs_open_def Let_def split: if_splits)
  note cont = posix_open [OF P o fd(1)] and n = posix_fstat [OF P st fd(2)]
  from posix_pread [OF P rd] s n cont fd(3) show ?thesis by (auto simp: fs_abs_def mirrored_def fs_read_durable_def)
qed

section \<open>Properties\<close>


text \<open>A file system with one file, on which every call succeeds.\<close>

definition one_file :: "byte list posix" where
  "one_file =
     \<lparr>px_open = (\<lambda>path c. (3, c)), px_fstat = (\<lambda>fd c. (0, length c)),
      px_pread = (\<lambda>fd len off c. (let bs = take len (drop off c) in (int (length bs), bs))),
      px_pwrite = (\<lambda>fd bs off c. (int (length bs), take off c @ bs @ drop (off + length bs) c)),
      px_fsync = (\<lambda>fd c. (0, c)), px_ftruncate = (\<lambda>fd n c. (0, take n c))\<rparr>"

lemma one_file_ok: "posix_ok one_file (\<lambda>fd c. c) (\<lambda>fd c. c) (\<lambda>path c. c)"
  by (auto simp: posix_ok_def one_file_def Let_def min_def)


text \<open>
  Rewriting a file store is not atomic. \<open>RaftNode::persist\<close> truncates the metadata to zero before it
  writes the new bytes. Once that first call has returned nothing is left on the disk: a machine that fails there
  comes back with an empty store, whatever had been made durable before.
\<close>

theorem rewrite_not_atomic:
  assumes "posix_ok P file disk stored" "mirrored file disk (s, os)" "fs_truncate_to P 0 (s, os) = Ret (s', os')"
    and "stored path os2 = disk (fs_fd s') os'" "fs_open P path os2 = (Inr s2, os3)"
  shows "disk (fs_fd s') os' = [] \<and> fs_read_all s2 = []"
proof -
  have m: "mirrored file disk (s', os')" "fs_abs s' = ds_truncate_to 0 (fs_abs s)"
    using truncate_mirrored [OF assms(1-3)] by simp_all
  then have "fs_buffer s' = []" by (auto simp: fs_abs_def ds_truncate_to_def resize_def)
  then have d: "disk (fs_fd s') os' = []" using m(1) by (simp add: mirrored_def fs_read_durable_def)
  with open_reads [OF assms(1,5)] assms(4) show ?thesis by (simp add: fs_abs_def fs_read_all_def)
qed

theorem rewrite_not_atomic_witness:
  "fs_truncate_to one_file 0 (\<lparr>fs_fd = 3, fs_buffer = [1, 2], fs_flushed_end = 2\<rparr>, [1, 2])
     = Ret (\<lparr>fs_fd = 3, fs_buffer = [], fs_flushed_end = 0\<rparr>, [])
   \<and> fs_read_all \<lparr>fs_fd = 3, fs_buffer = [], fs_flushed_end = 0\<rparr> = []"
proof -
  have m: "mirrored (\<lambda>fd c. c) (\<lambda>fd c. c) (\<lparr>fs_fd = 3, fs_buffer = [1, 2], fs_flushed_end = 2\<rparr>, [1, 2])"
    by (simp add: mirrored_def fs_read_durable_def)
  have t: "fs_truncate_to one_file 0 (\<lparr>fs_fd = 3, fs_buffer = [1, 2], fs_flushed_end = 2\<rparr>, [1, 2])
     = Ret (\<lparr>fs_fd = 3, fs_buffer = [], fs_flushed_end = 0\<rparr>, [])"
    by (simp add: fs_truncate_to_def one_file_def Let_def resize_def)
  have again: "fs_open one_file ''log'' [] = (Inr \<lparr>fs_fd = 3, fs_buffer = [], fs_flushed_end = 0\<rparr>, [])"
    by (simp add: fs_open_def one_file_def Let_def)
  from rewrite_not_atomic [OF one_file_ok m t _ again] t show ?thesis by simp
qed

end
