(* ===== verification/History.thy ===== *)
theory History
  imports Prelude
begin

text \<open>
  The client history of \<open>src/harness/history.hpp\<close> and \<open>src/harness/history.cpp\<close>: an append-only list
  of operations, each recorded when it is invoked and completed at most once, and its JSON rendering.

  \<^item> \<open>record_invoke\<close> appends a pending entry and returns its index; \<open>record_return\<close> writes the entry
    at a handle, which the code indexes without a check, so a handle outside the list is \<open>OutOfRange\<close>.
  \<^item> \<open>json_escape\<close> renders a string and \<open>to_json\<close> the whole history. \<open>std::format\<close> of an unsigned
    number is \<open>show_nat\<close>, \<open>snprintf\<close> with \<open>%04x\<close> is \<open>hex4\<close>.
  \<^item> \<open>json_string\<close> is a reference reader of JSON string literals, against which the escaping is proved.
\<close>

section \<open>Entries\<close>

datatype OpKind = OpPut | OpGet | OpCas

record HistoryEntry =
  he_client_id :: u64
  he_request_id :: u64
  he_kind :: OpKind
  he_key :: string
  he_value :: string
  he_expected :: string
  he_invoke :: SimTime
  he_ret :: SimTime
  he_response :: string
  he_ok :: bool
  he_pending :: bool

type_synonym History = "HistoryEntry list"

definition record_invoke ::
  "u64 \<Rightarrow> u64 \<Rightarrow> OpKind \<Rightarrow> string \<Rightarrow> SimTime \<Rightarrow> string \<Rightarrow> string \<Rightarrow> History \<Rightarrow> nat \<times> History" where
  "record_invoke client_id request_id kind key invoke_time value expected h =
     (length h, h @ [\<lparr>he_client_id = client_id, he_request_id = request_id, he_kind = kind,
        he_key = key, he_value = value, he_expected = expected, he_invoke = invoke_time, he_ret = 0,
        he_response = '''', he_ok = False, he_pending = True\<rparr>])"

definition record_return :: "nat \<Rightarrow> SimTime \<Rightarrow> bool \<Rightarrow> string \<Rightarrow> History \<Rightarrow> exn + History" where
  "record_return handle ret_time ok response h =
     (if handle < length h
      then Inr (h[handle := (h ! handle)\<lparr>he_ret := ret_time, he_ok := ok, he_response := response,
                                          he_pending := False\<rparr>])
      else Inl OutOfRange)"

section \<open>Rendering\<close>

definition digit :: "nat \<Rightarrow> char" where
  "digit d = char_of (48 + d)"

fun show_nat :: "nat \<Rightarrow> string" where
  "show_nat n = (if n < 10 then [digit n] else show_nat (n div 10) @ [digit (n mod 10)])"

declare show_nat.simps [simp del]

definition hex_digit :: "nat \<Rightarrow> char" where
  "hex_digit d = (if d < 10 then char_of (48 + d) else char_of (87 + d))"

definition hex4 :: "nat \<Rightarrow> string" where
  "hex4 n = [hex_digit (n div 4096 mod 16), hex_digit (n div 256 mod 16), hex_digit (n div 16 mod 16), hex_digit (n mod 16)]"

abbreviation dquote :: char where "dquote \<equiv> CHR 0x22"
abbreviation bslash :: char where "bslash \<equiv> CHR 0x5C"
abbreviation newline :: char where "newline \<equiv> CHR 0x0A"

definition escape_char :: "char \<Rightarrow> string" where
  "escape_char c =
     (if c = dquote then [bslash, dquote]
      else if c = bslash then [bslash, bslash]
      else if c = newline then [bslash, CHR ''n'']
      else if c = CHR 0x0D then [bslash, CHR ''r'']
      else if c = CHR 0x09 then [bslash, CHR ''t'']
      else if (of_char c :: nat) < 0x20 then [bslash, CHR ''u''] @ hex4 (of_char c)
      else [c])"

definition json_escape :: "string \<Rightarrow> string" where
  "json_escape s = [dquote] @ concat (map escape_char s) @ [dquote]"

fun kind_str :: "OpKind \<Rightarrow> string" where
  "kind_str OpPut = ''put''"
| "kind_str OpGet = ''get''"
| "kind_str OpCas = ''cas''"

definition json_field :: "string \<Rightarrow> string \<Rightarrow> string" where
  "json_field name v = [dquote] @ name @ [dquote, CHR '':''] @ v"

definition json_row :: "nat \<Rightarrow> HistoryEntry \<Rightarrow> string" where
  "json_row i e = ''  {''
     @ json_field ''id'' (show_nat i) @ '',''
     @ json_field ''client_id'' (show_nat (unat (he_client_id e))) @ '',''
     @ json_field ''request_id'' (show_nat (unat (he_request_id e))) @ '',''
     @ json_field ''op'' (json_escape (kind_str (he_kind e))) @ '',''
     @ json_field ''key'' (json_escape (he_key e)) @ '',''
     @ json_field ''value'' (json_escape (he_value e)) @ '',''
     @ json_field ''expected'' (json_escape (he_expected e)) @ '',''
     @ json_field ''start'' (show_nat (unat (he_invoke e))) @ '',''
     @ json_field ''end'' (show_nat (unat (he_ret e))) @ '',''
     @ json_field ''ok'' (if he_ok e then ''true'' else ''false'') @ '',''
     @ json_field ''response'' (json_escape (he_response e)) @ ''}''"

fun json_rows :: "nat \<Rightarrow> History \<Rightarrow> string" where
  "json_rows i [] = ''''"
| "json_rows i (e # es) =
     (if he_pending e then ''''
      else json_row i e @ (if es \<noteq> [] then '','' else '''') @ [newline]) @ json_rows (i + 1) es"

definition to_json :: "History \<Rightarrow> string" where
  "to_json h = ''['' @ [newline] @ json_rows 0 h @ '']'' @ [newline]"

section \<open>Reading a JSON string\<close>

definition hex_value :: "char \<Rightarrow> nat option" where
  "hex_value c = (let n = of_char c in
     if 48 \<le> n \<and> n < 58 then Some (n - 48) else if 97 \<le> n \<and> n < 103 then Some (n - 87) else None)"

fun hex_number :: "string \<Rightarrow> nat option" where
  "hex_number [] = Some 0"
| "hex_number (c # cs) =
     (case (hex_value c, hex_number cs) of (Some d, Some n) \<Rightarrow> Some (d * 16 ^ length cs + n) | _ \<Rightarrow> None)"

fun simple_escape :: "char \<Rightarrow> char option" where
  "simple_escape c =
     (if c = dquote \<or> c = bslash \<or> c = CHR ''/'' then Some c
      else if c = CHR ''b'' then Some (CHR 0x08)
      else if c = CHR ''f'' then Some (CHR 0x0C)
      else if c = CHR ''n'' then Some newline
      else if c = CHR ''r'' then Some (CHR 0x0D)
      else if c = CHR ''t'' then Some (CHR 0x09)
      else None)"

definition hex_char :: "string \<Rightarrow> char option" where
  "hex_char cs = (case hex_number cs of Some n \<Rightarrow> if n < 256 then Some (char_of n) else None | None \<Rightarrow> None)"

definition push_char :: "char option \<Rightarrow> (string \<times> string) option \<Rightarrow> (string \<times> string) option" where
  "push_char c r = (case (c, r) of (Some x, Some (s, rest)) \<Rightarrow> Some (x # s, rest) | _ \<Rightarrow> None)"

fun json_chars :: "string \<Rightarrow> (string \<times> string) option" where
  "json_chars [] = None"
| "json_chars (c # cs) =
     (if c = dquote then Some ([], cs)
      else if c = bslash then
        (case cs of [] \<Rightarrow> None
         | e # r \<Rightarrow>
             if e = CHR ''u''
             then (if length r < 4 then None else push_char (hex_char (take 4 r)) (json_chars (drop 4 r)))
             else push_char (simple_escape e) (json_chars r))
      else if (of_char c :: nat) < 0x20 then None
      else push_char (Some c) (json_chars cs))"

fun json_string :: "string \<Rightarrow> (string \<times> string) option" where
  "json_string [] = None"
| "json_string (c # cs) = (if c = dquote then json_chars cs else None)"

section \<open>Escaping\<close>

lemma hex_value_digit: "d < 16 \<Longrightarrow> hex_value (hex_digit d) = Some d"
  by (auto simp: hex_value_def hex_digit_def Let_def)

lemma hex_char_hex4:
  assumes "n < 256"
  shows "hex_char (hex4 n) = Some (char_of n)"
proof -
  have "n div 4096 mod 16 = 0" "n div 256 mod 16 = 0" using assms by simp_all
  moreover have "n div 16 mod 16 * 16 + n mod 16 = n" using assms by (simp add: mod_less div_less)
  ultimately show ?thesis using assms by (simp add: hex_char_def hex4_def hex_value_digit)
qed

lemma json_chars_escape:
  "json_chars (escape_char c @ r) = push_char (Some c) (json_chars r)"
proof (cases "(of_char c :: nat) < 0x20")
  case True
  then have "hex_char (hex4 (of_char c)) = Some c" by (simp add: hex_char_hex4)
  moreover have "length (hex4 (of_char c)) = 4" by (simp add: hex4_def)
  moreover have "c \<noteq> dquote" "c \<noteq> bslash" using True by auto
  ultimately show ?thesis using True by (simp add: escape_char_def)
next
  case False
  then show ?thesis by (auto simp: escape_char_def)
qed

lemma json_chars_escaped: "json_chars (concat (map escape_char s) @ dquote # r) = Some (s, r)"
proof (induction s)
  case (Cons c s)
  then show ?case by (simp add: json_chars_escape push_char_def del: json_chars.simps)
qed simp

section \<open>Decimal numbers\<close>

fun read_nat :: "nat \<Rightarrow> string \<Rightarrow> nat" where
  "read_nat acc [] = acc"
| "read_nat acc (c # cs) = read_nat (10 * acc + (of_char c - 48)) cs"

lemma read_nat_append: "read_nat a (xs @ ys) = read_nat (read_nat a xs) ys"
  by (induction xs arbitrary: a) auto

lemma read_show_nat: "read_nat 0 (show_nat n) = n"
proof (induction n rule: show_nat.induct)
  case (1 n)
  then show ?case
    by (cases "n < 10") (simp_all add: show_nat.simps [of n] digit_def read_nat_append)
qed

lemma show_nat_inject: "show_nat m = show_nat n \<longleftrightarrow> m = n"
  using read_show_nat by metis

section \<open>Histories\<close>

text \<open>Joining rows with a separator, as JSON wants it.\<close>

fun join :: "string \<Rightarrow> string list \<Rightarrow> string" where
  "join sep [] = ''''"
| "join sep [s] = s"
| "join sep (s # t # ss) = s @ sep @ join sep (t # ss)"

definition completed_rows :: "nat \<Rightarrow> History \<Rightarrow> string list" where
  "completed_rows i h = map (\<lambda>(j, e). json_row j e) (filter (\<lambda>(j, e). \<not> he_pending e) (enumerate i h))"

lemma completed_rows_simps [simp]:
  "completed_rows i [] = []"
  "completed_rows i (e # es) = (if he_pending e then [] else [json_row i e]) @ completed_rows (i + 1) es"
  by (simp_all add: completed_rows_def)

lemma completed_rows_nonempty: "h \<noteq> [] \<Longrightarrow> \<not> he_pending (last h) \<Longrightarrow> completed_rows i h \<noteq> []"
  by (induction h arbitrary: i) (auto split: if_splits)

lemma json_rows_joined:
  "h \<noteq> [] \<Longrightarrow> \<not> he_pending (last h) \<Longrightarrow>
   json_rows i h = join ('','' @ [newline]) (completed_rows i h) @ [newline]"
proof (induction h arbitrary: i)
  case (Cons e es)
  show ?case
  proof (cases "es = []")
    case False
    then have "json_rows (i + 1) es = join ('','' @ [newline]) (completed_rows (i + 1) es) @ [newline]"
      using Cons by simp
    moreover obtain r rs where "completed_rows (i + 1) es = r # rs"
      using completed_rows_nonempty [of es "i + 1"] False Cons.prems(2) by (cases "completed_rows (i + 1) es") auto
    ultimately show ?thesis using False by simp
  qed (use Cons.prems in simp)
qed simp

lemma json_rows_pending_tail:
  "\<forall>e \<in> set t. he_pending e \<Longrightarrow> json_rows i t = ''''"
  by (induction t arbitrary: i) auto

lemma json_rows_trailing:
  "h \<noteq> [] \<Longrightarrow> \<not> he_pending (last h) \<Longrightarrow> t \<noteq> [] \<Longrightarrow> \<forall>e \<in> set t. he_pending e \<Longrightarrow>
   json_rows i (h @ t) = join ('','' @ [newline]) (completed_rows i h) @ '','' @ [newline]"
proof (induction h arbitrary: i)
  case (Cons e es)
  show ?case
  proof (cases "es = []")
    case False
    then have "json_rows (i + 1) (es @ t) = join ('','' @ [newline]) (completed_rows (i + 1) es) @ '','' @ [newline]"
      using Cons by simp
    moreover obtain r rs where "completed_rows (i + 1) es = r # rs"
      using completed_rows_nonempty [of es "i + 1"] False Cons.prems(2) by (cases "completed_rows (i + 1) es") auto
    ultimately show ?thesis using False by simp
  qed (use Cons.prems json_rows_pending_tail in simp)
qed simp

section \<open>Properties\<close>

text \<open>
  C28. Escaping is faithful: whatever bytes a key, value or response has, a JSON reader of the escaped
  literal gets exactly them back and stops at the closing quote, so no content can break out of its
  literal.
\<close>

theorem json_escape_round_trip: "json_string (json_escape s @ rest) = Some (s, rest)"
  by (simp add: json_escape_def json_chars_escaped)



end
