(* ===== verification/Kv_Store.thy ===== *)
theory Kv_Store
  imports Types
begin

text \<open>
  \<open>src/storage/kv_store.cpp\<close>: the key-value state machine over a \<open>std::map\<close>. The abstract
  specification \<open>kv_spec\<close> is a partial function with one transition per command;
  \<open>kv_apply\<close> refines it, results included.
\<close>

type_synonym KvStore = "(string, string) omap"

definition kv_get :: "string \<Rightarrow> KvStore \<Rightarrow> string option" where
  "kv_get key kv = map_of kv key"

fun kv_apply :: "command \<Rightarrow> KvStore \<Rightarrow> CmdResult \<times> KvStore" where
  "kv_apply (CmdPut k v) kv = (\<lparr>res_ok = True, res_value = '''', res_error = ''''\<rparr>, om_put k v kv)"
| "kv_apply (CmdDelete k) kv = (\<lparr>res_ok = True, res_value = '''', res_error = ''''\<rparr>, om_erase k kv)"
| "kv_apply (CmdCas k e v) kv =
     (let current = (case map_of kv k of Some x \<Rightarrow> x | None \<Rightarrow> '''')
      in if current \<noteq> e
         then (\<lparr>res_ok = False, res_value = current, res_error = ''cas_mismatch''\<rparr>, kv)
         else (\<lparr>res_ok = True, res_value = v, res_error = ''''\<rparr>, om_put k v kv))"
| "kv_apply (CmdGet k) kv =
     (\<lparr>res_ok = True, res_value = (case map_of kv k of Some x \<Rightarrow> x | None \<Rightarrow> ''''), res_error = ''''\<rparr>, kv)"
| "kv_apply (CmdAddServer _) kv = (\<lparr>res_ok = True, res_value = '''', res_error = ''''\<rparr>, kv)"
| "kv_apply (CmdRemoveServer _) kv = (\<lparr>res_ok = True, res_value = '''', res_error = ''''\<rparr>, kv)"

definition kv_apply_all :: "command list \<Rightarrow> KvStore \<Rightarrow> KvStore" where
  "kv_apply_all cs kv = fold (\<lambda>c kv. snd (kv_apply c kv)) cs kv"

section \<open>Abstract specification\<close>

type_synonym kv_abs = "string \<Rightarrow> string option"

definition read_or_empty :: "kv_abs \<Rightarrow> string \<Rightarrow> string" where
  "read_or_empty m k = (case m k of Some x \<Rightarrow> x | None \<Rightarrow> '''')"

fun kv_spec :: "command \<Rightarrow> kv_abs \<Rightarrow> kv_abs" where
  "kv_spec (CmdPut k v) m = m(k \<mapsto> v)"
| "kv_spec (CmdDelete k) m = m(k := None)"
| "kv_spec (CmdCas k e v) m = (if read_or_empty m k = e then m(k \<mapsto> v) else m)"
| "kv_spec (CmdGet k) m = m"
| "kv_spec (CmdAddServer _) m = m"
| "kv_spec (CmdRemoveServer _) m = m"

fun kv_answer :: "command \<Rightarrow> kv_abs \<Rightarrow> bool \<times> string" where
  "kv_answer (CmdCas k e v) m =
     (if read_or_empty m k = e then (True, v) else (False, read_or_empty m k))"
| "kv_answer (CmdGet k) m = (True, read_or_empty m k)"
| "kv_answer _ m = (True, '''')"

lemma kv_apply_sorted: "om_sorted kv \<Longrightarrow> om_sorted (snd (kv_apply c kv))"
  by (cases c) (auto simp: Let_def om_sorted_om_put om_sorted_om_erase)

lemma kv_apply_abs: "om_sorted kv \<Longrightarrow> map_of (snd (kv_apply c kv)) = kv_spec c (map_of kv)"
  by (cases c) (auto simp: Let_def map_of_om_erase read_or_empty_def)

lemma kv_apply_answer:
  "(res_ok (fst (kv_apply c kv)), res_value (fst (kv_apply c kv))) = kv_answer c (map_of kv)"
  by (cases c) (auto simp: Let_def read_or_empty_def)

lemma kv_apply_all_simps [simp]:
  "kv_apply_all [] kv = kv"
  "kv_apply_all (c # cs) kv = kv_apply_all cs (snd (kv_apply c kv))"
  by (simp_all add: kv_apply_all_def)

lemma kv_apply_all_append: "kv_apply_all (cs @ ds) kv = kv_apply_all ds (kv_apply_all cs kv)"
  by (simp add: kv_apply_all_def)

lemma kv_apply_all_refines:
  "om_sorted kv \<Longrightarrow>
   om_sorted (kv_apply_all cs kv) \<and> map_of (kv_apply_all cs kv) = fold kv_spec cs (map_of kv)"
  by (induction cs arbitrary: kv) (simp_all add: kv_apply_sorted kv_apply_abs)

section \<open>Properties\<close>

text \<open>
  C12. Applying a log of commands to the ordered map of \<open>KvStore\<close> refines the abstract store, a partial
  function from keys to values: after any commands the map is sorted and holds exactly what the
  specification says, and the next command's answer is the one of the specification.
\<close>

theorem kv_store_refines:
  assumes "om_sorted kv"
  shows "om_sorted (kv_apply_all cs kv)
    \<and> map_of (kv_apply_all cs kv) = fold kv_spec cs (map_of kv)
    \<and> (res_ok (fst (kv_apply c (kv_apply_all cs kv))), res_value (fst (kv_apply c (kv_apply_all cs kv))))
        = kv_answer c (fold kv_spec cs (map_of kv))"
  using kv_apply_all_refines [OF assms, of cs] kv_apply_answer [of c "kv_apply_all cs kv"] by simp

theorem kv_store_refines_witness:
  "map_of (kv_apply_all [CmdPut ''a'' ''1'', CmdCas ''a'' ''1'' ''2'', CmdDelete ''b''] [])
     = fold kv_spec [CmdPut ''a'' ''1'', CmdCas ''a'' ''1'' ''2'', CmdDelete ''b''] (map_of [])"
proof -
  have "om_sorted ([] :: KvStore)" by simp
  from kv_store_refines [OF this] show ?thesis by blast
qed

end
