(* ===== verification/Checker.thy ===== *)
theory Checker
  imports History Kv_Store "HOL-Library.Multiset"
begin

text \<open>
  The linearizability checker of \<open>src/checker/own_checker.cpp\<close>: the history is split by key, and a
  Wing-Gong backtracking search looks for an order of each key's operations that respects real time
  and explains every response.

  \<^item> \<open>wg_check\<close> and \<open>wg_from\<close> are the recursive search and its loop over candidates. The vector
    \<open>linearized\<close>, which the code updates in place and restores on failure, is passed by value.
  \<^item> \<open>check_key_linearizable\<close> enumerates the subsets of the writes whose outcome a crash has hidden.
  \<^item> The specification is \<open>linearizable\<close> for one key and \<open>explained\<close> for the whole history, the
    latter over the store itself: some order of the operations, run by \<open>kv_apply\<close> from the empty
    store, gives every recorded response.
\<close>

section \<open>The model of one key\<close>

record KeyOp =
  ko_kind :: OpKind
  ko_value :: string
  ko_expected :: string
  ko_invoke :: SimTime
  ko_ret :: SimTime
  ko_response :: string
  ko_ok :: bool
  ko_pending :: bool

record CheckResult =
  ch_ok :: bool
  ch_failing_key :: string
  ch_reason :: string

type_synonym KvState = "string option"

definition value_or :: "string \<Rightarrow> string option \<Rightarrow> string" where
  "value_or d x = (case x of Some v \<Rightarrow> v | None \<Rightarrow> d)"

definition apply_model :: "KvState \<Rightarrow> KeyOp \<Rightarrow> KvState \<times> string" where
  "apply_model state op =
     (case ko_kind op of
        OpPut \<Rightarrow> (Some (ko_value op), ''ok'')
      | OpGet \<Rightarrow> (state, value_or '''' state)
      | OpCas \<Rightarrow> if value_or '''' state = ko_expected op then (Some (ko_value op), ''ok'')
                 else (state, ''cas_mismatch''))"

definition response_matches :: "KeyOp \<Rightarrow> string \<Rightarrow> bool" where
  "response_matches op expected_resp =
     (case ko_kind op of
        OpGet \<Rightarrow> ko_response op = expected_resp
      | OpPut \<Rightarrow> ko_ok op
      | OpCas \<Rightarrow> ko_ok op = (expected_resp = ''ok''))"

section \<open>The search\<close>

definition eligible :: "KeyOp list \<Rightarrow> bool list \<Rightarrow> nat \<Rightarrow> bool" where
  "eligible ops linearized i \<longleftrightarrow>
     list_all (\<lambda>j. j = i \<or> linearized ! j \<or> ko_pending (ops ! j)
                   \<or> \<not> (ko_ret (ops ! j) > 0 \<and> ko_ret (ops ! j) < ko_invoke (ops ! i))) [0..<length ops]"

text \<open>
  The first disjunct of \<open>passed_over\<close> is an access outside \<open>linearized\<close>; the caller passes a vector
  as long as \<open>ops\<close>, so it is never the one that holds.
\<close>

definition passed_over :: "KeyOp list \<Rightarrow> bool list \<Rightarrow> nat \<Rightarrow> bool" where
  "passed_over ops linearized i \<longleftrightarrow>
     i \<ge> length linearized \<or> linearized ! i \<or> ko_pending (ops ! i) \<or> \<not> eligible ops linearized i"

definition open_ops :: "bool list \<Rightarrow> nat" where
  "open_ops linearized = length (filter Not linearized)"

lemma open_ops_mark:
  assumes "i < length l" "\<not> l ! i"
  shows "open_ops (l[i := True]) < open_ops l"
proof -
  have "mset (l[i := True]) = add_mset True (mset l - {#False#})"
    using assms mset_update [of i l True] by simp
  moreover have "False \<in># mset l" using assms nth_mem [of i l] by auto
  ultimately have "size (filter_mset Not (mset (l[i := True]))) < size (filter_mset Not (mset l))"
    by (metis (no_types, lifting) add_mset_remove_trivial_If filter_mset_add_mset lessI size_add_mset
        insert_DiffM)
  then show ?thesis by (simp add: open_ops_def flip: mset_filter)
qed

function wg_check :: "KeyOp list \<Rightarrow> bool list \<Rightarrow> nat \<Rightarrow> KvState \<Rightarrow> bool"
  and wg_from :: "KeyOp list \<Rightarrow> bool list \<Rightarrow> nat \<Rightarrow> KvState \<Rightarrow> nat \<Rightarrow> bool" where
  "wg_check ops linearized n_done state =
     (if n_done = length ops then True else wg_from ops linearized n_done state 0)"
| "wg_from ops linearized n_done state i =
     (if i \<ge> length ops then False
      else if passed_over ops linearized i then wg_from ops linearized n_done state (i + 1)
      else if \<not> response_matches (ops ! i) (snd (apply_model state (ops ! i)))
           then wg_from ops linearized n_done state (i + 1)
      else if wg_check ops (linearized[i := True]) (n_done + 1) (fst (apply_model state (ops ! i))) then True
      else wg_from ops linearized n_done state (i + 1))"
  by pat_completeness auto

termination
  by (relation "measures [case_sum (\<lambda>(ops, l, n, s). open_ops l) (\<lambda>(ops, l, n, s, i). open_ops l),
                          case_sum (\<lambda>(ops, l, n, s). Suc (length ops)) (\<lambda>(ops, l, n, s, i). length ops - i)]")
    (auto simp: passed_over_def open_ops_mark)

declare wg_check.simps [simp del] wg_from.simps [simp del]

section \<open>One key\<close>

definition certain_op :: "KeyOp \<Rightarrow> bool" where
  "certain_op op \<longleftrightarrow> \<not> ko_pending op
     \<and> \<not> (ko_response op = ''timeout'' \<or> ko_response op = ''not_leader'') \<and> ko_response op \<noteq> ''node_crashed''"

definition uncertain_put :: "KeyOp \<Rightarrow> bool" where
  "uncertain_put op \<longleftrightarrow> \<not> ko_pending op
     \<and> \<not> (ko_response op = ''timeout'' \<or> ko_response op = ''not_leader'')
     \<and> ko_response op = ''node_crashed'' \<and> ko_kind op = OpPut"

definition committed :: "KeyOp \<Rightarrow> KeyOp" where
  "committed op = op\<lparr>ko_ok := True\<rparr>"

definition cap :: nat where "cap = 15"

definition try_subset :: "KeyOp list \<Rightarrow> bool" where
  "try_subset combined =
     (if combined = [] then True else wg_check combined (replicate (length combined) False) 0 None)"

text \<open>\<open>mask & (1 << i)\<close> for the writes in order, the lowest bit first.\<close>

fun pick :: "nat \<Rightarrow> KeyOp list \<Rightarrow> KeyOp list" where
  "pick msk [] = []"
| "pick msk (u # us) = (if odd msk then [committed u] else []) @ pick (msk div 2) us"

definition check_key_linearizable :: "KeyOp list \<Rightarrow> bool" where
  "check_key_linearizable ops =
     (let certain = filter certain_op ops; uncertain_puts = filter uncertain_put ops;
          n_unc = length uncertain_puts
      in if certain = [] \<and> uncertain_puts = [] then True
         else if n_unc \<le> cap
         then list_ex (\<lambda>msk. try_subset (certain @ pick msk uncertain_puts)) [0..<2 ^ n_unc]
         else try_subset certain
              \<or> try_subset (certain @ map committed uncertain_puts)
              \<or> list_ex (\<lambda>i. try_subset (certain @ [committed (uncertain_puts ! i)])) [0..<min n_unc cap])"

section \<open>The whole history\<close>

definition key_op :: "HistoryEntry \<Rightarrow> KeyOp" where
  "key_op e = \<lparr>ko_kind = he_kind e, ko_value = he_value e, ko_expected = he_expected e,
     ko_invoke = he_invoke e, ko_ret = he_ret e, ko_response = he_response e, ko_ok = he_ok e,
     ko_pending = he_pending e\<rparr>"

definition add_key_op :: "HistoryEntry \<Rightarrow> (string, KeyOp list) omap \<Rightarrow> (string, KeyOp list) omap" where
  "add_key_op e m =
     (if he_pending e then m
      else om_put (he_key e) ((case map_of m (he_key e) of Some ops \<Rightarrow> ops | None \<Rightarrow> []) @ [key_op e]) m)"

definition check_linearizable :: "History \<Rightarrow> CheckResult" where
  "check_linearizable h =
     (case find (\<lambda>(key, ops). \<not> check_key_linearizable ops) (fold add_key_op h []) of
        Some (key, ops) \<Rightarrow> \<lparr>ch_ok = False, ch_failing_key = key,
                            ch_reason = ''non-linearizable history for key '' @ key\<rparr>
      | None \<Rightarrow> \<lparr>ch_ok = True, ch_failing_key = '''', ch_reason = ''''\<rparr>)"

section \<open>What a linearization is\<close>

text \<open>
  \<open>precedes a b\<close>: \<open>a\<close> returned before \<open>b\<close> was invoked. A linearization is an ordering of the
  operations in which no operation stands before one that precedes it, and in which the model gives
  every operation its recorded response.
\<close>

definition precedes :: "KeyOp \<Rightarrow> KeyOp \<Rightarrow> bool" where
  "precedes a b \<longleftrightarrow> ko_ret a > 0 \<and> ko_ret a < ko_invoke b"

fun legal :: "KvState \<Rightarrow> KeyOp list \<Rightarrow> bool" where
  "legal st [] = True"
| "legal st (a # as) = (response_matches a (snd (apply_model st a)) \<and> legal (fst (apply_model st a)) as)"

definition linearizable :: "KvState \<Rightarrow> KeyOp multiset \<Rightarrow> bool" where
  "linearizable st M \<longleftrightarrow> (\<exists>ord. mset ord = M \<and> sorted_wrt (\<lambda>a b. \<not> precedes b a) ord \<and> legal st ord)"

lemma linearizable_empty [simp]: "linearizable st {#}"
  by (simp add: linearizable_def)

lemma linearizable_step:
  assumes "M \<noteq> {#}"
  shows "linearizable st M \<longleftrightarrow>
    (\<exists>a \<in># M. (\<forall>b \<in># M - {#a#}. \<not> precedes b a) \<and> response_matches a (snd (apply_model st a))
             \<and> linearizable (fst (apply_model st a)) (M - {#a#}))" (is "?l \<longleftrightarrow> ?r")
proof
  assume ?l
  then obtain ord where ord: "mset ord = M" "sorted_wrt (\<lambda>a b. \<not> precedes b a) ord" "legal st ord"
    unfolding linearizable_def by blast
  then obtain a as where as: "ord = a # as" using assms by (cases ord) auto
  then have "M - {#a#} = mset as" "a \<in># M" using ord(1) by auto
  with ord as show ?r unfolding linearizable_def by (intro bexI [of _ a]) auto
next
  assume ?r
  then obtain a as where a: "a \<in># M" "\<forall>b \<in># M - {#a#}. \<not> precedes b a"
    "response_matches a (snd (apply_model st a))" "mset as = M - {#a#}"
    "sorted_wrt (\<lambda>a b. \<not> precedes b a) as" "legal (fst (apply_model st a)) as"
    unfolding linearizable_def by blast
  then have "set as = set_mset (M - {#a#})" by (metis set_mset_mset)
  with a show ?l unfolding linearizable_def by (intro exI [of _ "a # as"]) auto
qed

section \<open>The search is exact\<close>

definition undone :: "bool list \<Rightarrow> nat set" where
  "undone l = {j. j < length l \<and> \<not> l ! j}"

definition remaining :: "KeyOp list \<Rightarrow> bool list \<Rightarrow> KeyOp multiset" where
  "remaining ops l = image_mset ((!) ops) (mset_set (undone l))"

lemma finite_undone [simp]: "finite (undone l)"
  by (simp add: undone_def)

lemma undone_mark: "undone (l[i := True]) = undone l - {i}"
  by (cases "i < length l") (auto simp: undone_def nth_list_update list_update_beyond)

lemma remaining_mark:
  assumes "i \<in> undone l"
  shows "remaining ops (l[i := True]) = remaining ops l - {#ops ! i#}"
    and "ops ! i \<in># remaining ops l"
  using assms by (simp_all add: remaining_def undone_mark mset_set_Diff image_mset_Diff)

lemma passed_over_iff:
  assumes "length l = length ops" "\<forall>op \<in> set ops. \<not> ko_pending op" "i < length ops"
  shows "\<not> passed_over ops l i \<longleftrightarrow>
    i \<in> undone l \<and> (\<forall>b \<in># remaining ops l - {#ops ! i#}. \<not> precedes b (ops ! i))"
proof (cases "i \<in> undone l")
  case True
  have "eligible ops l i \<longleftrightarrow> (\<forall>j \<in> undone l - {i}. \<not> precedes (ops ! j) (ops ! i))"
    using assms by (auto simp: eligible_def list_all_iff undone_def precedes_def)
  moreover have "set_mset (remaining ops l - {#ops ! i#}) = (!) ops ` (undone l - {i})"
    unfolding remaining_mark(1) [OF True, symmetric] by (simp add: remaining_def undone_mark)
  ultimately show ?thesis using True assms by (auto simp: passed_over_def undone_def)
qed (use assms in \<open>auto simp: passed_over_def undone_def\<close>)

lemma ex_from: "(\<exists>k \<ge> i. Q k) \<longleftrightarrow> Q i \<or> (\<exists>k \<ge> i + 1. Q k)" for i :: nat
proof -
  have "i \<le> k \<longleftrightarrow> k = i \<or> i + 1 \<le> k" for k by linarith
  then show ?thesis by auto
qed

lemma wg_from_iff:
  "wg_from ops l n st i \<longleftrightarrow>
     (\<exists>k \<ge> i. k < length ops \<and> \<not> passed_over ops l k
        \<and> response_matches (ops ! k) (snd (apply_model st (ops ! k)))
        \<and> wg_check ops (l[k := True]) (n + 1) (fst (apply_model st (ops ! k))))" (is "_ \<longleftrightarrow> (\<exists>k \<ge> i. ?P k)")
proof (induction "length ops - i" arbitrary: i)
  case 0
  then show ?case by (subst wg_from.simps) auto
next
  case (Suc d)
  note ex_from [of i ?P]
  moreover have "wg_from ops l n st (i + 1) \<longleftrightarrow> (\<exists>k \<ge> i + 1. ?P k)"
    using Suc(1) [of "i + 1"] Suc(2) by simp
  moreover have "wg_from ops l n st i \<longleftrightarrow> ?P i \<or> wg_from ops l n st (i + 1)"
    using Suc(2) by (subst wg_from.simps) auto
  ultimately show ?case by blast
qed

lemma undone_complete: "length l = length ops \<Longrightarrow> (undone l = {}) = (remaining ops l = {#})"
  by (simp add: remaining_def mset_set_empty_iff)

lemma remaining_elem:
  "a \<in># remaining ops l \<Longrightarrow> \<exists>i \<in> undone l. a = ops ! i"
  by (auto simp: remaining_def)

lemma wg_check_exact:
  assumes "length l = length ops" "\<forall>op \<in> set ops. \<not> ko_pending op" "n + card (undone l) = length ops"
  shows "wg_check ops l n st \<longleftrightarrow> linearizable st (remaining ops l)"
  using assms(1,3)
proof (induction "card (undone l)" arbitrary: l n st)
  case 0
  then show ?case by (simp add: wg_check.simps remaining_def)
next
  case (Suc d)
  have ne: "remaining ops l \<noteq> {#}" using Suc(2) by (auto simp: remaining_def mset_set_empty_iff)
  have IH: "wg_check ops (l[k := True]) (n + 1) st' \<longleftrightarrow> linearizable st' (remaining ops l - {#ops ! k#})"
    if "k \<in> undone l" for k st'
  proof -
    have c: "card (undone l) = Suc d" using Suc(2) by simp
    have "card (undone (l[k := True])) = d" using that c by (simp add: undone_mark)
    then show ?thesis
      using Suc(1) [of "l[k := True]" "n + 1" st'] Suc(3,4) c remaining_mark(1) [OF that] by simp
  qed
  have k: "k < length ops" if "k \<in> undone l" for k using that Suc(3) by (simp add: undone_def)
  have "n \<noteq> length ops" using Suc(2,4) by simp
  then have "wg_check ops l n st \<longleftrightarrow> (\<exists>k \<in> undone l.
      (\<forall>b \<in># remaining ops l - {#ops ! k#}. \<not> precedes b (ops ! k))
      \<and> response_matches (ops ! k) (snd (apply_model st (ops ! k)))
      \<and> linearizable (fst (apply_model st (ops ! k))) (remaining ops l - {#ops ! k#}))"
    using passed_over_iff [OF Suc(3) assms(2)] IH k
    by (subst wg_check.simps) (simp add: wg_from_iff, blast)
  also have "\<dots> \<longleftrightarrow> linearizable st (remaining ops l)"
    unfolding linearizable_step [OF ne] using remaining_elem [of _ ops l] remaining_mark(2) [of _ l ops] by blast
  finally show ?case .
qed

lemma remaining_initial: "remaining ops (replicate (length ops) False) = mset ops"
proof -
  have "undone (replicate (length ops) False) = {0..<length ops}" by (auto simp: undone_def)
  then have "remaining ops (replicate (length ops) False) = mset (map ((!) ops) [0..<length ops])"
    by (simp add: remaining_def flip: mset_upt)
  then show ?thesis by (simp only: map_nth)
qed

lemma try_subset_exact:
  assumes "\<forall>op \<in> set ops. \<not> ko_pending op"
  shows "try_subset ops \<longleftrightarrow> linearizable None (mset ops)"
proof -
  have "undone (replicate (length ops) False) = {0..<length ops}" by (auto simp: undone_def)
  then show ?thesis
    using wg_check_exact [of "replicate (length ops) False" ops 0 None] assms
    by (simp add: try_subset_def remaining_initial)
qed

section \<open>Writes with a hidden outcome\<close>

text \<open>
  The resolutions of a key's operations: the certain ones, with any of the writes that a crash has
  interrupted taken as committed.
\<close>

definition resolutions :: "KeyOp multiset \<Rightarrow> KeyOp multiset set" where
  "resolutions M = {filter_mset certain_op M + image_mset committed U | U. U \<subseteq># filter_mset uncertain_put M}"

lemma subset_add_mset_cases:
  "U \<subseteq># add_mset u A \<longleftrightarrow> U \<subseteq># A \<or> (\<exists>V. V \<subseteq># A \<and> U = add_mset u V)"
proof
  assume U: "U \<subseteq># add_mset u A"
  show "U \<subseteq># A \<or> (\<exists>V. V \<subseteq># A \<and> U = add_mset u V)"
  proof (cases "u \<in># U")
    case True
    then obtain V where "U = add_mset u V" by (metis insert_DiffM)
    then show ?thesis using U by auto
  next
    case False
    then show ?thesis using U by (metis add_mset_remove_trivial diff_single_trivial subset_eq_diff_conv
        add_mset_add_single)
  qed
qed (auto intro: subset_mset.order_trans)

lemma pick_image: "(\<lambda>m. mset (pick m us)) ` {..<2 ^ length us} = image_mset committed ` {U. U \<subseteq># mset us}"
proof (induction us)
  case (Cons u us)
  let ?A = "(\<lambda>m. mset (pick m us)) ` {..<2 ^ length us}"
  have split: "{..<2 ^ length (u # us) :: nat} = (\<lambda>m. 2 * m) ` {..<2 ^ length us} \<union> (\<lambda>m. 2 * m + 1) ` {..<2 ^ length us}"
  proof (intro set_eqI iffI)
    fix m :: nat assume "m \<in> {..<2 ^ length (u # us)}"
    then have "m div 2 \<in> {..<2 ^ length us}" by auto
    moreover have "m = 2 * (m div 2) \<or> m = 2 * (m div 2) + 1" by presburger
    ultimately show "m \<in> (\<lambda>m. 2 * m) ` {..<2 ^ length us} \<union> (\<lambda>m. 2 * m + 1) ` {..<2 ^ length us}" by blast
  qed auto
  have "(\<lambda>m. mset (pick m (u # us))) ` {..<2 ^ length (u # us)} = ?A \<union> add_mset (committed u) ` ?A"
    unfolding split by (simp add: image_Un image_image)
  also have "\<dots> = image_mset committed ` {U. U \<subseteq># mset (u # us)}"
  proof -
    have "{U. U \<subseteq># mset (u # us)} = {U. U \<subseteq># mset us} \<union> add_mset u ` {U. U \<subseteq># mset us}"
      by (auto simp: subset_add_mset_cases)
    then show ?thesis unfolding Cons.IH by (simp add: image_Un image_image)
  qed
  finally show ?case .
qed auto

lemma not_pending_certain: "\<forall>op \<in> set (filter certain_op ops @ map committed us). \<not> ko_pending op"
  if "set us \<subseteq> set (filter uncertain_put ops)"
  using that by (auto simp: certain_op_def uncertain_put_def committed_def)

lemma pick_map: "\<exists>us'. pick m us = map committed us' \<and> set us' \<subseteq> set us"
proof (induction us arbitrary: m)
  case (Cons u us)
  from Cons [of "m div 2"] obtain us' where "pick (m div 2) us = map committed us'" "set us' \<subseteq> set us" by blast
  then show ?case
    by (intro exI [of _ "(if odd m then [u] else []) @ us'"]) auto
qed simp

lemma try_resolution:
  assumes "set us \<subseteq> set (filter uncertain_put ops)"
  shows "try_subset (filter certain_op ops @ map committed us) \<longleftrightarrow>
    linearizable None (filter_mset certain_op (mset ops) + image_mset committed (mset us))"
  using try_subset_exact [OF not_pending_certain [OF assms]] by simp

lemma try_pick:
  "try_subset (filter certain_op ops @ pick m (filter uncertain_put ops)) \<longleftrightarrow>
    linearizable None (filter_mset certain_op (mset ops) + mset (pick m (filter uncertain_put ops)))"
proof -
  obtain us where "pick m (filter uncertain_put ops) = map committed us" "set us \<subseteq> set (filter uncertain_put ops)"
    using pick_map by blast
  then show ?thesis using try_resolution [of us ops] by simp
qed

lemma check_key_exact:
  assumes "length (filter uncertain_put ops) \<le> cap"
  shows "check_key_linearizable ops \<longleftrightarrow> (\<exists>R \<in> resolutions (mset ops). linearizable None R)"
proof -
  let ?us = "filter uncertain_put ops" and ?C = "filter_mset certain_op (mset ops)"
  have "(\<exists>R \<in> resolutions (mset ops). linearizable None R) \<longleftrightarrow>
      (\<exists>V \<in> image_mset committed ` {U. U \<subseteq># mset ?us}. linearizable None (?C + V))"
    by (auto simp: resolutions_def)
  also have "\<dots> \<longleftrightarrow> (\<exists>m \<in> {..<2 ^ length ?us}. linearizable None (?C + mset (pick m ?us)))"
    unfolding pick_image [symmetric] by simp
  also have "\<dots> \<longleftrightarrow> check_key_linearizable ops"
  proof (cases "filter certain_op ops = [] \<and> ?us = []")
    case True
    then have C: "?C = {#}" by (metis mset_filter mset.simps(1))
    show ?thesis unfolding C check_key_linearizable_def using True by simp
  next
    case False
    then show ?thesis using assms
      by (auto simp: check_key_linearizable_def Let_def list_ex_iff try_pick simp flip: mset_filter)
  qed
  finally show ?thesis by simp
qed


lemma check_key_sound:
  assumes "check_key_linearizable ops"
  shows "\<exists>R \<in> resolutions (mset ops). linearizable None R"
proof (cases "length (filter uncertain_put ops) \<le> cap")
  case False
  let ?us = "filter uncertain_put ops"
  have "\<exists>us. try_subset (filter certain_op ops @ map committed us) \<and> set us \<subseteq> set ?us \<and> mset us \<subseteq># mset ?us"
    using assms False
  proof -
    consider "try_subset (filter certain_op ops)" | "try_subset (filter certain_op ops @ map committed ?us)"
      | i where "i < length ?us" "try_subset (filter certain_op ops @ [committed (?us ! i)])"
    proof -
      have "filter uncertain_put ops \<noteq> []" using False by auto
      then have "try_subset (filter certain_op ops) \<or> try_subset (filter certain_op ops @ map committed ?us)
          \<or> (\<exists>i < min (length ?us) cap. try_subset (filter certain_op ops @ [committed (?us ! i)]))"
        using assms False unfolding check_key_linearizable_def Let_def list_ex_iff by (auto split: if_splits)
      then show ?thesis using that by auto
    qed
    then show ?thesis
    proof cases
      case 1 then show ?thesis by (intro exI [of _ "[]"]) simp
    next
      case 2 then show ?thesis by (intro exI [of _ ?us]) simp
    next
      case 3
      then have "?us ! i \<in># mset ?us" by (metis nth_mem set_mset_mset)
      then show ?thesis using 3 nth_mem [OF 3(1)] by (intro exI [of _ "[?us ! i]"]) simp
    qed
  qed
  then obtain us where us: "try_subset (filter certain_op ops @ map committed us)" "set us \<subseteq> set ?us" "mset us \<subseteq># mset ?us"
    by blast
  then show ?thesis using try_resolution [OF us(2)] unfolding resolutions_def by auto
qed (use assms check_key_exact in blast)

section \<open>Explaining a whole history by the store\<close>

text \<open>
  A history of operations on many keys is explained when some order of them, respecting real time
  across all keys, gives every recorded response when run on the key-value store from empty.
\<close>

type_synonym keyed_op = "string \<times> KeyOp"

definition cmd_of :: "string \<Rightarrow> KeyOp \<Rightarrow> command" where
  "cmd_of k a = (case ko_kind a of OpPut \<Rightarrow> CmdPut k (ko_value a) | OpGet \<Rightarrow> CmdGet k
                 | OpCas \<Rightarrow> CmdCas k (ko_expected a) (ko_value a))"

definition answered :: "KeyOp \<Rightarrow> CmdResult \<Rightarrow> bool" where
  "answered a r = (case ko_kind a of OpGet \<Rightarrow> ko_response a = res_value r | _ \<Rightarrow> ko_ok a = res_ok r)"

fun explains :: "KvStore \<Rightarrow> keyed_op list \<Rightarrow> bool" where
  "explains kv [] = True"
| "explains kv ((k, a) # as) =
     (answered a (fst (kv_apply (cmd_of k a) kv)) \<and> explains (snd (kv_apply (cmd_of k a) kv)) as)"

definition real_time :: "keyed_op list \<Rightarrow> bool" where
  "real_time ord = sorted_wrt (\<lambda>a b. \<not> precedes (snd b) (snd a)) ord"

definition explained_from :: "KvStore \<Rightarrow> keyed_op multiset \<Rightarrow> bool" where
  "explained_from kv G \<longleftrightarrow> (\<exists>ord. mset ord = G \<and> real_time ord \<and> explains kv ord)"

definition at_key :: "string \<Rightarrow> keyed_op multiset \<Rightarrow> KeyOp multiset" where
  "at_key k G = image_mset snd (filter_mset (\<lambda>x. fst x = k) G)"

definition timed :: "KeyOp \<Rightarrow> bool" where
  "timed a \<longleftrightarrow> ko_ret a = 0 \<or> ko_invoke a \<le> ko_ret a"

lemma at_key_simps [simp]:
  "at_key k {#} = {#}"
  "at_key k (add_mset (k', a) G) = (if k' = k then add_mset a (at_key k G) else at_key k G)"
  "at_key k (G + H) = at_key k G + at_key k H"
  by (simp_all add: at_key_def)

lemma in_at_key: "a \<in># at_key k G \<longleftrightarrow> (k, a) \<in># G"
  by (force simp: at_key_def)

lemma at_key_mono: "G \<subseteq># H \<Longrightarrow> at_key k G \<subseteq># at_key k H"
  by (simp add: at_key_def image_mset_subseteq_mono multiset_filter_mono)

lemma store_step:
  "answered a (fst (kv_apply (cmd_of k a) kv)) \<longleftrightarrow> response_matches a (snd (apply_model (map_of kv k) a))"
  "map_of (snd (kv_apply (cmd_of k a) kv)) = (map_of kv)(k := fst (apply_model (map_of kv k) a))"
  by (auto simp: answered_def cmd_of_def apply_model_def response_matches_def value_or_def Let_def
      split: OpKind.splits option.splits)

lemma explains_key:
  "explains kv ord \<longleftrightarrow> (\<forall>k. legal (map_of kv k) (map snd (filter (\<lambda>x. fst x = k) ord)))"
proof (induction ord arbitrary: kv)
  case (Cons x ord)
  obtain k a where x: "x = (k, a)" by (cases x)
  show ?case unfolding x explains.simps Cons.IH store_step
    by (auto split: if_splits)
qed simp

text \<open>
  The operation that returns first bounds the invocation of the head of its key's order, so that head
  can go first in the order of the whole history.
\<close>

lemma first_return:
  assumes "(G :: keyed_op multiset) \<noteq> {#}"
  shows "\<exists>x \<in># G. ko_ret (snd x) = 0 \<and> (\<forall>y \<in># G. ko_ret (snd y) = 0)
    \<or> ko_ret (snd x) > 0 \<and> (\<forall>y \<in># G. ko_ret (snd y) = 0 \<or> ko_ret (snd x) \<le> ko_ret (snd y))"
proof (cases "\<exists>y \<in># G. ko_ret (snd y) \<noteq> 0")
  case True
  let ?S = "{x. x \<in># G \<and> ko_ret (snd x) \<noteq> 0}"
  have fin: "finite ?S" by simp
  have ne: "?S \<noteq> {}" using True by blast
  define x where "x = arg_min_on (\<lambda>x. ko_ret (snd x)) ?S"
  have "x \<in> ?S" unfolding x_def by (rule arg_min_if_finite(1) [OF fin ne])
  moreover have "ko_ret (snd x) \<le> ko_ret (snd y)" if "y \<in> ?S" for y
    unfolding x_def by (rule arg_min_least [OF fin ne that])
  ultimately show ?thesis by (intro bexI [of _ x]) (auto simp: word_gt_0)
next
  case False
  with assms show ?thesis by (metis multiset_nonemptyE)
qed

lemma head_goes_first:
  assumes "\<forall>y \<in># G. timed (snd y)" "(k, j) \<in># G"
    and "ko_ret j = 0 \<and> (\<forall>y \<in># G. ko_ret (snd y) = 0)
      \<or> ko_ret j > 0 \<and> (\<forall>y \<in># G. ko_ret (snd y) = 0 \<or> ko_ret j \<le> ko_ret (snd y))"
    and "h = j \<or> \<not> precedes j h" "y \<in># G"
  shows "\<not> precedes (snd y) h"
proof
  assume y: "precedes (snd y) h"
  then have r: "ko_ret (snd y) > 0" "ko_ret (snd y) < ko_invoke h" by (auto simp: precedes_def)
  then have j: "ko_ret j > 0" "ko_ret j \<le> ko_ret (snd y)" using assms(3,5) by auto
  have "ko_invoke h \<le> ko_ret j"
  proof (cases "h = j")
    case True
    then show ?thesis using assms(1,2) j(1) by (auto simp: timed_def)
  next
    case False
    then show ?thesis using assms(4) j(1) by (auto simp: precedes_def)
  qed
  with r(2) j(2) show False by (meson leD order_trans)
qed

lemma locality_step:
  assumes "\<forall>y \<in># G. timed (snd y)" "G \<noteq> {#}" "\<forall>k. linearizable (map_of kv k) (at_key k G)"
  shows "\<exists>k h. (k, h) \<in># G \<and> (\<forall>y \<in># G. \<not> precedes (snd y) h) \<and> answered h (fst (kv_apply (cmd_of k h) kv))
    \<and> (\<forall>k'. linearizable (map_of (snd (kv_apply (cmd_of k h) kv)) k') (at_key k' (G - {#(k, h)#})))"
proof -
  obtain k j where kj: "(k, j) \<in># G" and m: "ko_ret j = 0 \<and> (\<forall>y \<in># G. ko_ret (snd y) = 0)
      \<or> ko_ret j > 0 \<and> (\<forall>y \<in># G. ko_ret (snd y) = 0 \<or> ko_ret j \<le> ko_ret (snd y))"
    using first_return [OF assms(2)] by (elim bexE) (metis surj_pair snd_conv)
  have j: "j \<in># at_key k G" using kj by (simp add: in_at_key)
  then have "at_key k G \<noteq> {#}" by auto
  from linearizable_step [OF this] assms(3) obtain h where h: "h \<in># at_key k G"
    "\<forall>b \<in># at_key k G - {#h#}. \<not> precedes b h" "response_matches h (snd (apply_model (map_of kv k) h))"
    "linearizable (fst (apply_model (map_of kv k) h)) (at_key k G - {#h#})" by blast
  have kh: "(k, h) \<in># G" using h(1) by (simp add: in_at_key)
  have "h = j \<or> \<not> precedes j h" using h(2) j by (cases "h = j") (auto simp: in_diff_count)
  then have first: "\<forall>y \<in># G. \<not> precedes (snd y) h" using head_goes_first [OF assms(1) kj m] by blast
  obtain H where G: "G = add_mset (k, h) H" using kh by (metis insert_DiffM)
  have "linearizable (map_of (snd (kv_apply (cmd_of k h) kv)) k') (at_key k' H)" for k'
  proof (cases "k' = k")
    case True
    then show ?thesis using h(4) unfolding store_step by (simp add: G)
  next
    case False
    then show ?thesis using assms(3) [rule_format, of k'] unfolding store_step by (simp add: G)
  qed
  then have "\<forall>k'. linearizable (map_of (snd (kv_apply (cmd_of k h) kv)) k') (at_key k' (G - {#(k, h)#}))"
    by (simp add: G)
  moreover have "answered h (fst (kv_apply (cmd_of k h) kv))" using h(3) by (simp only: store_step)
  ultimately show ?thesis using kh first by (intro exI [of _ k] exI [of _ h] conjI)
qed

lemma explained_add:
  assumes "explained_from (snd (kv_apply (cmd_of k h) kv)) G" "answered h (fst (kv_apply (cmd_of k h) kv))"
    and "\<forall>y \<in># G. \<not> precedes (snd y) h"
  shows "explained_from kv (add_mset (k, h) G)"
proof -
  obtain ord where "mset ord = G" "real_time ord" "explains (snd (kv_apply (cmd_of k h) kv)) ord"
    using assms(1) unfolding explained_from_def by blast
  then show ?thesis using assms(2,3) unfolding explained_from_def real_time_def
    by (intro exI [of _ "(k, h) # ord"]) auto
qed

lemma locality_merge:
  assumes "\<forall>y \<in># G. timed (snd y)" "\<forall>k. linearizable (map_of kv k) (at_key k G)"
  shows "explained_from kv G"
  using assms
proof (induction "size G" arbitrary: G kv)
  case 0
  then show ?case by (auto simp: explained_from_def real_time_def intro: exI [of _ "[]"])
next
  case (Suc n)
  then have "G \<noteq> {#}" by auto
  from locality_step [OF Suc(3) this Suc(4)] obtain k h where kh: "(k, h) \<in># G" "\<forall>y \<in># G. \<not> precedes (snd y) h"
    "answered h (fst (kv_apply (cmd_of k h) kv))"
    "\<forall>k'. linearizable (map_of (snd (kv_apply (cmd_of k h) kv)) k') (at_key k' (G - {#(k, h)#}))" by blast
  obtain H where G: "G = add_mset (k, h) H" using kh(1) by (metis insert_DiffM)
  have "explained_from (snd (kv_apply (cmd_of k h) kv)) H" using Suc(1) [of H] Suc(2,3) kh(4) unfolding G by simp
  then show ?case unfolding G using kh(2,3) by (intro explained_add) (auto simp: G)
qed

lemma locality_split:
  assumes "explained_from kv G"
  shows "linearizable (map_of kv k) (at_key k G)"
proof -
  obtain ord where ord: "mset ord = G" "real_time ord" "explains kv ord"
    using assms unfolding explained_from_def by blast
  have "sorted_wrt (\<lambda>a b. \<not> precedes b a) (map snd (filter (\<lambda>x. fst x = k) ord))"
    using ord(2) unfolding real_time_def by (simp add: sorted_wrt_map sorted_wrt_filter)
  moreover have "mset (map snd (filter (\<lambda>x. fst x = k) ord)) = at_key k G"
    using ord(1) by (auto simp: at_key_def)
  ultimately show ?thesis using ord(3) unfolding linearizable_def explains_key by blast
qed

section \<open>Histories\<close>

definition key_ops :: "string \<Rightarrow> History \<Rightarrow> KeyOp list" where
  "key_ops k h = map key_op (filter (\<lambda>e. \<not> he_pending e \<and> he_key e = k) h)"

definition keyed :: "History \<Rightarrow> keyed_op multiset" where
  "keyed h = mset (map (\<lambda>e. (he_key e, key_op e)) (filter (\<lambda>e. \<not> he_pending e) h))"

text \<open>
  The outcomes a history may have had: its certain operations, with any of the interrupted writes
  taken as committed.
\<close>

definition outcomes :: "keyed_op multiset \<Rightarrow> keyed_op multiset set" where
  "outcomes G = {filter_mset (\<lambda>x. certain_op (snd x)) G + image_mset (\<lambda>x. (fst x, committed (snd x))) U | U.
                 U \<subseteq># filter_mset (\<lambda>x. uncertain_put (snd x)) G}"

lemma at_key_keyed: "at_key k (keyed h) = mset (key_ops k h)"
  by (induction h) (auto simp: keyed_def key_ops_def)

lemma at_key_filter: "at_key k (filter_mset (\<lambda>x. P (snd x)) G) = filter_mset P (at_key k G)"
  by (induction G) auto

lemma at_key_image: "at_key k (image_mset (\<lambda>x. (fst x, f (snd x))) G) = image_mset f (at_key k G)"
  by (induction G) auto

text \<open>A choice of some of the operations of every key is a choice of operations.\<close>

lemma at_key_gather:
  "\<forall>k. W k \<subseteq># at_key k A \<Longrightarrow> \<exists>U. U \<subseteq># A \<and> (\<forall>k. at_key k U = W k)"
proof (induction A arbitrary: W)
  case empty
  then show ?case by (intro exI [of _ "{#}"]) auto
next
  case (add x A)
  obtain k0 a where x: "x = (k0, a)" by (cases x)
  have W: "W k \<subseteq># at_key k A" if "k \<noteq> k0" for k using add.prems [rule_format, of k] that by (simp add: x)
  have "W k0 \<subseteq># add_mset a (at_key k0 A)" using add.prems [rule_format, of k0] by (simp add: x)
  then consider "W k0 \<subseteq># at_key k0 A" | V where "V \<subseteq># at_key k0 A" "W k0 = add_mset a V"
    unfolding subset_add_mset_cases by blast
  then show ?case
  proof cases
    case 1
    then have "\<forall>k. W k \<subseteq># at_key k A" using W by metis
    from add.IH [OF this] show ?thesis unfolding subset_add_mset_cases by blast
  next
    case 2
    then have "\<forall>k. (W(k0 := V)) k \<subseteq># at_key k A" using W by simp
    from add.IH [OF this] obtain U where U: "U \<subseteq># A" "\<forall>k. at_key k U = (W(k0 := V)) k" by blast
    then have "\<forall>k. at_key k (add_mset x U) = W k" using 2(2) by (simp add: x)
    moreover have "add_mset x U \<subseteq># add_mset x A" using U(1) by simp
    ultimately show ?thesis by blast
  qed
qed

lemma outcomes_by_key:
  "(\<exists>R \<in> outcomes G. \<forall>k. P (at_key k R)) \<longleftrightarrow> (\<forall>k. \<exists>R \<in> resolutions (at_key k G). P R)"
proof
  assume "\<exists>R \<in> outcomes G. \<forall>k. P (at_key k R)"
  then obtain U where U: "U \<subseteq># filter_mset (\<lambda>x. uncertain_put (snd x)) G"
    "\<forall>k. P (filter_mset certain_op (at_key k G) + image_mset committed (at_key k U))"
    by (auto simp: outcomes_def at_key_filter at_key_image)
  then show "\<forall>k. \<exists>R \<in> resolutions (at_key k G). P R"
    using at_key_mono [OF U(1)] by (auto simp: resolutions_def at_key_filter)
next
  assume "\<forall>k. \<exists>R \<in> resolutions (at_key k G). P R"
  then have "\<forall>k. \<exists>W. W \<subseteq># filter_mset uncertain_put (at_key k G)
      \<and> P (filter_mset certain_op (at_key k G) + image_mset committed W)"
    unfolding resolutions_def by blast
  then obtain W where W: "\<forall>k. W k \<subseteq># filter_mset uncertain_put (at_key k G)"
    "\<forall>k. P (filter_mset certain_op (at_key k G) + image_mset committed (W k))" by metis
  then obtain U where "U \<subseteq># filter_mset (\<lambda>x. uncertain_put (snd x)) G" "\<forall>k. at_key k U = W k"
    using at_key_gather [of W "filter_mset (\<lambda>x. uncertain_put (snd x)) G"] by (auto simp: at_key_filter)
  with W(2) show "\<exists>R \<in> outcomes G. \<forall>k. P (at_key k R)"
    unfolding outcomes_def
    by (intro bexI [of _ "filter_mset (\<lambda>x. certain_op (snd x)) G + image_mset (\<lambda>x. (fst x, committed (snd x))) U"])
      (auto simp: at_key_filter at_key_image)
qed

lemma timed_outcome:
  assumes "\<forall>x \<in># G. timed (snd x)" "R \<in> outcomes G" "x \<in># R"
  shows "timed (snd x)"
proof -
  obtain U where U: "U \<subseteq># filter_mset (\<lambda>x. uncertain_put (snd x)) G"
    "R = filter_mset (\<lambda>x. certain_op (snd x)) G + image_mset (\<lambda>x. (fst x, committed (snd x))) U"
    using assms(2) by (auto simp: outcomes_def)
  have "set_mset U \<subseteq> set_mset G" using U(1) by (auto dest: mset_subset_eqD)
  then show ?thesis using assms(1,3) unfolding U(2) by (fastforce simp: timed_def committed_def)
qed

lemma explained_by_key:
  assumes "\<forall>x \<in># G. timed (snd x)"
  shows "(\<exists>R \<in> outcomes G. explained_from [] R) \<longleftrightarrow>
    (\<forall>k. \<exists>R \<in> resolutions (at_key k G). linearizable None R)"
proof -
  have "explained_from [] R \<longleftrightarrow> (\<forall>k. linearizable None (at_key k R))" if "R \<in> outcomes G" for R
    using locality_merge [of R "[]"] locality_split [of "[]" R] timed_outcome [OF assms that] by auto
  then have "(\<exists>R \<in> outcomes G. explained_from [] R) \<longleftrightarrow> (\<exists>R \<in> outcomes G. \<forall>k. linearizable None (at_key k R))"
    by blast
  then show ?thesis unfolding outcomes_by_key .
qed

lemma per_key_lookup:
  "(case map_of (fold add_key_op h m) k of Some ops \<Rightarrow> ops | None \<Rightarrow> []) =
   (case map_of m k of Some ops \<Rightarrow> ops | None \<Rightarrow> []) @ key_ops k h"
  by (induction h arbitrary: m) (auto simp: key_ops_def add_key_op_def)

lemma per_key_sorted: "om_sorted m \<Longrightarrow> om_sorted (fold add_key_op h m)"
  by (induction h arbitrary: m) (auto simp: add_key_op_def om_sorted_om_put)

lemma check_key_nil [simp]: "check_key_linearizable []"
  by (simp add: check_key_linearizable_def)

lemma per_key_entry:
  "(k, ops) \<in> set (fold add_key_op h []) \<Longrightarrow> ops = key_ops k h"
  using per_key_lookup [of h "[]" k] om.distinct_keys [of "fold add_key_op h []"] per_key_sorted [of "[]" h]
  by (simp add: map_of_is_SomeI)

lemma check_all_keys:
  "list_all (\<lambda>(k, ops). check_key_linearizable ops) (fold add_key_op h []) \<longleftrightarrow>
   (\<forall>k. check_key_linearizable (key_ops k h))"
proof
  assume all: "list_all (\<lambda>(k, ops). check_key_linearizable ops) (fold add_key_op h [])"
  show "\<forall>k. check_key_linearizable (key_ops k h)"
  proof
    fix k
    show "check_key_linearizable (key_ops k h)"
      using all per_key_lookup [of h "[]" k]
      by (cases "map_of (fold add_key_op h []) k") (auto simp: list_all_iff dest: map_of_SomeD)
  qed
qed (auto simp: list_all_iff dest: per_key_entry)

lemma check_linearizable_ok: "ch_ok (check_linearizable h) \<longleftrightarrow> (\<forall>k. check_key_linearizable (key_ops k h))"
proof (cases "find (\<lambda>(key, ops). \<not> check_key_linearizable ops) (fold add_key_op h [])")
  case None
  then have "list_all (\<lambda>(k, ops). check_key_linearizable ops) (fold add_key_op h [])"
    by (auto simp: find_None_iff list_all_iff)
  then show ?thesis unfolding check_all_keys using None by (simp add: check_linearizable_def)
next
  case (Some r)
  then obtain k ops where "r = (k, ops)" "(k, ops) \<in> set (fold add_key_op h [])" "\<not> check_key_linearizable ops"
    by (auto simp: find_Some_iff) (metis nth_mem)
  then show ?thesis using Some per_key_entry [of k ops h] by (auto simp: check_linearizable_def)
qed

lemma timed_keyed:
  "\<forall>e \<in> set h. \<not> he_pending e \<longrightarrow> he_invoke e \<le> he_ret e \<Longrightarrow> \<forall>x \<in># keyed h. timed (snd x)"
  by (auto simp: keyed_def timed_def key_op_def)

lemma accepted_explained:
  assumes "\<forall>e \<in> set h. \<not> he_pending e \<longrightarrow> he_invoke e \<le> he_ret e" "ch_ok (check_linearizable h)"
  shows "\<exists>R \<in> outcomes (keyed h). explained_from [] R"
  unfolding explained_by_key [OF timed_keyed [OF assms(1)]] at_key_keyed
  using check_key_sound assms(2) unfolding check_linearizable_ok by blast

lemma checked_exactly:
  assumes "\<forall>e \<in> set h. \<not> he_pending e \<longrightarrow> he_invoke e \<le> he_ret e"
    and "\<forall>k. length (filter uncertain_put (key_ops k h)) \<le> cap"
  shows "ch_ok (check_linearizable h) \<longleftrightarrow> (\<exists>R \<in> outcomes (keyed h). explained_from [] R)"
  unfolding explained_by_key [OF timed_keyed [OF assms(1)]] check_linearizable_ok at_key_keyed
  using check_key_exact assms(2) by simp

lemma outcomes_more: "\<forall>x \<in># X. \<not> certain_op (snd x) \<Longrightarrow> outcomes G \<subseteq> outcomes (G + X)"
proof
  fix R assume X: "\<forall>x \<in># X. \<not> certain_op (snd x)" and "R \<in> outcomes G"
  then obtain U where U: "U \<subseteq># filter_mset (\<lambda>x. uncertain_put (snd x)) G"
    "R = filter_mset (\<lambda>x. certain_op (snd x)) G + image_mset (\<lambda>x. (fst x, committed (snd x))) U"
    by (auto simp: outcomes_def)
  have "U \<subseteq># filter_mset (\<lambda>x. uncertain_put (snd x)) (G + X)"
    using U(1) by (simp add: subset_mset.add_increasing2)
  moreover have "filter_mset (\<lambda>x. certain_op (snd x)) (G + X) = filter_mset (\<lambda>x. certain_op (snd x)) G" using X by simp
  ultimately show "R \<in> outcomes (G + X)" unfolding outcomes_def U(2) mem_Collect_eq by metis
qed

section \<open>Properties\<close>

text \<open>Sample entries: a write and a read of one key, and an operation with a given fate.\<close>

definition put_entry :: "string \<Rightarrow> SimTime \<Rightarrow> SimTime \<Rightarrow> string \<Rightarrow> bool \<Rightarrow> HistoryEntry" where
  "put_entry v t0 t1 resp ok = \<lparr>he_client_id = 100, he_request_id = 0, he_kind = OpPut, he_key = ''k'', he_value = v,
     he_expected = '''', he_invoke = t0, he_ret = t1, he_response = resp, he_ok = ok, he_pending = False\<rparr>"

definition get_entry :: "string \<Rightarrow> SimTime \<Rightarrow> SimTime \<Rightarrow> HistoryEntry" where
  "get_entry v t0 t1 = \<lparr>he_client_id = 101, he_request_id = 0, he_kind = OpGet, he_key = ''k'', he_value = '''',
     he_expected = '''', he_invoke = t0, he_ret = t1, he_response = v, he_ok = True, he_pending = False\<rparr>"



text \<open>
  C24. Acceptance is sound without any bound on the interrupted writes: the fallback beyond \<open>cap\<close> never
  accepts a history that has no explanation.
\<close>

theorem check_linearizable_sound:
  assumes "\<forall>e \<in> set h. \<not> he_pending e \<longrightarrow> he_invoke e \<le> he_ret e" "ch_ok (check_linearizable h)"
  shows "\<exists>R \<in> outcomes (keyed h). explained_from [] R"
  using assms by (rule accepted_explained)

theorem check_linearizable_sound_witness:
  "\<exists>R \<in> outcomes (keyed [put_entry ''v'' 1 4 ''node_crashed'' False, get_entry ''v'' 2 3]). explained_from [] R"
proof (rule check_linearizable_sound)
  show "ch_ok (check_linearizable [put_entry ''v'' 1 4 ''node_crashed'' False, get_entry ''v'' 2 3])" by code_simp
qed (simp add: put_entry_def get_entry_def)

text \<open>
  C25. A rejection names the first key, in the order of \<open>std::map\<close>, whose operations fail the check.
\<close>

theorem check_reports_first_key:
  assumes "\<not> ch_ok (check_linearizable h)"
  shows "\<not> check_key_linearizable (key_ops (ch_failing_key (check_linearizable h)) h)
    \<and> (\<forall>k < ch_failing_key (check_linearizable h). check_key_linearizable (key_ops k h))"
proof -
  let ?m = "fold add_key_op h []"
  obtain k ops where f: "find (\<lambda>(key, ops). \<not> check_key_linearizable ops) ?m = Some (k, ops)"
    using assms by (auto simp: check_linearizable_def split: option.splits)
  then have fk: "ch_failing_key (check_linearizable h) = k" by (simp add: check_linearizable_def)
  obtain i where i: "i < length ?m" "?m ! i = (k, ops)" "\<not> check_key_linearizable ops"
    "\<forall>j < i. check_key_linearizable (snd (?m ! j))"
    using f unfolding find_Some_iff split_beta by (metis snd_conv)
  have "check_key_linearizable (key_ops k' h)" if "k' < k" for k'
  proof (cases "map_of ?m k'")
    case None
    then show ?thesis using per_key_lookup [of h "[]" k'] by simp
  next
    case (Some ops')
    then obtain j where j: "j < length ?m" "?m ! j = (k', ops')" by (metis map_of_SomeD in_set_conv_nth)
    have "\<not> i \<le> j"
    proof
      assume "i \<le> j"
      then have "fst (?m ! i) \<le> fst (?m ! j)"
        using per_key_sorted [of "[]" h] j(1) i(1) unfolding om_sorted_def
        by (cases "i = j") (auto dest: sorted_wrt_nth_less [of "(<)" "map fst ?m" i j])
      then show False using that i(2) j(2) by simp
    qed
    then have "check_key_linearizable (snd (?m ! j))" using i(4) by simp
    then show ?thesis using j(2) per_key_entry [of k' ops' h] nth_mem [OF j(1)] by simp
  qed
  moreover have "ops = key_ops k h" using per_key_entry [of k ops h] i(1,2) nth_mem [of i ?m] by simp
  ultimately show ?thesis using i(3) unfolding fk by simp
qed

theorem check_reports_first_key_witness:
  "\<not> check_key_linearizable (key_ops ''k'' [put_entry ''v'' 1 2 ''ok'' True, get_entry '''' 3 4])"
proof -
  have "\<not> ch_ok (check_linearizable [put_entry ''v'' 1 2 ''ok'' True, get_entry '''' 3 4])" by code_simp
  moreover have "ch_failing_key (check_linearizable [put_entry ''v'' 1 2 ''ok'' True, get_entry '''' 3 4]) = ''k''"
    by code_simp
  ultimately show ?thesis using check_reports_first_key by metis
qed

text \<open>
  C26. A write that the client gave up on may still have been committed, but the checker drops it: the
  history of a timed-out write whose value is then read is rejected, although the store explains it once
  the write is taken as committed, as it is for a write interrupted by a crash.
\<close>

theorem timed_out_write_rejected:
  "\<not> ch_ok (check_linearizable [put_entry ''v'' 1 2 ''timeout'' False, get_entry ''v'' 3 4])
   \<and> explained_from [] (keyed [put_entry ''v'' 1 2 ''timeout'' True, get_entry ''v'' 3 4])
   \<and> ch_ok (check_linearizable [put_entry ''v'' 1 2 ''node_crashed'' False, get_entry ''v'' 3 4])"
proof (intro conjI)
  show "explained_from [] (keyed [put_entry ''v'' 1 2 ''timeout'' True, get_entry ''v'' 3 4])"
    unfolding explained_from_def
    by (rule exI [of _ "map (\<lambda>e. (he_key e, key_op e)) [put_entry ''v'' 1 2 ''timeout'' True, get_entry ''v'' 3 4]"])
      (simp add: keyed_def put_entry_def get_entry_def key_op_def real_time_def precedes_def answered_def cmd_of_def)
qed code_simp+

definition lost_writes :: History where
  "lost_writes = map (\<lambda>i. put_entry ''x'' (of_nat (2 * i + 7)) (of_nat (2 * i + 8)) ''node_crashed'' False) [0..<14]"

definition two_writes :: History where
  "two_writes = [put_entry ''a'' 1 2 ''node_crashed'' False, get_entry ''a'' 3 4,
                 put_entry ''b'' 5 6 ''node_crashed'' False, get_entry ''b'' 50 51]"

text \<open>
  C27. Beyond \<open>cap\<close> interrupted writes the fallback rejects histories that have an explanation: here exactly
  two of sixteen interrupted writes took effect, and the fallback tries none, one or all of them.
\<close>

theorem fallback_rejects_explained:
  "\<not> ch_ok (check_linearizable (two_writes @ lost_writes))
   \<and> (\<exists>R \<in> outcomes (keyed (two_writes @ lost_writes)). explained_from [] R)"
proof
  show "\<not> ch_ok (check_linearizable (two_writes @ lost_writes))" by code_simp
  have "\<exists>R \<in> outcomes (keyed two_writes). explained_from [] R"
    by (rule accepted_explained) (simp add: two_writes_def put_entry_def get_entry_def, code_simp)
  moreover have "outcomes (keyed two_writes) \<subseteq> outcomes (keyed two_writes + keyed lost_writes)"
    by (rule outcomes_more) (auto simp: keyed_def lost_writes_def put_entry_def key_op_def certain_op_def)
  moreover have "keyed two_writes + keyed lost_writes = keyed (two_writes @ lost_writes)" by (simp add: keyed_def)
  ultimately show "\<exists>R \<in> outcomes (keyed (two_writes @ lost_writes)). explained_from [] R" by auto
qed

end
