(* ===== verification/Porcupine.thy ===== *)
theory Porcupine
  imports Checker
begin

text \<open>
  \<open>src/checker/porcupine_glue/main.go\<close>: the second, external checker. It reads the JSON history, groups the operations by
  key and gives each group with the register model \<open>kvModel\<close> to the library. The library call
  \<open>porcupine.CheckOperations\<close> and the JSON decoder of Go are parameters: the former is assumed to do what its
  documentation says, to answer \<open>Ok\<close> exactly if some order of the operations, compatible with their times, is accepted by
  the model.
\<close>

section \<open>Data\<close>

record HistEntry =
  hj_id :: int
  hj_client_id :: u64
  hj_request_id :: u64
  hj_op :: string
  hj_key :: string
  hj_value :: string
  hj_expected :: string
  hj_start :: int
  hj_end :: int
  hj_ok :: bool
  hj_response :: string

record kvInput =
  in_op :: string
  in_key :: string
  in_value :: string
  in_expected :: string

record kvOutput =
  out_ok :: bool
  out_response :: string

record Operation =
  op_client :: int
  op_input :: kvInput
  op_output :: kvOutput
  op_call :: int
  op_return :: int

section \<open>The model\<close>

definition kv_model_init :: string where
  "kv_model_init = ''''"

definition kv_model_step :: "string \<Rightarrow> kvInput \<Rightarrow> kvOutput \<Rightarrow> bool \<times> string" where
  "kv_model_step s input out =
     (if in_op input = ''put'' then (out_ok out, in_value input)
      else if in_op input = ''get'' then (s = out_response out, s)
      else if in_op input = ''cas'' then
        if s = in_expected input then (out_ok out, in_value input) else (\<not> out_ok out, s)
      else (False, s))"

section \<open>The program\<close>

definition to_operation :: "HistEntry \<Rightarrow> Operation" where
  "to_operation e =
     \<lparr>op_client = sint (hj_client_id e),
      op_input = \<lparr>in_op = hj_op e, in_key = hj_key e, in_value = hj_value e, in_expected = hj_expected e\<rparr>,
      op_output = \<lparr>out_ok = hj_ok e, out_response = hj_response e\<rparr>,
      op_call = hj_start e, op_return = hj_end e\<rparr>"

text \<open>The Go map \<open>byKey\<close>; its iteration order does not matter to the exit code.\<close>

definition by_key :: "HistEntry list \<Rightarrow> string \<Rightarrow> Operation list" where
  "by_key entries k = map to_operation (filter (\<lambda>e. hj_op e \<noteq> '''' \<and> hj_key e = k) entries)"

definition keys_of :: "HistEntry list \<Rightarrow> string list" where
  "keys_of entries = remdups (map hj_key (filter (\<lambda>e. hj_op e \<noteq> '''') entries))"

text \<open>The exit code, for the file content decoded by \<open>unmarshal\<close>.\<close>

definition glue_main :: "(string \<Rightarrow> HistEntry list option) \<Rightarrow> (Operation list \<Rightarrow> bool) \<Rightarrow> string option \<Rightarrow> int" where
  "glue_main unmarshal check_operations file =
     (case file of
        None \<Rightarrow> 1
      | Some data \<Rightarrow>
          (case unmarshal data of
             None \<Rightarrow> 1
           | Some entries \<Rightarrow> if list_all (\<lambda>k. check_operations (by_key entries k)) (keys_of entries) then 0 else 1))"

section \<open>What the library promises\<close>

fun accepted_by :: "string \<Rightarrow> Operation list \<Rightarrow> bool" where
  "accepted_by s [] \<longleftrightarrow> True"
| "accepted_by s (p # ps) \<longleftrightarrow>
     fst (kv_model_step s (op_input p) (op_output p)) \<and> accepted_by (snd (kv_model_step s (op_input p) (op_output p))) ps"

definition in_time :: "Operation list \<Rightarrow> bool" where
  "in_time ps \<longleftrightarrow> sorted_wrt (\<lambda>p q. \<not> op_return q < op_call p) ps"

definition porcupine_ok :: "(Operation list \<Rightarrow> bool) \<Rightarrow> bool" where
  "porcupine_ok check \<longleftrightarrow>
     (\<forall>ops. check ops \<longleftrightarrow> (\<exists>ps. mset ps = mset ops \<and> in_time ps \<and> accepted_by kv_model_init ps))"

section \<open>Properties\<close>

text \<open>An operation of the built-in checker as the glue gives it to the library.\<close>

definition op_inputs :: "string \<Rightarrow> KeyOp \<Rightarrow> kvInput" where
  "op_inputs k a = \<lparr>in_op = kind_str (ko_kind a), in_key = k, in_value = ko_value a, in_expected = ko_expected a\<rparr>"

definition op_outputs :: "KeyOp \<Rightarrow> kvOutput" where
  "op_outputs a = \<lparr>out_ok = ko_ok a, out_response = ko_response a\<rparr>"

text \<open>
  C35. The two checkers have the same sequential specification. On every operation and every state, the model written for
  Porcupine accepts exactly the responses that the built-in checker accepts, and goes to the same next value; an
  absent key is the empty string.
\<close>

theorem porcupine_model_agrees:
  "kv_model_step (value_or '''' st) (op_inputs k a) (op_outputs a)
     = (response_matches a (snd (apply_model st a)), value_or '''' (fst (apply_model st a)))"
  by (auto simp: kv_model_step_def op_inputs_def op_outputs_def response_matches_def apply_model_def value_or_def
      split: OpKind.splits option.splits)

text \<open>
  A failed write makes the external checker reject the history. The glue passes on every completed operation, also those that
  were refused or timed out, and the model accepts no put that is not \<open>ok\<close>. The built-in checker leaves such operations out.
\<close>

lemma failed_put_not_accepted:
  "p \<in> set ps \<Longrightarrow> in_op (op_input p) = ''put'' \<Longrightarrow> \<not> out_ok (op_output p) \<Longrightarrow> \<not> accepted_by s ps"
  by (induction ps arbitrary: s) (auto simp: kv_model_step_def)

theorem failed_put_rejected:
  assumes "porcupine_ok check" "unmarshal data = Some entries" "e \<in> set entries" "hj_op e = ''put''" "\<not> hj_ok e"
  shows "glue_main unmarshal check (Some data) = 1"
proof -
  have "to_operation e \<in> set (by_key entries (hj_key e))" using assms(3,4) by (auto simp: by_key_def)
  then have "\<not> check (by_key entries (hj_key e))"
    using assms(1,4,5) failed_put_not_accepted unfolding porcupine_ok_def
    by (metis (no_types, lifting) Operation.select_convs(2,3) kvInput.select_convs(1) kvOutput.select_convs(1) mset_eq_setD to_operation_def)
  moreover have "hj_key e \<in> set (keys_of entries)" using assms(3,4) by (auto simp: keys_of_def)
  ultimately show ?thesis using assms(2) by (auto simp: glue_main_def list_all_iff)
qed

end
