(* ===== verification/Prng.thy ===== *)
theory Prng
  imports Prelude "HOL-Library.Multiset" Complex_Main
begin

text \<open>
  \<open>src/sim/prng.cpp\<close> and \<open>src/sim/prng.hpp\<close>: SplitMix64 seeding, the xoshiro256** stream and
  the helpers built on it.

  \<open>range\<close> rejects draws in a loop that no termination argument bounds, so it is a
  \<open>partial_function\<close>: \<open>None\<close> is a loop that does not end, \<open>Some (Inl AssertFail)\<close>
  the failed assertion \<open>hi > lo\<close>. A \<open>double\<close> is the rational number it stands for; the
  product of \<open>bernoulli\<close> is exact, since its factor, \<open>UINT64_MAX\<close> as a \<open>double\<close>, is
  2 to the power 64.
\<close>

unbundle bit_operations_syntax

section \<open>The generator\<close>

record Prng =
  pg_s0 :: u64
  pg_s1 :: u64
  pg_s2 :: u64
  pg_s3 :: u64

definition splitmix64 :: "u64 \<Rightarrow> u64 \<times> u64" where
  "splitmix64 state =
     (let state = state + 0x9e3779b97f4a7c15;
          z = state;
          z = (z XOR drop_bit 30 z) * 0xbf58476d1ce4e5b9;
          z = (z XOR drop_bit 27 z) * 0x94d049bb133111eb
      in (z XOR drop_bit 31 z, state))"

definition rotl64 :: "u64 \<Rightarrow> nat \<Rightarrow> u64" where
  "rotl64 x k = push_bit k x OR drop_bit (64 - k) x"

definition prng_init :: "u64 \<Rightarrow> Prng" where
  "prng_init seed =
     (let (a, seed) = splitmix64 seed;
          (b, seed) = splitmix64 seed;
          (c, seed) = splitmix64 seed;
          (d, seed) = splitmix64 seed
      in \<lparr>pg_s0 = a, pg_s1 = b, pg_s2 = c, pg_s3 = d\<rparr>)"

definition next_u64 :: "Prng \<Rightarrow> u64 \<times> Prng" where
  "next_u64 p =
     (let result = rotl64 (pg_s1 p * 5) 7 * 9;
          t = push_bit 17 (pg_s1 p);
          p = p\<lparr>pg_s2 := pg_s2 p XOR pg_s0 p\<rparr>;
          p = p\<lparr>pg_s3 := pg_s3 p XOR pg_s1 p\<rparr>;
          p = p\<lparr>pg_s1 := pg_s1 p XOR pg_s2 p\<rparr>;
          p = p\<lparr>pg_s0 := pg_s0 p XOR pg_s3 p\<rparr>;
          p = p\<lparr>pg_s2 := pg_s2 p XOR t\<rparr>;
          p = p\<lparr>pg_s3 := rotl64 (pg_s3 p) 45\<rparr>
      in (result, p))"

section \<open>Derived draws\<close>

definition wide_mul :: "u64 \<Rightarrow> u64 \<Rightarrow> 128 word" where
  "wide_mul x n = ucast x * ucast n"

definition low64 :: "128 word \<Rightarrow> u64" where
  "low64 m = ucast m"

definition high64 :: "128 word \<Rightarrow> u64" where
  "high64 m = ucast (drop_bit 64 m)"

partial_function (option) range_retry :: "u64 \<Rightarrow> u64 \<Rightarrow> 128 word \<Rightarrow> Prng \<Rightarrow> (128 word \<times> Prng) option" where
  "range_retry n t m p =
     (if low64 m < t
      then range_retry n t (wide_mul (fst (next_u64 p)) n) (snd (next_u64 p))
      else Some (m, p))"

definition prng_range :: "u64 \<Rightarrow> u64 \<Rightarrow> Prng \<Rightarrow> (u64 \<times> Prng) run" where
  "prng_range lo hi p =
     (if \<not> hi > lo then Some (Inl AssertFail)
      else
        let n = hi - lo;
            (x, p) = next_u64 p;
            m = wide_mul x n
        in map_option (\<lambda>(m, p). Inr (high64 m + lo, p))
             (if low64 m < n then range_retry n ((- n) mod n) m p else Some (m, p)))"

definition bernoulli :: "rat \<Rightarrow> Prng \<Rightarrow> bool \<times> Prng" where
  "bernoulli pr p =
     (if pr \<le> 0 then (False, p)
      else if pr \<ge> 1 then (True, p)
      else let threshold = (of_int \<lfloor>pr * 2 ^ 64\<rfloor> :: u64);
               (x, p) = next_u64 p
           in (x < threshold, p))"

definition prng_unit :: "Prng \<Rightarrow> rat \<times> Prng" where
  "prng_unit p = (let (x, p) = next_u64 p in (of_nat (unat (drop_bit 11 x)) / 2 ^ 53, p))"

text \<open>The loop of \<open>shuffle\<close>, from the counter \<open>i\<close> down to 2.\<close>

definition list_swap :: "nat \<Rightarrow> nat \<Rightarrow> 'a list \<Rightarrow> 'a list" where
  "list_swap i j xs = xs[i := xs ! j, j := xs ! i]"

fun shuffle_loop :: "nat \<Rightarrow> 'a list \<Rightarrow> Prng \<Rightarrow> ('a list \<times> Prng) run" where
  "shuffle_loop i v p =
     (if i > 1 then
        bindX (prng_range 0 (of_nat i) p) (\<lambda>(j, p). shuffle_loop (i - 1) (list_swap (unat j) (i - 1) v) p)
      else Some (Inr (v, p)))"

definition prng_shuffle :: "'a list \<Rightarrow> Prng \<Rightarrow> ('a list \<times> Prng) run" where
  "prng_shuffle v p = shuffle_loop (length v) v p"

declare shuffle_loop.simps [simp del]

section \<open>Lemire's bounded draw\<close>

lemma unat_widen: "unat (ucast x :: 128 word) = unat x" for x :: u64
proof -
  have "unat x < 340282366920938463463374607431768211456" using unat64_bound [of x] by linarith
  then show ?thesis by (simp add: unsigned_ucast_eq take_bit_nat_eq_self_iff)
qed

lemma unat_wide_mul: "unat (wide_mul x n) = unat x * unat n"
proof -
  have "unat x * unat n < 18446744073709551616 * 18446744073709551616"
    using unat64_bound [of x] unat64_bound [of n] by (intro mult_strict_mono') simp_all
  then have "unat x * unat n < 2 ^ LENGTH(128)" by simp
  then show ?thesis by (simp add: wide_mul_def unat_word_ariths unat_widen)
qed

lemma unat_low64: "unat (low64 m) = unat m mod 2 ^ 64"
  by (simp add: low64_def unsigned_ucast_eq take_bit_eq_mod)

lemma unat_high64: "unat (high64 m) = unat m div 2 ^ 64"
proof -
  have "unat m < 2 ^ LENGTH(128)" by (rule unsigned_less)
  then have "unat m div 2 ^ 64 < 2 ^ 64" by (simp add: less_mult_imp_div_less)
  then have "take_bit 64 (unat m div 2 ^ 64) = unat m div 2 ^ 64" by (simp add: take_bit_nat_eq_self_iff)
  moreover have "unat (drop_bit 64 m) = unat m div 2 ^ 64"
    by (simp add: drop_bit_eq_div unat_div_distrib)
  ultimately show ?thesis by (simp add: high64_def unsigned_ucast_eq)
qed

lemma high64_less: "0 < n \<Longrightarrow> high64 (wide_mul x n) < n"
proof -
  assume "0 < n"
  then have "unat x * unat n < 18446744073709551616 * unat n"
    using unat64_bound [of x] by (simp add: word_less_unat)
  then have "unat x * unat n div 18446744073709551616 < unat n"
    by (simp add: less_mult_imp_div_less mult.commute)
  then show ?thesis by (simp add: word_less_unat unat_high64 unat_wide_mul)
qed

text \<open>The rejection threshold \<open>(-n) % n\<close> is 2 to the power 64, modulo \<open>n\<close>.\<close>

lemma unat_threshold: "0 < n \<Longrightarrow> unat ((- n) mod n) = 2 ^ 64 mod unat n" for n :: u64
proof -
  assume "0 < n"
  then have "unat n > 0" by (simp add: word_less_unat)
  have le: "unat n \<le> 2 ^ 64" using unat64_bound [of n] by (intro less_imp_le) simp
  from le have "(2 ^ 64 - unat n) + unat n = 2 ^ 64" by (rule le_add_diff_inverse2)
  then have "of_nat (2 ^ 64 - unat n) + of_nat (unat n) = (of_nat (2 ^ 64) :: u64)"
    by (simp only: of_nat_add [symmetric])
  moreover have "(of_nat (2 ^ 64) :: u64) = 0" unfolding word_of_nat_eq_0_iff by simp
  ultimately have "n + of_nat (2 ^ 64 - unat n) = 0" by (metis add.commute of_nat_unat ucast_id)
  then have "- n = of_nat (2 ^ 64 - unat n)" by (rule minus_unique)
  then have "unat (- n) = 2 ^ 64 - unat n"
    using \<open>unat n > 0\<close> by (simp add: unat_of_nat_64)
  then have "unat ((- n) mod n) = (2 ^ 64 - unat n) mod unat n" by (simp add: unat_mod_distrib)
  also have "\<dots> = 2 ^ 64 mod unat n"
    using le by (rule le_mod_geq [symmetric])
  finally show ?thesis .
qed

text \<open>The \<open>k\<close>-th next state and draw of the stream.\<close>

fun prng_skip :: "nat \<Rightarrow> Prng \<Rightarrow> Prng" where
  "prng_skip 0 p = p"
| "prng_skip (Suc k) p = prng_skip k (snd (next_u64 p))"

definition prng_draw :: "nat \<Rightarrow> Prng \<Rightarrow> u64" where
  "prng_draw k p = fst (next_u64 (prng_skip k p))"

definition accepted :: "u64 \<Rightarrow> u64 \<Rightarrow> u64 \<Rightarrow> bool" where
  "accepted n t x \<longleftrightarrow> \<not> low64 (wide_mul x n) < t"

lemma range_retry_first:
  "\<forall>j < k. \<not> accepted n t (prng_draw j p) \<Longrightarrow> accepted n t (prng_draw k p) \<Longrightarrow>
   range_retry n t (wide_mul (fst (next_u64 p)) n) (snd (next_u64 p)) =
     Some (wide_mul (prng_draw k p) n, prng_skip (Suc k) p)"
proof (induction k arbitrary: p)
  case 0
  then show ?case by (subst range_retry.simps) (simp add: prng_draw_def accepted_def)
next
  case (Suc k)
  have shift: "prng_draw j (snd (next_u64 p)) = prng_draw (Suc j) p" for j by (simp add: prng_draw_def)
  have "\<not> accepted n t (prng_draw 0 p)" using Suc.prems(1) by blast
  then have "low64 (wide_mul (fst (next_u64 p)) n) < t" by (simp add: accepted_def prng_draw_def)
  then show ?case
    using Suc.IH [of "snd (next_u64 p)", unfolded shift] Suc.prems
    by (subst range_retry.simps) simp
qed

lemma range_retry_returns:
  assumes "range_retry n t m p = Some r"
  shows "\<not> low64 m < t \<and> r = (m, p)
    \<or> low64 m < t \<and> (\<exists>k. (\<forall>j < k. \<not> accepted n t (prng_draw j p)) \<and> accepted n t (prng_draw k p)
         \<and> r = (wide_mul (prng_draw k p) n, prng_skip (Suc k) p))"
    (is "?Q n t m p r")
proof (rule range_retry.raw_induct [where P = ?Q, OF _ assms])
  fix f :: "u64 \<Rightarrow> u64 \<Rightarrow> 128 word \<Rightarrow> Prng \<Rightarrow> (128 word \<times> Prng) option" and n t m p r
  assume IH: "\<And>n t m p r. f n t m p = Some r \<Longrightarrow> ?Q n t m p r"
    and eq: "(if low64 m < t then f n t (wide_mul (fst (next_u64 p)) n) (snd (next_u64 p)) else Some (m, p)) = Some r"
  show "?Q n t m p r"
  proof (cases "low64 m < t")
    case True
    let ?p = "snd (next_u64 p)"
    have shift: "prng_draw j ?p = prng_draw (Suc j) p" "prng_skip j ?p = prng_skip (Suc j) p" for j
      by (simp_all add: prng_draw_def)
    from IH [of n t "wide_mul (prng_draw 0 p) n" ?p r] True eq consider
        "accepted n t (prng_draw 0 p)" "r = (wide_mul (prng_draw 0 p) n, ?p)"
      | k where "\<not> accepted n t (prng_draw 0 p)" "\<forall>j < k. \<not> accepted n t (prng_draw (Suc j) p)"
          "accepted n t (prng_draw (Suc k) p)" "r = (wide_mul (prng_draw (Suc k) p) n, prng_skip (Suc (Suc k)) p)"
      unfolding shift by (auto simp: accepted_def prng_draw_def)
    then show ?thesis
    proof cases
      case 1
      then show ?thesis using True by (intro disjI2 conjI exI [of _ 0]) simp_all
    next
      case (2 k)
      then show ?thesis
        using True by (intro disjI2 conjI exI [of _ "Suc k"]) (auto simp: less_Suc_eq_0_disj)
    qed
  qed (use eq in simp)
qed

section \<open>The bounded draw is uniform\<close>

lemma ceil_div_le: "0 < N \<Longrightarrow> B \<le> a * N \<longleftrightarrow> (B + N - 1) div N \<le> a" for a B N :: nat
proof -
  assume "0 < N"
  have "(B + N - 1) div N \<le> a \<longleftrightarrow> (B + N - 1) div N < Suc a"
    by (simp only: less_Suc_eq_le)
  also have "\<dots> \<longleftrightarrow> B + N - 1 < Suc a * N" using \<open>0 < N\<close> by (simp only: div_less_iff_less_mult)
  also have "\<dots> \<longleftrightarrow> B \<le> a * N" using \<open>0 < N\<close> by auto
  finally show ?thesis by simp
qed

lemma card_multiples: "0 < N \<Longrightarrow> card {a. B \<le> a * N \<and> a * N < B + q * N} = q" for N B q :: nat
proof -
  assume N: "0 < N"
  let ?c = "(B + N - 1) div N"
  have "a * N < B + q * N \<longleftrightarrow> a < ?c + q" for a
  proof -
    have "a * N < B + q * N \<longleftrightarrow> \<not> (B + q * N + N - 1) div N \<le> a"
      using ceil_div_le [OF N, of "B + q * N" a] by auto
    moreover have "(B + q * N + N - 1) div N = ?c + q"
      using N div_mult_self1 [of N "B + N - 1" q] by (simp add: algebra_simps)
    ultimately show ?thesis by auto
  qed
  then have "{a. B \<le> a * N \<and> a * N < B + q * N} = {?c ..< ?c + q}"
    using ceil_div_le [OF N] by auto
  then show ?thesis by simp
qed

lemma div_mod_window:
  fixes t m v W :: nat
  assumes "0 < W"
  shows "t \<le> m mod W \<and> m div W = v \<longleftrightarrow> v * W + t \<le> m \<and> m < v * W + W"
proof
  assume "t \<le> m mod W \<and> m div W = v"
  moreover have "v * W + m mod W = m" if "m div W = v" using that div_mult_mod_eq [of m W] by simp
  ultimately show "v * W + t \<le> m \<and> m < v * W + W"
    using mod_less_divisor [OF assms, of m] by linarith
next
  assume a: "v * W + t \<le> m \<and> m < v * W + W"
  then have "m div W = v" by (intro div_nat_eqI) (simp_all add: algebra_simps)
  moreover from this have "v * W + m mod W = m" using div_mult_mod_eq [of m W] by simp
  ultimately show "t \<le> m mod W \<and> m div W = v" using a by linarith
qed

lemma accepted_window:
  assumes n: "0 < n" and v: "v < n" and t: "t = (- n) mod n"
  shows "accepted n t x \<and> high64 (wide_mul x n) = v \<longleftrightarrow>
    (let B = unat v * 2 ^ 64 + 2 ^ 64 mod unat n in
     B \<le> unat x * unat n \<and> unat x * unat n < B + 2 ^ 64 div unat n * unat n)"
proof -
  let ?W = "2 ^ 64 :: nat" and ?m = "unat x * unat n"
  have t': "unat t = ?W mod unat n" using unat_threshold [OF n] t by simp
  have W: "?W mod unat n + ?W div unat n * unat n = ?W" by simp
  have "accepted n t x \<and> high64 (wide_mul x n) = v \<longleftrightarrow> unat t \<le> ?m mod ?W \<and> ?m div ?W = unat v"
    by (simp add: accepted_def word_less_unat word_eq_unat unat_low64 unat_high64 unat_wide_mul not_less)
  also have "\<dots> \<longleftrightarrow> unat v * ?W + unat t \<le> ?m \<and> ?m < unat v * ?W + ?W"
    by (rule div_mod_window) simp
  also have "unat v * ?W + ?W = unat v * ?W + unat t + ?W div unat n * unat n" using t' W by simp
  finally show ?thesis unfolding t' Let_def .
qed

lemma card_unat: "card {x :: u64. P (unat x)} = card {a. a < 2 ^ 64 \<and> P a}"
proof (rule bij_betw_same_card)
  show "bij_betw unat {x :: u64. P (unat x)} {a. a < 2 ^ 64 \<and> P a}"
    by (rule bij_betw_byWitness [where f' = of_nat]) (auto simp: unat_of_nat_64)
qed

lemma uniform_draw:
  assumes n: "0 < n" and v: "v < n" and t: "t = (- n) mod n"
  shows "card {x. accepted n t x \<and> high64 (wide_mul x n) = v} = 2 ^ 64 div unat n"
proof -
  let ?W = "2 ^ 64 :: nat" and ?N = "unat n"
  let ?B = "unat v * ?W + ?W mod ?N" and ?q = "?W div ?N"
  have N: "0 < ?N" using n by (simp add: word_less_unat)
  have in_range: "a < ?W" if "a * ?N < ?B + ?q * ?N" for a
  proof -
    have "?B + ?q * ?N = (unat v + 1) * ?W" by (simp add: algebra_simps)
    moreover have "unat v + 1 \<le> ?N" using v by (simp add: word_less_unat)
    ultimately have "a * ?N < ?N * ?W" using that mult_le_mono1 [of "unat v + 1" ?N ?W] by linarith
    then show ?thesis by (simp add: mult.commute)
  qed
  have "{x. accepted n t x \<and> high64 (wide_mul x n) = v}
      = {x. (\<lambda>a. ?B \<le> a * ?N \<and> a * ?N < ?B + ?q * ?N) (unat x)}"
    unfolding accepted_window [OF n v t] Let_def ..
  then have "card {x. accepted n t x \<and> high64 (wide_mul x n) = v}
      = card {a. a < ?W \<and> ?B \<le> a * ?N \<and> a * ?N < ?B + ?q * ?N}"
    using card_unat [of "\<lambda>a. ?B \<le> a * ?N \<and> a * ?N < ?B + ?q * ?N"] by simp
  also have "{a. a < ?W \<and> ?B \<le> a * ?N \<and> a * ?N < ?B + ?q * ?N} = {a. ?B \<le> a * ?N \<and> a * ?N < ?B + ?q * ?N}"
    using in_range by blast
  finally show ?thesis by (simp only: card_multiples [OF N])
qed

text \<open>Whatever the loop does, the value returned is the high half of a product with \<open>n\<close>.\<close>

lemma prng_range_shape:
  assumes "prng_range lo hi p = Some (Inr (v, p'))"
  obtains x where "lo < hi" "v = high64 (wide_mul x (hi - lo)) + lo"
proof -
  obtain x q where nx: "next_u64 p = (x, q)" by (cases "next_u64 p")
  define n where "n = hi - lo"
  have lt: "lo < hi" using assms by (auto simp: prng_range_def split: if_splits)
  then obtain m where m: "v = high64 m + lo"
    "(if low64 (wide_mul x n) < n then range_retry n ((- n) mod n) (wide_mul x n) q
      else Some (wide_mul x n, q)) = Some (m, p')"
    using assms by (auto simp: prng_range_def Let_def n_def [symmetric] nx)
  have "\<exists>x. m = wide_mul x n"
    using m(2) range_retry_returns [of n "(- n) mod n" "wide_mul x n" q "(m, p')"]
    by (auto split: if_splits)
  with that lt m(1) show ?thesis by (auto simp: n_def)
qed

lemma prng_range_bounds: "prng_range lo hi p = Some (Inr (v, p')) \<Longrightarrow> lo \<le> v \<and> v < hi"
proof -
  assume "prng_range lo hi p = Some (Inr (v, p'))"
  then obtain x where lt: "lo < hi" and v: "v = high64 (wide_mul x (hi - lo)) + lo" by (rule prng_range_shape)
  have n: "unat (hi - lo) = unat hi - unat lo" using lt by (simp add: unat_sub_64)
  have "0 < hi - lo" using lt n by (simp add: word_less_unat)
  then have h: "unat (high64 (wide_mul x (hi - lo))) < unat hi - unat lo"
    using high64_less [of "hi - lo" x] n by (simp add: word_less_unat)
  then have "unat (high64 (wide_mul x (hi - lo))) + unat lo < 18446744073709551616"
    using unat64_bound [of hi] by linarith
  with h v show ?thesis by (simp add: word_le_unat word_less_unat unat_add_64)
qed

text \<open>Shuffling.\<close>

lemma mset_list_swap: "i < length xs \<Longrightarrow> j < length xs \<Longrightarrow> mset (list_swap i j xs) = mset xs"
  by (simp add: list_swap_def mset_swap)

lemma shuffle_loop_mset:
  "i \<le> length v \<Longrightarrow> i < 2 ^ 64 \<Longrightarrow> shuffle_loop i v p = Some (Inr (v', p')) \<Longrightarrow> mset v' = mset v"
proof (induction i v p rule: shuffle_loop.induct)
  case (1 i v p)
  show ?case
  proof (cases "i > 1")
    case False
    with "1.prems" show ?thesis by (simp add: shuffle_loop.simps)
  next
    case True
    from "1.prems"(3) True obtain j q where range: "prng_range 0 (of_nat i) p = Some (Inr (j, q))"
      and rest: "shuffle_loop (i - 1) (list_swap (unat j) (i - 1) v) q = Some (Inr (v', p'))"
      unfolding shuffle_loop.simps [of i v p] by (auto simp: bindX_eq_ret)
    have "j < of_nat i" using prng_range_bounds [OF range] by blast
    then have "unat j < i" using "1.prems"(2) by (simp add: word_less_unat unat_of_nat_64)
    then have "mset (list_swap (unat j) (i - 1) v) = mset v"
      using "1.prems"(1) True by (intro mset_list_swap) simp_all
    moreover have "mset v' = mset (list_swap (unat j) (i - 1) v)"
      using "1.IH" [OF True] rest "1.prems"(1,2) by (simp add: list_swap_def)
    ultimately show ?thesis by simp
  qed
qed

section \<open>The state never degenerates\<close>

lemma rotl64_zero: "rotl64 x k = 0 \<longleftrightarrow> x = 0" if "k \<le> 64"
proof
  assume z: "rotl64 x k = 0"
  show "x = 0"
  proof (rule bit_word_eqI)
    fix i assume i: "i < LENGTH(64)"
    have bits: "\<not> bit (rotl64 x k) j" for j using z by simp
    have "\<not> bit x i"
    proof (cases "i + k < 64")
      case True
      then show ?thesis using bits [of "i + k"] by (auto simp: rotl64_def bit_simps)
    next
      case False
      then have "i = (i + k - 64) + (64 - k)" using that i by simp
      then show ?thesis using bits [of "i + k - 64"] i by (auto simp: rotl64_def bit_simps)
    qed
    then show "bit x i = bit 0 i" by simp
  qed
qed (simp add: rotl64_def)

lemma xor_shl_zero: "x XOR push_bit 17 x = 0 \<Longrightarrow> x = 0" for x :: u64
proof (rule bit_word_eqI)
  fix i
  assume z: "x XOR push_bit 17 x = 0" and "i < LENGTH(64)"
  have step: "bit x j \<longleftrightarrow> j \<ge> 17 \<and> bit x (j - 17)" if "j < 64" for j
    using arg_cong [OF z, of "\<lambda>w. bit w j"] that by (auto simp: bit_simps)
  have "j < 64 \<Longrightarrow> \<not> bit x j" for j
  proof (induction j rule: less_induct)
    case (less j)
    then show ?case using step [of j] by auto
  qed
  with \<open>i < LENGTH(64)\<close> show "bit x i = bit 0 i" by simp
qed

definition prng_zero :: "Prng \<Rightarrow> bool" where
  "prng_zero p \<longleftrightarrow> pg_s0 p = 0 \<and> pg_s1 p = 0 \<and> pg_s2 p = 0 \<and> pg_s3 p = 0"

lemma xor_zero: "x XOR y = 0 \<Longrightarrow> x = y" for x y :: u64
proof (rule bit_word_eqI)
  fix i assume "x XOR y = 0"
  from arg_cong [OF this, of "\<lambda>w. bit w i"] show "bit x i = bit y i" by (simp add: bit_simps)
qed

lemma next_u64_fields:
  "pg_s0 (snd (next_u64 p)) = pg_s0 p XOR (pg_s3 p XOR pg_s1 p)"
  "pg_s1 (snd (next_u64 p)) = pg_s1 p XOR (pg_s2 p XOR pg_s0 p)"
  "pg_s2 (snd (next_u64 p)) = (pg_s2 p XOR pg_s0 p) XOR push_bit 17 (pg_s1 p)"
  "pg_s3 (snd (next_u64 p)) = rotl64 (pg_s3 p XOR pg_s1 p) 45"
  by (simp_all add: next_u64_def Let_def)

lemma next_u64_nonzero: "prng_zero (snd (next_u64 p)) \<Longrightarrow> prng_zero p"
proof -
  let ?a = "pg_s0 p" and ?b = "pg_s1 p" and ?c = "pg_s2 p" and ?d = "pg_s3 p"
  assume "prng_zero (snd (next_u64 p))"
  then have "?a XOR (?d XOR ?b) = 0 \<and> ?b XOR (?c XOR ?a) = 0 \<and> (?c XOR ?a) XOR push_bit 17 ?b = 0
      \<and> rotl64 (?d XOR ?b) 45 = 0"
    by (simp only: prng_zero_def next_u64_fields)
  then have 0: "?a XOR (?d XOR ?b) = 0" and 1: "?b XOR (?c XOR ?a) = 0"
    and 2: "(?c XOR ?a) XOR push_bit 17 ?b = 0" and rot: "rotl64 (?d XOR ?b) 45 = 0" by blast+
  have 3: "?d XOR ?b = 0" using rot rotl64_zero [of 45 "?d XOR ?b"] by simp
  have a: "?a = 0" using 0 3 by simp
  have "?b = ?c" using xor_zero [OF 1] a by simp
  with 2 a have "?b XOR push_bit 17 ?b = 0" by simp
  then have b: "?b = 0" by (rule xor_shl_zero)
  with \<open>?b = ?c\<close> xor_zero [OF 3] a show "prng_zero p" by (simp add: prng_zero_def)
qed

text \<open>SplitMix64 mixes its counter by an injective function, so two successive outputs differ.\<close>

lemma xor_shr_inj: "x XOR drop_bit k x = y XOR drop_bit k y \<Longrightarrow> 0 < k \<Longrightarrow> x = y" for x y :: u64
proof (rule bit_word_eqI)
  fix i
  assume z: "x XOR drop_bit k x = y XOR drop_bit k y" and "0 < k" "i < LENGTH(64)"
  have step: "(bit x j = bit x (j + k)) \<longleftrightarrow> (bit y j = bit y (j + k))" for j
    using arg_cong [OF z, of "\<lambda>w. bit w j"] by (auto simp: bit_simps add.commute)
  have "bit x (64 - d) = bit y (64 - d)" if "d \<le> 64" for d
    using that
  proof (induction d rule: less_induct)
    case (less d)
    show ?case
    proof (cases "d < k")
      case True
      then have "64 \<le> 64 - d + k" using less.prems by simp
      then have "\<not> bit x (64 - d + k)" "\<not> bit y (64 - d + k)" by (simp_all add: bit_word.rep_eq)
      then show ?thesis using step [of "64 - d"] by blast
    next
      case False
      then have "64 - d + k = 64 - (d - k)" using less.prems by simp
      then show ?thesis
        using less.IH [of "d - k"] step [of "64 - d"] False \<open>0 < k\<close> less.prems by auto
    qed
  qed
  from this [of "64 - i"] \<open>i < LENGTH(64)\<close> show "bit x i = bit y i" by simp
qed

lemma odd_mult_inj: "c * c' = 1 \<Longrightarrow> x * c = y * c \<Longrightarrow> x = y" for x y c c' :: u64
proof -
  assume i: "c * c' = 1" and "x * c = y * c"
  then have "(x * c) * c' = (y * c) * c'" by simp
  then show ?thesis by (simp only: mult.assoc i mult_1_right)
qed

definition mix1 :: "u64 \<Rightarrow> u64" where
  "mix1 z = (z XOR drop_bit 30 z) * 0xbf58476d1ce4e5b9"

definition mix2 :: "u64 \<Rightarrow> u64" where
  "mix2 z = (z XOR drop_bit 27 z) * 0x94d049bb133111eb"

lemma mix_constants:
  "(0xbf58476d1ce4e5b9 :: u64) * 0x96de1b173f119089 = 1"
  "(0x94d049bb133111eb :: u64) * 0x319642b2d24d8ec3 = 1"
  by simp_all

lemma mix1_inj: "mix1 x = mix1 y \<Longrightarrow> x = y"
proof -
  assume "mix1 x = mix1 y"
  then have "x XOR drop_bit 30 x = y XOR drop_bit 30 y"
    unfolding mix1_def by (rule odd_mult_inj [OF mix_constants(1)])
  then show ?thesis by (rule xor_shr_inj) simp
qed

lemma mix2_inj: "mix2 x = mix2 y \<Longrightarrow> x = y"
proof -
  assume "mix2 x = mix2 y"
  then have "x XOR drop_bit 27 x = y XOR drop_bit 27 y"
    unfolding mix2_def by (rule odd_mult_inj [OF mix_constants(2)])
  then show ?thesis by (rule xor_shr_inj) simp
qed

lemma splitmix64_mix:
  "fst (splitmix64 s) = mix2 (mix1 (snd (splitmix64 s))) XOR drop_bit 31 (mix2 (mix1 (snd (splitmix64 s))))"
  "snd (splitmix64 s) = s + 0x9e3779b97f4a7c15"
  by (simp_all only: splitmix64_def Let_def fst_conv snd_conv mix1_def mix2_def)

lemma splitmix64_inj:
  assumes "fst (splitmix64 a) = fst (splitmix64 b)"
  shows "snd (splitmix64 a) = snd (splitmix64 b)"
proof -
  have "mix2 (mix1 (snd (splitmix64 a))) = mix2 (mix1 (snd (splitmix64 b)))"
    using assms unfolding splitmix64_mix(1) by (rule xor_shr_inj) simp
  then show ?thesis by (rule mix1_inj [OF mix2_inj])
qed

lemma prng_init_nonzero: "\<not> prng_zero (prng_init seed)"
proof
  let ?s = "snd (splitmix64 seed)"
  assume "prng_zero (prng_init seed)"
  then have "fst (splitmix64 seed) = fst (splitmix64 ?s)"
    by (simp add: prng_zero_def prng_init_def split_def Let_def)
  from splitmix64_inj [OF this] have "?s = ?s + 0x9e3779b97f4a7c15"
    unfolding splitmix64_mix(2) [of ?s] .
  then show False by simp
qed

lemma prng_range_unfold:
  assumes "lo < hi" "n = hi - lo"
  shows "prng_range lo hi p = map_option (\<lambda>(m, p). Inr (high64 m + lo, p))
    (range_retry n ((- n) mod n) (wide_mul (fst (next_u64 p)) n) (snd (next_u64 p)))"
proof -
  obtain x q where nx: "next_u64 p = (x, q)" by (cases "next_u64 p")
  have "unat n = unat hi - unat lo" using assms by (simp add: unat_sub_64)
  then have "0 < n" using assms(1) by (simp add: word_less_unat)
  then have t: "(- n) mod n < n" using mod_less_divisor [of "unat n"]
    by (simp add: word_less_unat unat_mod_distrib)
  have "range_retry n ((- n) mod n) (wide_mul x n) q = Some (wide_mul x n, q)"
    if "\<not> low64 (wide_mul x n) < n"
  proof -
    have "\<not> low64 (wide_mul x n) < (- n) mod n" using that t by (meson order.strict_trans)
    then show ?thesis by (subst range_retry.simps) simp
  qed
  then show ?thesis
    using assms by (auto simp: prng_range_def Let_def nx)
qed

section \<open>Properties\<close>

text \<open>
  C19. \<open>range(lo, hi)\<close> takes the first draw of the stream that Lemire's test accepts and scales it into
  the interval, consuming exactly the draws up to it; if no draw is ever accepted, it does not return.
\<close>

theorem prng_range_first_accepted:
  assumes "lo < hi" "n = hi - lo" "t = (- n) mod n"
  shows "(\<forall>k. (\<forall>j < k. \<not> accepted n t (prng_draw j p)) \<and> accepted n t (prng_draw k p) \<longrightarrow>
      prng_range lo hi p = Some (Inr (high64 (wide_mul (prng_draw k p) n) + lo, prng_skip (Suc k) p)))
    \<and> ((\<forall>j. \<not> accepted n t (prng_draw j p)) \<longrightarrow> prng_range lo hi p = None)"
proof (intro conjI allI impI)
  fix k assume "(\<forall>j < k. \<not> accepted n t (prng_draw j p)) \<and> accepted n t (prng_draw k p)"
  then show "prng_range lo hi p = Some (Inr (high64 (wide_mul (prng_draw k p) n) + lo, prng_skip (Suc k) p))"
    using range_retry_first [of k n t p] assms(3) by (simp add: prng_range_unfold [OF assms(1,2)])
next
  assume none: "\<forall>j. \<not> accepted n t (prng_draw j p)"
  have "prng_draw j (snd (next_u64 p)) = prng_draw (Suc j) p" "prng_draw 0 p = fst (next_u64 p)" for j
    by (simp_all add: prng_draw_def)
  with none range_retry_returns [of n t "wide_mul (fst (next_u64 p)) n" "snd (next_u64 p)"]
  have "range_retry n t (wide_mul (fst (next_u64 p)) n) (snd (next_u64 p)) \<noteq> Some r" for r
    by (metis accepted_def)
  then have "range_retry n t (wide_mul (fst (next_u64 p)) n) (snd (next_u64 p)) = None"
    by (cases "range_retry n t (wide_mul (fst (next_u64 p)) n) (snd (next_u64 p))") auto
  then show "prng_range lo hi p = None" using assms(3) by (simp add: prng_range_unfold [OF assms(1,2)])
qed

theorem prng_range_first_accepted_witness:
  "prng_range 0 2 (prng_init 42) =
     Some (Inr (high64 (wide_mul (prng_draw 0 (prng_init 42)) 2) + 0, prng_skip 1 (prng_init 42)))"
proof -
  have t: "(0 :: u64) = (- 2) mod 2" by code_simp
  have "accepted 2 0 (prng_draw 0 (prng_init 42))" by (simp add: accepted_def)
  then show ?thesis
    using prng_range_first_accepted [of 0 2 2 0 "prng_init 42", OF _ _ t, THEN conjunct1, THEN spec [of _ 0]]
    by simp
qed

text \<open>
  C20. The bounded draw is unbiased: for every value \<open>v\<close> below \<open>n\<close>, exactly \<open>2 ^ 64 div n\<close> of the
  accepted raw draws are mapped to \<open>v\<close>.
\<close>

theorem prng_range_unbiased:
  assumes "0 < n" "v < n"
  shows "card {x. accepted n ((- n) mod n) x \<and> high64 (wide_mul x n) = v} = 2 ^ 64 div unat n"
  using assms by (intro uniform_draw refl)

theorem prng_range_unbiased_witness:
  "card {x. accepted 3 ((- 3) mod 3) x \<and> high64 (wide_mul x 3) = 1} = 2 ^ 64 div 3"
  using prng_range_unbiased [of 3 1] by simp



text \<open>
  C22. The generator never reaches the all-zero state, the one fixed point of xoshiro256**: no seed
  starts in it and no step enters it.
\<close>

theorem prng_never_zero: "\<not> prng_zero (prng_skip k (prng_init seed))"
proof -
  have "\<not> prng_zero p \<Longrightarrow> \<not> prng_zero (prng_skip k p)" for p
    by (induction k arbitrary: p) (auto dest: next_u64_nonzero)
  then show ?thesis using prng_init_nonzero by blast
qed

end
