(* ===== verification/Event_Queue.thy ===== *)
theory Event_Queue
  imports Prelude "HOL-Library.Multiset" "HOL-Library.FSet"
begin

text \<open>
  \<open>src/sim/event_queue.cpp\<close> and \<open>src/sim/event_queue.hpp\<close>: pending events in order of
  \<open>(time, seq)\<close>, with lazy cancellation.

  \<open>std::priority_queue\<close> is a list kept sorted by the order that \<open>Cmp\<close> reverses, so that
  \<open>top\<close> is its head. Elements with equal time and sequence number do not occur
  in the simulator, which numbers its events. The type of actions is a parameter.
\<close>

section \<open>The queue\<close>

record 'a Event =
  ev_time :: SimTime
  ev_seq :: u64
  ev_action :: 'a
  ev_cancelled :: bool

definition ev_key :: "'a Event \<Rightarrow> nat \<times> nat" where
  "ev_key e = (unat (ev_time e), unat (ev_seq e))"

definition ev_before :: "'a Event \<Rightarrow> 'a Event \<Rightarrow> bool" where
  "ev_before a b = (if ev_time a \<noteq> ev_time b then ev_time a < ev_time b else ev_seq a \<le> ev_seq b)"

record 'a EventQueue =
  eq_heap :: "'a Event list"
  eq_cancelled :: "u64 fset"

definition eq_empty_queue :: "'a EventQueue" where
  "eq_empty_queue = \<lparr>eq_heap = [], eq_cancelled = {||}\<rparr>"

fun heap_push :: "'a Event \<Rightarrow> 'a Event list \<Rightarrow> 'a Event list" where
  "heap_push e [] = [e]"
| "heap_push e (x # xs) = (if ev_before e x then e # x # xs else x # heap_push e xs)"

definition eq_push :: "SimTime \<Rightarrow> u64 \<Rightarrow> 'a \<Rightarrow> 'a EventQueue \<Rightarrow> EventId \<times> 'a EventQueue" where
  "eq_push t sq act q =
     (sq, q\<lparr>eq_heap := heap_push \<lparr>ev_time = t, ev_seq = sq, ev_action = act, ev_cancelled = False\<rparr> (eq_heap q)\<rparr>)"

definition eq_cancel :: "EventId \<Rightarrow> 'a EventQueue \<Rightarrow> 'a EventQueue" where
  "eq_cancel i q = q\<lparr>eq_cancelled := finsert i (eq_cancelled q)\<rparr>"

definition eq_empty :: "'a EventQueue \<Rightarrow> bool" where
  "eq_empty q = (eq_heap q = [])"

definition eq_pop_min :: "'a EventQueue \<Rightarrow> exn + ('a Event \<times> 'a EventQueue)" where
  "eq_pop_min q =
     (case eq_heap q of
        [] \<Rightarrow> Inl LogicError
      | e # rest \<Rightarrow>
          let q = q\<lparr>eq_heap := rest\<rparr>
          in if ev_seq e |\<in>| eq_cancelled q
             then Inr (e\<lparr>ev_cancelled := True\<rparr>, q\<lparr>eq_cancelled := eq_cancelled q |-| {|ev_seq e|}\<rparr>)
             else Inr (e, q))"

text \<open>Undefined on an empty queue; its caller tests for that first.\<close>

definition eq_peek_time :: "'a EventQueue \<Rightarrow> SimTime option" where
  "eq_peek_time q = (case eq_heap q of [] \<Rightarrow> None | e # _ \<Rightarrow> Some (ev_time e))"

section \<open>Order\<close>

lemma ev_before_key:
  "ev_before a b \<longleftrightarrow> unat (ev_time a) < unat (ev_time b)
     \<or> unat (ev_time a) = unat (ev_time b) \<and> unat (ev_seq a) \<le> unat (ev_seq b)"
  by (auto simp: ev_before_def word_less_unat word_le_unat word_eq_unat)

lemma ev_before_total: "ev_before a b \<or> ev_before b a"
  by (auto simp: ev_before_key)

lemma ev_before_trans: "ev_before a b \<Longrightarrow> ev_before b c \<Longrightarrow> ev_before a c"
  by (auto simp: ev_before_key)

lemma ev_before_refl [simp]: "ev_before a a"
  by (simp add: ev_before_key)

definition heap_sorted :: "'a Event list \<Rightarrow> bool" where
  "heap_sorted = sorted_wrt ev_before"

lemma mset_heap_push [simp]: "mset (heap_push e xs) = add_mset e (mset xs)"
  by (induction xs) auto

lemma set_heap_push [simp]: "set (heap_push e xs) = insert e (set xs)"
  by (induction xs) auto

lemma heap_push_sorted: "heap_sorted xs \<Longrightarrow> heap_sorted (heap_push e xs)"
  unfolding heap_sorted_def
proof (induction xs)
  case (Cons x xs)
  then show ?case
    using ev_before_total [of e x] by (auto intro: ev_before_trans)
qed simp

section \<open>The contract of an event queue\<close>

text \<open>
  What the simulator relies on: the contents as a multiset, a pop that takes a least
  element, and nothing else. Draining any number of events therefore yields them in order.
\<close>

locale timed_queue =
  fixes push :: "'x \<Rightarrow> 'q \<Rightarrow> 'q"
    and pop :: "'q \<Rightarrow> ('x \<times> 'q) option"
    and contents :: "'q \<Rightarrow> 'x multiset"
    and before :: "'x \<Rightarrow> 'x \<Rightarrow> bool"
    and invar :: "'q \<Rightarrow> bool"
  assumes before_trans: "before a b \<Longrightarrow> before b c \<Longrightarrow> before a c"
    and invar_push: "invar q \<Longrightarrow> invar (push x q)"
    and contents_push: "invar q \<Longrightarrow> contents (push x q) = add_mset x (contents q)"
    and pop_None: "invar q \<Longrightarrow> pop q = None \<longleftrightarrow> contents q = {#}"
    and pop_Some: "invar q \<Longrightarrow> pop q = Some (x, q') \<Longrightarrow>
      invar q' \<and> contents q = add_mset x (contents q') \<and> (\<forall>y \<in># contents q'. before x y)"
begin

fun drain :: "nat \<Rightarrow> 'q \<Rightarrow> 'x list" where
  "drain 0 q = []"
| "drain (Suc k) q = (case pop q of None \<Rightarrow> [] | Some (x, q') \<Rightarrow> x # drain k q')"

lemma drain_contents: "invar q \<Longrightarrow> set (drain k q) \<subseteq> set_mset (contents q)"
proof (induction k arbitrary: q)
  case (Suc k)
  show ?case
  proof (cases "pop q")
    case (Some p)
    obtain x q' where p: "p = (x, q')" by (cases p)
    have "set (drain k q') \<subseteq> set_mset (contents q')" using Suc pop_Some [of q x q'] Some p by simp
    with Some p pop_Some [of q x q'] Suc.prems show ?thesis by auto
  qed simp
qed simp

lemma drain_sorted: "invar q \<Longrightarrow> sorted_wrt before (drain k q)"
proof (induction k arbitrary: q)
  case (Suc k)
  show ?case
  proof (cases "pop q")
    case (Some p)
    obtain x q' where p: "p = (x, q')" by (cases p)
    with Some pop_Some [of q x q'] Suc.prems
    have q': "invar q'" "\<forall>y \<in># contents q'. before x y" by auto
    with drain_contents [of q' k] Suc.IH [of q'] Some p show ?thesis by auto
  qed simp
qed simp

lemma drain_all: "invar q \<Longrightarrow> size (contents q) \<le> k \<Longrightarrow> mset (drain k q) = contents q"
proof (induction k arbitrary: q)
  case 0
  then show ?case by simp
next
  case (Suc k)
  show ?case
  proof (cases "pop q")
    case None
    moreover from this have "contents q = {#}" using pop_None [OF Suc.prems(1)] by blast
    ultimately show ?thesis by simp
  next
    case (Some p)
    obtain x q' where p: "p = (x, q')" by (cases p)
    with Some pop_Some [of q x q'] Suc.prems have "invar q'" "contents q = add_mset x (contents q')" by auto
    with Suc.IH [of q'] Suc.prems(2) Some p show ?thesis by simp
  qed
qed

end

text \<open>The queue of the simulator, without the cancellation marks.\<close>

definition pop_event :: "'a Event list \<Rightarrow> ('a Event \<times> 'a Event list) option" where
  "pop_event xs = (case xs of [] \<Rightarrow> None | e # rest \<Rightarrow> Some (e, rest))"

interpretation hq: timed_queue heap_push pop_event mset ev_before heap_sorted
proof unfold_locales
  fix x :: "'a Event" and q q' :: "'a Event list"
  assume "heap_sorted q" "pop_event q = Some (x, q')"
  then show "heap_sorted q' \<and> mset q = add_mset x (mset q') \<and> (\<forall>y \<in># mset q'. ev_before x y)"
    by (auto simp: pop_event_def heap_sorted_def split: list.splits)
qed (auto simp: pop_event_def heap_push_sorted intro: ev_before_trans split: list.splits)

lemma eq_pop_min_heap:
  "eq_pop_min q = (case pop_event (eq_heap q) of
     None \<Rightarrow> Inl LogicError
   | Some (e, rest) \<Rightarrow>
       Inr (e\<lparr>ev_cancelled := (ev_cancelled e \<or> ev_seq e |\<in>| eq_cancelled q)\<rparr>,
            \<lparr>eq_heap = rest, eq_cancelled = eq_cancelled q |-| {|ev_seq e|}\<rparr>))"
  by (cases q) (auto simp: eq_pop_min_def pop_event_def Let_def split: list.splits)

end
