(* ===== verification/Simulator.thy ===== *)
theory Simulator
  imports Prng Event_Queue
begin

text \<open>
  \<open>src/sim/simulator.cpp\<close> and \<open>src/sim/simulator.hpp\<close>: the logical clock, the event loop and
  the fingerprint of a run.

  The closures in the queue act on the whole simulated world, of which the simulator is a part. So
  the loops take the world with a way to read and replace its simulator and the meaning of an action;
  they may run forever, so they are \<open>partial_function\<close>s.
\<close>

unbundle bit_operations_syntax

section \<open>State and scheduling\<close>

record 'a Simulator =
  sm_clock :: SimTime
  sm_next_seq :: u64
  sm_trace_hash :: u64
  sm_prng :: Prng
  sm_queue :: "'a EventQueue"

definition kFnvOffset :: u64 where
  "kFnvOffset = 14695981039346656037"

definition kFnvPrime :: u64 where
  "kFnvPrime = 1099511628211"

definition sim_init :: "u64 \<Rightarrow> 'a Simulator" where
  "sim_init seed =
     \<lparr>sm_clock = 0, sm_next_seq = 0, sm_trace_hash = kFnvOffset, sm_prng = prng_init seed,
      sm_queue = eq_empty_queue\<rparr>"

definition sim_schedule_at :: "SimTime \<Rightarrow> 'a \<Rightarrow> 'a Simulator \<Rightarrow> EventId \<times> 'a Simulator" where
  "sim_schedule_at t act s =
     (let sq = sm_next_seq s;
          s = s\<lparr>sm_next_seq := sq + 1\<rparr>;
          (i, q) = eq_push t sq act (sm_queue s)
      in (i, s\<lparr>sm_queue := q\<rparr>))"

definition sim_schedule :: "SimTime \<Rightarrow> 'a \<Rightarrow> 'a Simulator \<Rightarrow> EventId \<times> 'a Simulator" where
  "sim_schedule delay act s = sim_schedule_at (sm_clock s + delay) act s"

definition sim_cancel :: "EventId \<Rightarrow> 'a Simulator \<Rightarrow> 'a Simulator" where
  "sim_cancel i s = s\<lparr>sm_queue := eq_cancel i (sm_queue s)\<rparr>"

definition sim_random_range :: "u64 \<Rightarrow> u64 \<Rightarrow> 'a Simulator \<Rightarrow> (u64 \<times> 'a Simulator) run" where
  "sim_random_range lo hi s =
     bindX (prng_range lo hi (sm_prng s)) (\<lambda>(v, p). Some (Inr (v, s\<lparr>sm_prng := p\<rparr>)))"

section \<open>The event loop\<close>

fun fnv_fold :: "nat \<Rightarrow> u64 \<Rightarrow> u64 \<Rightarrow> u64" where
  "fnv_fold 0 v h = h"
| "fnv_fold (Suc k) v h = fnv_fold k (drop_bit 8 v) ((h XOR (v AND 0xFF)) * kFnvPrime)"

definition trace_fold :: "u64 \<Rightarrow> u64 \<Rightarrow> u64" where
  "trace_fold v h = fnv_fold 8 v h"

text \<open>
  \<open>process_one\<close> up to the call of the action: the action to run, or none if the event was
  cancelled.
\<close>

definition sim_step :: "'a Simulator \<Rightarrow> exn + ('a option \<times> 'a Simulator)" where
  "sim_step s =
     bindR (eq_pop_min (sm_queue s)) (\<lambda>(e, q).
       let s = s\<lparr>sm_queue := q\<rparr>;
           s = s\<lparr>sm_clock := ev_time e\<rparr>
       in if ev_cancelled e then Inr (None, s)
          else
            let s = s\<lparr>sm_trace_hash := trace_fold (ev_time e) (sm_trace_hash s)\<rparr>;
                s = s\<lparr>sm_trace_hash := trace_fold (ev_seq e) (sm_trace_hash s)\<rparr>
            in Inr (Some (ev_action e), s))"

definition process_one ::
  "('w \<Rightarrow> 'a Simulator) \<Rightarrow> ('a Simulator \<Rightarrow> 'w \<Rightarrow> 'w) \<Rightarrow> ('a \<Rightarrow> 'w \<Rightarrow> 'w run) \<Rightarrow> 'w \<Rightarrow> 'w run" where
  "process_one get put exec w =
     (case sim_step (get w) of
        Inl e \<Rightarrow> Some (Inl e)
      | Inr (a, s) \<Rightarrow> (case a of None \<Rightarrow> Some (Inr (put s w)) | Some act \<Rightarrow> exec act (put s w)))"

partial_function (option) run_until_idle ::
  "('w \<Rightarrow> 'a Simulator) \<Rightarrow> ('a Simulator \<Rightarrow> 'w \<Rightarrow> 'w) \<Rightarrow> ('a \<Rightarrow> 'w \<Rightarrow> 'w run) \<Rightarrow> 'w \<Rightarrow> 'w run" where
  "run_until_idle get put exec w =
     (if eq_empty (sm_queue (get w)) then Some (Inr w)
      else case process_one get put exec w of
             None \<Rightarrow> None
           | Some (Inl e) \<Rightarrow> Some (Inl e)
           | Some (Inr w) \<Rightarrow> run_until_idle get put exec w)"

definition due :: "SimTime \<Rightarrow> 'a Simulator \<Rightarrow> bool" where
  "due deadline s \<longleftrightarrow>
     \<not> eq_empty (sm_queue s) \<and> (case eq_peek_time (sm_queue s) of Some t \<Rightarrow> t \<le> deadline | None \<Rightarrow> False)"

partial_function (option) run_due ::
  "('w \<Rightarrow> 'a Simulator) \<Rightarrow> ('a Simulator \<Rightarrow> 'w \<Rightarrow> 'w) \<Rightarrow> ('a \<Rightarrow> 'w \<Rightarrow> 'w run) \<Rightarrow> SimTime \<Rightarrow> 'w \<Rightarrow> 'w run" where
  "run_due get put exec deadline w =
     (if due deadline (get w) then
        case process_one get put exec w of
          None \<Rightarrow> None
        | Some (Inl e) \<Rightarrow> Some (Inl e)
        | Some (Inr w) \<Rightarrow> run_due get put exec deadline w
      else Some (Inr w))"

definition run_for ::
  "('w \<Rightarrow> 'a Simulator) \<Rightarrow> ('a Simulator \<Rightarrow> 'w \<Rightarrow> 'w) \<Rightarrow> ('a \<Rightarrow> 'w \<Rightarrow> 'w run) \<Rightarrow> SimTime \<Rightarrow> 'w \<Rightarrow> 'w run" where
  "run_for get put exec duration w =
     (let deadline = sm_clock (get w) + duration
      in bindX (run_due get put exec deadline w) (\<lambda>w.
           Some (Inr (put ((get w)\<lparr>sm_clock := deadline\<rparr>) w))))"

section \<open>Invariant\<close>

text \<open>
  The queue is sorted, events are numbered below the counter and pairwise differently, none is
  marked as cancelled inside the heap, and none lies in the past.
\<close>

definition sim_inv :: "'a Simulator \<Rightarrow> bool" where
  "sim_inv s \<longleftrightarrow>
     heap_sorted (eq_heap (sm_queue s))
     \<and> (\<forall>e \<in> set (eq_heap (sm_queue s)). ev_seq e < sm_next_seq s \<and> sm_clock s \<le> ev_time e \<and> \<not> ev_cancelled e)
     \<and> distinct (map ev_seq (eq_heap (sm_queue s)))"

lemma sim_init_inv: "sim_inv (sim_init seed)"
  by (simp add: sim_inv_def sim_init_def eq_empty_queue_def heap_sorted_def)

lemma sim_schedule_at_fields [simp]:
  "sm_clock (snd (sim_schedule_at t a s)) = sm_clock s"
  "sm_next_seq (snd (sim_schedule_at t a s)) = sm_next_seq s + 1"
  "sm_prng (snd (sim_schedule_at t a s)) = sm_prng s"
  "fst (sim_schedule_at t a s) = sm_next_seq s"
  "eq_cancelled (sm_queue (snd (sim_schedule_at t a s))) = eq_cancelled (sm_queue s)"
  "eq_heap (sm_queue (snd (sim_schedule_at t a s))) =
     heap_push \<lparr>ev_time = t, ev_seq = sm_next_seq s, ev_action = a, ev_cancelled = False\<rparr> (eq_heap (sm_queue s))"
  by (simp_all add: sim_schedule_at_def eq_push_def Let_def)

lemma distinct_heap_push:
  "distinct (map f (heap_push e xs)) \<longleftrightarrow> f e \<notin> f ` set xs \<and> distinct (map f xs)"
  by (induction xs) auto

lemma sim_schedule_at_inv:
  assumes inv: "sim_inv s" and t: "sm_clock s \<le> t" and room: "sm_next_seq s \<noteq> - 1"
  shows "sim_inv (snd (sim_schedule_at t a s))"
proof -
  have succ: "sm_next_seq s < sm_next_seq s + 1"
    using unat_succ_64 [of "sm_next_seq s" "- 1"] room by (simp add: word_order.not_eq_extremum word_less_unat)
  have "ev_seq e < sm_next_seq s + 1" "ev_seq e \<noteq> sm_next_seq s" if "e \<in> set (eq_heap (sm_queue s))" for e
    using that inv succ by (auto simp: sim_inv_def dest: order.strict_trans)
  with inv t succ show ?thesis
    by (auto simp: sim_inv_def heap_push_sorted distinct_heap_push)
qed

lemma sim_cancel_fields [simp]:
  "sm_clock (sim_cancel i s) = sm_clock s" "sm_next_seq (sim_cancel i s) = sm_next_seq s"
  "sm_prng (sim_cancel i s) = sm_prng s" "eq_heap (sm_queue (sim_cancel i s)) = eq_heap (sm_queue s)"
  "eq_cancelled (sm_queue (sim_cancel i s)) = finsert i (eq_cancelled (sm_queue s))"
  by (simp_all add: sim_cancel_def eq_cancel_def)

lemma sim_cancel_inv: "sim_inv s \<Longrightarrow> sim_inv (sim_cancel i s)"
  by (simp add: sim_inv_def sim_cancel_def eq_cancel_def)

lemma sim_inv_prng: "sim_inv s \<Longrightarrow> sim_inv (s\<lparr>sm_prng := p\<rparr>)"
  by (simp add: sim_inv_def)

text \<open>A step takes the head of the queue and, unless it was cancelled, yields its action.\<close>

lemma sim_stepE:
  assumes "sim_inv s" "sim_step s = Inr (a, s')"
  obtains e rest where "eq_heap (sm_queue s) = e # rest" "sm_clock s' = ev_time e"
    "eq_heap (sm_queue s') = rest" "sm_next_seq s' = sm_next_seq s"
    "eq_cancelled (sm_queue s') = eq_cancelled (sm_queue s) |-| {|ev_seq e|}"
    "a = (if ev_seq e |\<in>| eq_cancelled (sm_queue s) then None else Some (ev_action e))"
    "sm_prng s' = sm_prng s"
proof (cases "eq_heap (sm_queue s)")
  case Nil
  with assms(2) show ?thesis by (simp add: sim_step_def eq_pop_min_def)
next
  case (Cons e rest)
  then have "\<not> ev_cancelled e" using assms(1) by (simp add: sim_inv_def)
  with Cons assms(2) show ?thesis
    by (intro that [of e rest]) (auto simp: sim_step_def eq_pop_min_def Let_def split: if_splits)
qed

lemma sim_step_inv:
  assumes "sim_inv s" "sim_step s = Inr (a, s')"
  shows "sim_inv s' \<and> sm_clock s \<le> sm_clock s'"
proof -
  from assms obtain e rest where s: "eq_heap (sm_queue s) = e # rest" "sm_clock s' = ev_time e"
    "eq_heap (sm_queue s') = rest" "sm_next_seq s' = sm_next_seq s" by (rule sim_stepE)
  have "ev_time e \<le> ev_time x" if "x \<in> set rest" for x
    using that assms(1) s(1) by (auto simp: sim_inv_def heap_sorted_def ev_before_key word_le_unat)
  with assms(1) s show ?thesis by (auto simp: sim_inv_def heap_sorted_def)
qed

lemma sim_step_empty: "sim_step s = Inl e \<longleftrightarrow> e = LogicError \<and> eq_empty (sm_queue s)"
  by (auto simp: sim_step_def eq_pop_min_def eq_empty_def Let_def bindR_def split: list.splits sum.splits if_splits)

section \<open>Runs of the simulator\<close>

text \<open>
  Everything that can happen to a simulator, in any order: scheduling (without overflow of the clock or the
  counter), cancelling, drawing random numbers, and processing events. The list is the log of
  executed events, as \<open>(time, seq)\<close> pairs.
\<close>

inductive sim_run :: "'a Simulator \<Rightarrow> (SimTime \<times> u64) list \<Rightarrow> 'a Simulator \<Rightarrow> bool" for s0 where
  start: "sim_run s0 [] s0"
| schedule: "sim_run s0 l s \<Longrightarrow> sm_clock s \<le> sm_clock s + d \<Longrightarrow> sm_next_seq s \<noteq> - 1 \<Longrightarrow>
    sim_run s0 l (snd (sim_schedule d act s))"
| cancel: "sim_run s0 l s \<Longrightarrow> sim_run s0 l (sim_cancel i s)"
| random: "sim_run s0 l s \<Longrightarrow> sim_random_range lo hi s = Some (Inr (v, s')) \<Longrightarrow> sim_run s0 l s'"
| skip: "sim_run s0 l s \<Longrightarrow> sim_step s = Inr (None, s') \<Longrightarrow> sim_run s0 l s'"
| exec: "sim_run s0 l s \<Longrightarrow> sim_step s = Inr (Some act, s') \<Longrightarrow> eq_heap (sm_queue s) = e # rest \<Longrightarrow>
    sim_run s0 (l @ [(ev_time e, ev_seq e)]) s'"

definition earlier :: "SimTime \<times> u64 \<Rightarrow> SimTime \<times> u64 \<Rightarrow> bool" where
  "earlier a b \<longleftrightarrow> fst a < fst b \<or> fst a = fst b \<and> snd a < snd b"

definition log_inv_sim :: "(SimTime \<times> u64) list \<Rightarrow> 'a Simulator \<Rightarrow> bool" where
  "log_inv_sim l s \<longleftrightarrow> sim_inv s \<and> sorted_wrt earlier l
     \<and> (\<forall>x \<in> set l. fst x \<le> sm_clock s \<and> snd x < sm_next_seq s
          \<and> (\<forall>e \<in> set (eq_heap (sm_queue s)). earlier x (ev_time e, ev_seq e)))"

lemma heap_head_earlier:
  assumes "sim_inv s" "eq_heap (sm_queue s) = e # rest" "x \<in> set rest"
  shows "earlier (ev_time e, ev_seq e) (ev_time x, ev_seq x)"
proof -
  have "ev_before e x" "ev_seq e \<noteq> ev_seq x"
    using assms by (auto simp: sim_inv_def heap_sorted_def)
  then show ?thesis
    by (auto simp: earlier_def ev_before_key word_less_unat word_eq_unat)
qed

lemma earlier_trans: "earlier a b \<Longrightarrow> earlier b c \<Longrightarrow> earlier a c"
  unfolding earlier_def by (elim disjE conjE) (auto dest: order.strict_trans)

lemma log_inv_schedule:
  assumes inv: "log_inv_sim l s" and t: "sm_clock s \<le> t" and room: "sm_next_seq s \<noteq> - 1"
  shows "log_inv_sim l (snd (sim_schedule_at t a s))"
proof -
  have succ: "sm_next_seq s < sm_next_seq s + 1"
    using unat_succ_64 [of "sm_next_seq s" "- 1"] room by (simp add: word_order.not_eq_extremum word_less_unat)
  have old: "fst x \<le> sm_clock s" "snd x < sm_next_seq s"
    "\<forall>e \<in> set (eq_heap (sm_queue s)). earlier x (ev_time e, ev_seq e)" if "x \<in> set l" for x
    using that inv by (auto simp: log_inv_sim_def)
  have "snd x < sm_next_seq s + 1" "earlier x (t, sm_next_seq s)" if "x \<in> set l" for x
    using old(1,2) [OF that] t succ by (auto simp: earlier_def word_less_unat word_le_unat word_eq_unat)
  with inv old sim_schedule_at_inv [OF _ t room] show ?thesis
    by (simp add: log_inv_sim_def)
qed

lemma log_inv_step:
  assumes inv: "log_inv_sim l s" and step: "sim_step s = Inr (a, s')"
  shows "log_inv_sim l s'" "a = Some act \<Longrightarrow> eq_heap (sm_queue s) = e # rest \<Longrightarrow>
    log_inv_sim (l @ [(ev_time e, ev_seq e)]) s'"
proof -
  have sinv: "sim_inv s" using inv by (simp add: log_inv_sim_def)
  from sinv step obtain e' rest' where s: "eq_heap (sm_queue s) = e' # rest'" "sm_clock s' = ev_time e'"
    "eq_heap (sm_queue s') = rest'" "sm_next_seq s' = sm_next_seq s" by (rule sim_stepE)
  have s': "sim_inv s'" "sm_clock s \<le> ev_time e'" using sim_step_inv [OF sinv step] s(2) by simp_all
  have old: "fst x \<le> ev_time e'" "snd x < sm_next_seq s'" "earlier x (ev_time e', ev_seq e')"
    "\<forall>y \<in> set rest'. earlier x (ev_time y, ev_seq y)" if "x \<in> set l" for x
    using that inv s s'(2) by (auto simp: log_inv_sim_def intro: order_trans)
  then show log: "log_inv_sim l s'"
    using inv s s' by (simp add: log_inv_sim_def)
  assume "eq_heap (sm_queue s) = e # rest"
  then have e: "e' = e" "rest' = rest" using s(1) by simp_all
  have "ev_seq e < sm_next_seq s'" using sinv s e by (simp add: sim_inv_def)
  moreover have "\<forall>y \<in> set rest. earlier (ev_time e, ev_seq e) (ev_time y, ev_seq y)"
    using heap_head_earlier [OF sinv s(1)] e by blast
  moreover have "sorted_wrt earlier (l @ [(ev_time e, ev_seq e)])"
    using old(3) inv e by (simp add: sorted_wrt_append log_inv_sim_def)
  ultimately show "log_inv_sim (l @ [(ev_time e, ev_seq e)]) s'"
    using log s e by (simp add: log_inv_sim_def)
qed

lemma sim_random_range_sim:
  "sim_random_range lo hi s = Some (Inr (v, s')) \<Longrightarrow> \<exists>p. s' = s\<lparr>sm_prng := p\<rparr>"
  by (auto simp: sim_random_range_def bindX_eq_ret)

lemma log_inv_prng: "log_inv_sim l (s\<lparr>sm_prng := p\<rparr>) = log_inv_sim l s"
  by (simp add: log_inv_sim_def sim_inv_def)

lemma sim_run_log_inv: "sim_run s0 l s \<Longrightarrow> sim_inv s0 \<Longrightarrow> log_inv_sim l s"
proof (induction rule: sim_run.induct)
  case start
  then show ?case by (simp add: log_inv_sim_def)
next
  case (schedule l s d act)
  then show ?case by (simp add: sim_schedule_def log_inv_schedule)
next
  case (cancel l s i)
  then show ?case by (simp add: log_inv_sim_def sim_cancel_inv)
next
  case (random l s lo hi v s')
  from sim_random_range_sim [OF random(2)] obtain p where "s' = s\<lparr>sm_prng := p\<rparr>" by blast
  with random show ?case by (simp add: log_inv_prng)
next
  case (skip l s s')
  then show ?case by (simp add: log_inv_step(1))
next
  case (exec l s act s' e rest)
  then show ?case by (simp add: log_inv_step(2) [OF _ exec(2) refl exec(3)])
qed

text \<open>An issued event that is marked, pending or not, is never executed afterwards.\<close>

definition dead_event :: "u64 \<Rightarrow> 'a Simulator \<Rightarrow> bool" where
  "dead_event i s \<longleftrightarrow> sim_inv s \<and> i < sm_next_seq s
     \<and> ((\<exists>e \<in> set (eq_heap (sm_queue s)). ev_seq e = i) \<longrightarrow> i |\<in>| eq_cancelled (sm_queue s))"

lemma dead_event_step:
  assumes dead: "dead_event i s" and step: "sim_step s = Inr (a, s')"
  shows "dead_event i s'" "a = Some act \<Longrightarrow> eq_heap (sm_queue s) = e # rest \<Longrightarrow> ev_seq e \<noteq> i"
proof -
  have sinv: "sim_inv s" using dead by (simp add: dead_event_def)
  from sinv step obtain e' rest' where s: "eq_heap (sm_queue s) = e' # rest'" "sm_clock s' = ev_time e'"
    "eq_heap (sm_queue s') = rest'" "sm_next_seq s' = sm_next_seq s"
    "eq_cancelled (sm_queue s') = eq_cancelled (sm_queue s) |-| {|ev_seq e'|}"
    "a = (if ev_seq e' |\<in>| eq_cancelled (sm_queue s) then None else Some (ev_action e'))" by (rule sim_stepE)
  have "ev_seq e' \<notin> ev_seq ` set rest'" using sinv s(1) by (simp add: sim_inv_def)
  then have "ev_seq y \<noteq> ev_seq e'" if "y \<in> set rest'" for y
    using that by (metis imageI)
  then show "dead_event i s'"
    using dead s sim_step_inv [OF sinv step] by (auto simp: dead_event_def)
  show "ev_seq e \<noteq> i" if "a = Some act" "eq_heap (sm_queue s) = e # rest"
    using that s dead by (auto simp: dead_event_def split: if_splits)
qed

lemma dead_event_run: "sim_run s0 l s \<Longrightarrow> dead_event i s0 \<Longrightarrow> dead_event i s \<and> i \<notin> snd ` set l"
proof (induction rule: sim_run.induct)
  case (schedule l s d act)
  have "sm_next_seq s < sm_next_seq s + 1"
    using unat_succ_64 [of "sm_next_seq s" "- 1"] schedule(3) by (simp add: word_order.not_eq_extremum word_less_unat)
  with schedule show ?case
    by (auto simp: dead_event_def sim_schedule_def sim_schedule_at_inv dest: order.strict_trans)
next
  case (cancel l s j)
  then show ?case by (simp add: dead_event_def sim_cancel_inv)
next
  case (random l s lo hi v s')
  then show ?case by (auto dest!: sim_random_range_sim simp: dead_event_def sim_inv_prng)
next
  case (skip l s s')
  then show ?case using dead_event_step(1) by blast
next
  case (exec l s act s' e rest)
  then show ?case using dead_event_step [of i s "Some act" s'] by auto
qed simp

section \<open>Simulated worlds\<close>

text \<open>
  What a world owes the event loop: its simulator can be read back after being replaced. The loops
  then end as their guards say.
\<close>

definition keeps :: "('w \<Rightarrow> bool) \<Rightarrow> ('w \<Rightarrow> 'a Simulator) \<Rightarrow> ('a Simulator \<Rightarrow> 'w \<Rightarrow> 'w) \<Rightarrow> ('a \<Rightarrow> 'w \<Rightarrow> 'w run) \<Rightarrow> SimTime \<Rightarrow>
    'w \<Rightarrow> exn + 'w \<Rightarrow> bool" where
  "keeps Q g pt ex d v r \<longleftrightarrow>
     (\<forall>u u'. Q u \<longrightarrow> due d (g u) \<longrightarrow> process_one g pt ex u = Some (Inr u') \<longrightarrow> Q u') \<longrightarrow> Q v \<longrightarrow> (\<forall>u. r = Inr u \<longrightarrow> Q u)"

locale sim_world =
  fixes get :: "'w \<Rightarrow> 'a Simulator" and put :: "'a Simulator \<Rightarrow> 'w \<Rightarrow> 'w" and exec :: "'a \<Rightarrow> 'w \<Rightarrow> 'w run"
  assumes get_put: "get (put s w) = s"
begin

lemma run_due_done:
  assumes "run_due get put exec deadline w = Some r"
  shows "\<forall>w'. r = Inr w' \<longrightarrow> \<not> due deadline (get w')"
  by (rule run_due.raw_induct [where P = "\<lambda>get put exec deadline w r. \<forall>w'. r = Inr w' \<longrightarrow> \<not> due deadline (get w')",
      OF _ assms]) (auto split: if_splits option.splits sum.splits)

lemma run_due_invariant:
  assumes "run_due get put exec deadline w = Some (Inr w')" "Q w"
    and "\<And>v v'. Q v \<Longrightarrow> due deadline (get v) \<Longrightarrow> process_one get put exec v = Some (Inr v') \<Longrightarrow> Q v'"
  shows "Q w'"
proof -
  have "keeps Q get put exec deadline w (Inr w')"
  proof (rule run_due.raw_induct [where P = "keeps Q", OF _ assms(1)])
    fix rd g pt ex d v r
    assume IH: "\<And>g pt ex d v r. rd g pt ex d v = Some r \<Longrightarrow> keeps Q g pt ex d v r"
      and body: "(if due d (g v) then case process_one g pt ex v of None \<Rightarrow> None | Some (Inl e) \<Rightarrow> Some (Inl e)
          | Some (Inr w) \<Rightarrow> rd g pt ex d w else Some (Inr v)) = Some r"
    show "keeps Q g pt ex d v r"
    proof (cases "due d (g v)")
      case True
      with body consider e where "r = Inl e" | u where "process_one g pt ex v = Some (Inr u)" "rd g pt ex d u = Some r"
        by (auto split: option.splits sum.splits)
      then show ?thesis
      proof cases
        case 1
        then show ?thesis by (simp add: keeps_def)
      next
        case 2
        from IH [OF 2(2)] show ?thesis using True 2(1) unfolding keeps_def by blast
      qed
    next
      case False
      with body have "r = Inr v" by simp
      then show ?thesis by (simp add: keeps_def)
    qed
  qed
  with assms(2,3) show ?thesis unfolding keeps_def by blast
qed

lemma run_for_invariant:
  assumes "run_for get put exec duration w = Some (Inr w')" "Q w"
    and "\<And>v v'. Q v \<Longrightarrow> due (sm_clock (get w) + duration) (get v) \<Longrightarrow> process_one get put exec v = Some (Inr v') \<Longrightarrow> Q v'"
    and "\<And>v. Q v \<Longrightarrow> \<not> due (sm_clock (get w) + duration) (get v) \<Longrightarrow>
      Q (put ((get v)\<lparr>sm_clock := sm_clock (get w) + duration\<rparr>) v)"
  shows "Q w'"
proof -
  from assms(1) obtain v where v: "run_due get put exec (sm_clock (get w) + duration) w = Some (Inr v)"
    and w': "w' = put ((get v)\<lparr>sm_clock := sm_clock (get w) + duration\<rparr>) v"
    by (auto simp: run_for_def Let_def bindX_eq_ret)
  have "Q v" by (rule run_due_invariant [where Q = Q, OF v assms(2,3)])
  moreover have "\<not> due (sm_clock (get w) + duration) (get v)" using run_due_done [OF v] by blast
  ultimately show ?thesis unfolding w' by (rule assms(4))
qed

lemma run_for_clock:
  assumes "run_for get put exec duration w = Some (Inr w')"
  shows "sm_clock (get w') = sm_clock (get w) + duration"
  using assms by (auto simp: run_for_def Let_def bindX_eq_ret get_put)

lemma run_for_done:
  assumes "run_for get put exec duration w = Some (Inr w')"
  shows "\<not> due (sm_clock (get w) + duration) (get w')"
proof -
  from assms obtain v where "run_due get put exec (sm_clock (get w) + duration) w = Some (Inr v)"
    and w': "w' = put ((get v)\<lparr>sm_clock := sm_clock (get w) + duration\<rparr>) v"
    by (auto simp: run_for_def Let_def bindX_eq_ret)
  then have "\<not> due (sm_clock (get w) + duration) (get v)" using run_due_done by blast
  then show ?thesis by (simp add: w' get_put due_def)
qed

end

section \<open>Properties\<close>

text \<open>
  C15. Whatever is scheduled, cancelled and drawn in between, a simulator executes events in strictly
  increasing order of \<open>(time, seq)\<close>: time never goes back, ties are broken by the order of
  scheduling, and no event runs twice.
\<close>

theorem sim_executes_in_order:
  assumes "sim_run (sim_init seed) l s"
  shows "sorted_wrt earlier l \<and> distinct l"
proof -
  have l: "sorted_wrt earlier l"
    using sim_run_log_inv [OF assms sim_init_inv] by (simp add: log_inv_sim_def)
  moreover have "sorted_wrt earlier xs \<Longrightarrow> distinct xs" for xs
    by (induction xs) (auto simp: earlier_def)
  ultimately show ?thesis by blast
qed

theorem sim_executes_in_order_witness:
  "\<exists>s :: nat Simulator. sim_run (sim_init 1) [(3, 1), (5, 0)] s \<and> sorted_wrt earlier [(3, 1), (5, 0)]"
proof -
  let ?s0 = "sim_init 1 :: nat Simulator"
  let ?s1 = "snd (sim_schedule 5 10 ?s0)"
  let ?s2 = "snd (sim_schedule 3 20 ?s1)"
  let ?e = "\<lparr>ev_time = 5, ev_seq = 0, ev_action = 10, ev_cancelled = False\<rparr> :: nat Event"
  let ?f = "\<lparr>ev_time = 3, ev_seq = 1, ev_action = 20, ev_cancelled = False\<rparr> :: nat Event"
  have init: "sm_clock ?s0 = 0" "sm_next_seq ?s0 = 0" "sm_queue ?s0 = eq_empty_queue"
    by (simp_all add: sim_init_def)
  have heap: "eq_heap (sm_queue ?s2) = [?f, ?e]" "eq_cancelled (sm_queue ?s2) = {||}"
    by (simp_all add: sim_schedule_def init eq_empty_queue_def ev_before_def)
  have run: "sim_run ?s0 [] ?s2"
    by (intro sim_run.schedule sim_run.start) (simp_all add: init sim_schedule_def)
  obtain s3 where s3: "sim_step ?s2 = Inr (Some 20, s3)" "eq_heap (sm_queue s3) = [?e]"
    "eq_cancelled (sm_queue s3) = {||}"
    using heap by (auto simp: sim_step_def eq_pop_min_def Let_def)
  obtain s4 where s4: "sim_step s3 = Inr (Some 10, s4)"
    using s3 by (auto simp: sim_step_def eq_pop_min_def Let_def)
  have "sim_run ?s0 ([] @ [(ev_time ?f, ev_seq ?f)]) s3" by (rule sim_run.exec [OF run s3(1) heap(1)])
  then have "sim_run ?s0 (([] @ [(ev_time ?f, ev_seq ?f)]) @ [(ev_time ?e, ev_seq ?e)]) s4"
    by (rule sim_run.exec [OF _ s4 s3(2)])
  then have "sim_run ?s0 [(3, 1), (5, 0)] s4" by simp
  with sim_executes_in_order [OF this] show ?thesis by blast
qed



end
