(* ===== verification/Network.thy ===== *)
theory Network
  imports Simulator
begin

text \<open>
  \<open>src/sim/network.cpp\<close> and \<open>src/sim/network.hpp\<close>: the simulated network with loss,
  duplication, random latency and partitions.

  A handler is a value of any type \<open>'h\<close>. The closure given to \<open>schedule\<close>, which calls the
  handler with a message, is the action \<open>mk fn from dest payload\<close> for a constructor
  \<open>mk\<close> of the simulator's action type. Sending draws from the simulator's generator, so its result
  is a \<open>run\<close>: \<open>None\<close> if a draw never returns, an error if the latency bounds are
  out of order.
\<close>

section \<open>State\<close>

record NetworkConfig =
  nc_min_latency :: SimTime
  nc_max_latency :: SimTime
  nc_drop_prob :: rat
  nc_dup_prob :: rat

definition default_network_config :: NetworkConfig where
  "default_network_config =
     \<lparr>nc_min_latency = 1 * 1000, nc_max_latency = 20 * 1000, nc_drop_prob = 0, nc_dup_prob = 0\<rparr>"

record 'h Network =
  nw_cfg :: NetworkConfig
  nw_handlers :: "(NodeId, 'h) omap"
  nw_partition_group :: "(NodeId, int) omap"
  nw_partitioned :: bool

definition network_init :: "NetworkConfig \<Rightarrow> 'h Network" where
  "network_init cfg = \<lparr>nw_cfg = cfg, nw_handlers = [], nw_partition_group = [], nw_partitioned = False\<rparr>"

definition net_set_handler :: "NodeId \<Rightarrow> 'h \<Rightarrow> 'h Network \<Rightarrow> 'h Network" where
  "net_set_handler i h n = n\<lparr>nw_handlers := om_put i h (nw_handlers n)\<rparr>"

definition net_remove_handler :: "NodeId \<Rightarrow> 'h Network \<Rightarrow> 'h Network" where
  "net_remove_handler i n = n\<lparr>nw_handlers := om_erase i (nw_handlers n)\<rparr>"

definition set_drop_prob :: "rat \<Rightarrow> 'h Network \<Rightarrow> 'h Network" where
  "set_drop_prob p n = n\<lparr>nw_cfg := (nw_cfg n)\<lparr>nc_drop_prob := p\<rparr>\<rparr>"

definition set_dup_prob :: "rat \<Rightarrow> 'h Network \<Rightarrow> 'h Network" where
  "set_dup_prob p n = n\<lparr>nw_cfg := (nw_cfg n)\<lparr>nc_dup_prob := p\<rparr>\<rparr>"

definition set_latency :: "SimTime \<Rightarrow> SimTime \<Rightarrow> 'h Network \<Rightarrow> 'h Network" where
  "set_latency mn mx n = n\<lparr>nw_cfg := (nw_cfg n)\<lparr>nc_min_latency := mn, nc_max_latency := mx\<rparr>\<rparr>"

section \<open>Partitions\<close>

definition partition_groups :: "NodeId list list \<Rightarrow> (NodeId, int) omap" where
  "partition_groups groups =
     fold (\<lambda>(g, ids) m. fold (\<lambda>i m. om_put i (int g) m) ids m) (zip [0..<length groups] groups) []"

definition net_partition :: "NodeId list list \<Rightarrow> 'h Network \<Rightarrow> 'h Network" where
  "net_partition groups n = n\<lparr>nw_partition_group := partition_groups groups, nw_partitioned := True\<rparr>"

definition net_heal :: "'h Network \<Rightarrow> 'h Network" where
  "net_heal n = n\<lparr>nw_partition_group := [], nw_partitioned := False\<rparr>"

definition partitioned :: "NodeId \<Rightarrow> NodeId \<Rightarrow> 'h Network \<Rightarrow> bool" where
  "partitioned from dest n =
     (if \<not> nw_partitioned n then False
      else case (map_of (nw_partition_group n) from, map_of (nw_partition_group n) dest) of
             (Some f, Some t) \<Rightarrow> f \<noteq> t
           | _ \<Rightarrow> True)"

section \<open>Sending\<close>

definition deliver_once ::
  "('h \<Rightarrow> NodeId \<Rightarrow> NodeId \<Rightarrow> byte list \<Rightarrow> 'a) \<Rightarrow> 'h Network \<Rightarrow> NodeId \<Rightarrow> byte list \<Rightarrow> 'a Simulator \<Rightarrow> 'a Simulator run" where
  "deliver_once mk n dest p s =
     (case map_of (nw_handlers n) dest of
        None \<Rightarrow> Some (Inr s)
      | Some fn \<Rightarrow>
          bindX (sim_random_range (nc_min_latency (nw_cfg n)) (nc_max_latency (nw_cfg n) + 1) s) (\<lambda>(lat, s).
            Some (Inr (snd (sim_schedule lat (mk fn (- 1) dest p) s)))))"

definition send_copy ::
  "('h \<Rightarrow> NodeId \<Rightarrow> NodeId \<Rightarrow> byte list \<Rightarrow> 'a) \<Rightarrow> 'h Network \<Rightarrow> NodeId \<Rightarrow> NodeId \<Rightarrow> byte list \<Rightarrow>
   'a Simulator \<Rightarrow> 'a Simulator run" where
  "send_copy mk n from dest p s =
     (case map_of (nw_handlers n) dest of
        None \<Rightarrow> Some (Inr s)
      | Some fn \<Rightarrow>
          bindX (sim_random_range (nc_min_latency (nw_cfg n)) (nc_max_latency (nw_cfg n) + 1) s) (\<lambda>(lat, s).
            Some (Inr (snd (sim_schedule lat (mk fn from dest p) s)))))"

definition sim_bernoulli :: "rat \<Rightarrow> 'a Simulator \<Rightarrow> bool \<times> 'a Simulator" where
  "sim_bernoulli pr s = (let (b, p) = bernoulli pr (sm_prng s) in (b, s\<lparr>sm_prng := p\<rparr>))"

definition net_send ::
  "('h \<Rightarrow> NodeId \<Rightarrow> NodeId \<Rightarrow> byte list \<Rightarrow> 'a) \<Rightarrow> 'h Network \<Rightarrow> NodeId \<Rightarrow> NodeId \<Rightarrow> byte list \<Rightarrow>
   'a Simulator \<Rightarrow> 'a Simulator run" where
  "net_send mk n from dest p s =
     (if partitioned from dest n then Some (Inr s)
      else
        let (drop, s) = sim_bernoulli (nc_drop_prob (nw_cfg n)) s
        in if drop then Some (Inr s)
           else bindX (send_copy mk n from dest p s) (\<lambda>s.
                  let (dup, s) = sim_bernoulli (nc_dup_prob (nw_cfg n)) s
                  in if dup then send_copy mk n from dest p s else Some (Inr s)))"

section \<open>What sending does to the simulator\<close>

text \<open>
  The deliveries that one call may add: at most one event, for the registered handler, after a latency
  within the configured bounds.
\<close>

definition queues :: "'a Simulator \<Rightarrow> 'a Event list \<Rightarrow> 'a Simulator \<Rightarrow> bool" where
  "queues s evs s' \<longleftrightarrow>
     mset (eq_heap (sm_queue s')) = mset evs + mset (eq_heap (sm_queue s))
     \<and> sm_clock s' = sm_clock s \<and> eq_cancelled (sm_queue s') = eq_cancelled (sm_queue s)
     \<and> (heap_sorted (eq_heap (sm_queue s)) \<longrightarrow> heap_sorted (eq_heap (sm_queue s')))"

lemma queues_refl: "queues s [] s"
  by (simp add: queues_def)

lemma queues_trans: "queues s e s' \<Longrightarrow> queues s' f s'' \<Longrightarrow> queues s (f @ e) s''"
  by (simp add: queues_def)

lemma queues_prng: "queues s [] (s\<lparr>sm_prng := p\<rparr>)"
  by (simp add: queues_def)

lemma queues_bernoulli: "queues s [] (snd (sim_bernoulli pr s))"
  by (simp add: sim_bernoulli_def split_def Let_def queues_prng)

definition delivery ::
  "('h \<Rightarrow> NodeId \<Rightarrow> NodeId \<Rightarrow> byte list \<Rightarrow> 'a) \<Rightarrow> 'h Network \<Rightarrow> NodeId \<Rightarrow> NodeId \<Rightarrow> byte list \<Rightarrow> SimTime \<Rightarrow>
   'a Event \<Rightarrow> bool" where
  "delivery mk n from dest p now e \<longleftrightarrow>
     (\<exists>fn lat. map_of (nw_handlers n) dest = Some fn \<and> ev_action e = mk fn from dest p
        \<and> nc_min_latency (nw_cfg n) \<le> lat \<and> lat \<le> nc_max_latency (nw_cfg n) \<and> ev_time e = now + lat)"

lemma range_latency:
  assumes "sim_random_range lo (hi + 1) s = Some (Inr (v, s'))"
  shows "lo \<le> v \<and> v \<le> hi \<and> (\<exists>p. s' = s\<lparr>sm_prng := p\<rparr>)"
proof -
  from assms obtain p where r: "prng_range lo (hi + 1) (sm_prng s) = Some (Inr (v, p))" "s' = s\<lparr>sm_prng := p\<rparr>"
    by (auto simp: sim_random_range_def bindX_eq_ret)
  have v: "lo \<le> v" "v < hi + 1" using prng_range_bounds [OF r(1)] by simp_all
  have "hi \<noteq> - 1" using v(2) by auto
  then have "unat (hi + 1) = unat hi + 1"
    using unat_succ_64 [of hi "- 1"] by (simp add: word_order.not_eq_extremum)
  with v r(2) show ?thesis by (auto simp: word_less_unat word_le_unat)
qed

lemma send_copy_queues:
  assumes "send_copy mk n from dest p s = Some (Inr s')"
  shows "\<exists>evs. queues s evs s' \<and> length evs \<le> 1 \<and> (\<forall>e \<in> set evs. delivery mk n from dest p (sm_clock s) e)"
proof (cases "map_of (nw_handlers n) dest")
  case None
  with assms show ?thesis by (auto simp: send_copy_def intro!: exI [of _ "[]"] queues_refl)
next
  case (Some fn)
  with assms obtain lat s1 where
    r: "sim_random_range (nc_min_latency (nw_cfg n)) (nc_max_latency (nw_cfg n) + 1) s = Some (Inr (lat, s1))"
    and s': "s' = snd (sim_schedule lat (mk fn from dest p) s1)"
    by (auto simp: send_copy_def bindX_eq_ret)
  from range_latency [OF r] obtain pg where lat: "nc_min_latency (nw_cfg n) \<le> lat" "lat \<le> nc_max_latency (nw_cfg n)"
    and s1: "s1 = s\<lparr>sm_prng := pg\<rparr>" by blast
  let ?e = "\<lparr>ev_time = sm_clock s + lat, ev_seq = sm_next_seq s, ev_action = mk fn from dest p, ev_cancelled = False\<rparr>"
  have "queues s [?e] s'" by (simp add: queues_def s' s1 sim_schedule_def heap_push_sorted)
  moreover have "delivery mk n from dest p (sm_clock s) ?e"
    using Some lat by (auto simp: delivery_def)
  ultimately show ?thesis by (intro exI [of _ "[?e]"]) simp
qed

lemma net_send_queues:
  assumes "net_send mk n from dest p s = Some (Inr s')"
  shows "\<exists>evs. queues s evs s' \<and> length evs \<le> 2 \<and> (\<forall>e \<in> set evs. delivery mk n from dest p (sm_clock s) e)
    \<and> (partitioned from dest n \<longrightarrow> evs = [])"
proof (cases "partitioned from dest n")
  case True
  with assms show ?thesis by (auto simp: net_send_def intro!: exI [of _ "[]"] queues_refl)
next
  case False
  obtain d s1 where d: "sim_bernoulli (nc_drop_prob (nw_cfg n)) s = (d, s1)" by fastforce
  have q1: "queues s [] s1" using queues_bernoulli [of s] d by (metis snd_conv)
  show ?thesis
  proof (cases d)
    case True
    with assms False d q1 show ?thesis by (auto simp: net_send_def)
  next
    case nodrop: False
    with assms False d obtain s2 where s2: "send_copy mk n from dest p s1 = Some (Inr s2)"
      and rest: "(let (dup, s) = sim_bernoulli (nc_dup_prob (nw_cfg n)) s2
        in if dup then send_copy mk n from dest p s else Some (Inr s)) = Some (Inr s')"
      by (auto simp: net_send_def bindX_eq_ret)
    from send_copy_queues [OF s2] obtain e1 where e1: "queues s1 e1 s2" "length e1 \<le> 1"
      "\<forall>e \<in> set e1. delivery mk n from dest p (sm_clock s1) e" by blast
    obtain b s3 where b: "sim_bernoulli (nc_dup_prob (nw_cfg n)) s2 = (b, s3)" by fastforce
    have q3: "queues s2 [] s3" using queues_bernoulli [of s2] b by (metis snd_conv)
    have "\<exists>e2. queues s3 e2 s' \<and> length e2 \<le> 1 \<and> (\<forall>e \<in> set e2. delivery mk n from dest p (sm_clock s3) e)"
      using rest b send_copy_queues [of mk n "from" dest p s3 s'] queues_refl
      by (cases b) (auto intro!: exI [of _ "[]"])
    then obtain e2 where e2: "queues s3 e2 s'" "length e2 \<le> 1"
      "\<forall>e \<in> set e2. delivery mk n from dest p (sm_clock s3) e" by blast
    have clock: "sm_clock s1 = sm_clock s" "sm_clock s3 = sm_clock s"
      using q1 e1(1) q3 by (simp_all add: queues_def)
    have "queues s (e2 @ e1) s'"
      using queues_trans [OF q1 e1(1)] queues_trans [OF _ q3] queues_trans [OF _ e2(1)] by fastforce
    with e1 e2 clock False show ?thesis by (intro exI [of _ "e2 @ e1"]) auto
  qed
qed

section \<open>Partitions split the nodes\<close>

lemma map_of_fold_put: "map_of (fold (\<lambda>i m. om_put i v m) ids m) i = (if i \<in> set ids then Some v else map_of m i)"
  by (induction ids arbitrary: m) auto

lemma partition_groups_snoc:
  "partition_groups (gs @ [g]) = fold (\<lambda>i m. om_put i (int (length gs)) m) g (partition_groups gs)"
  by (simp add: partition_groups_def)

lemma map_of_partition_groups:
  assumes "\<And>a b i. a < b \<Longrightarrow> b < length gs \<Longrightarrow> i \<in> set (gs ! a) \<Longrightarrow> i \<notin> set (gs ! b)"
  shows "map_of (partition_groups gs) i = Some v \<longleftrightarrow> (\<exists>k < length gs. v = int k \<and> i \<in> set (gs ! k))"
  using assms
proof (induction gs arbitrary: v rule: rev_induct)
  case Nil
  then show ?case by (simp add: partition_groups_def)
next
  case (snoc g gs)
  have disj: "i \<notin> set (gs ! b)" if "a < b" "b < length gs" "i \<in> set (gs ! a)" for a b i
    using snoc.prems [of a b i] that by (simp add: nth_append)
  have IH: "map_of (partition_groups gs) i = Some v \<longleftrightarrow> (\<exists>k < length gs. v = int k \<and> i \<in> set (gs ! k))" for v
    using snoc.IH disj by blast
  have last: "i \<notin> set (gs ! k)" if "i \<in> set g" "k < length gs" for k
    using snoc.prems [of k "length gs" i] that by (auto simp: nth_append)
  show ?case
    unfolding partition_groups_snoc map_of_fold_put
    using IH last by (auto simp: nth_append less_Suc_eq)
qed

lemma partitioned_groups:
  assumes "\<And>a b i. a < b \<Longrightarrow> b < length gs \<Longrightarrow> i \<in> set (gs ! a) \<Longrightarrow> i \<notin> set (gs ! b)"
  shows "partitioned from dest (net_partition gs n) \<longleftrightarrow> \<not> (\<exists>g \<in> set gs. from \<in> set g \<and> dest \<in> set g)"
proof -
  let ?m = "partition_groups gs"
  have m: "map_of ?m i = Some v \<longleftrightarrow> (\<exists>k < length gs. v = int k \<and> i \<in> set (gs ! k))" for i v
    by (rule map_of_partition_groups) (use assms in blast)
  have "partitioned from dest (net_partition gs n) \<longleftrightarrow> \<not> (\<exists>v. map_of ?m from = Some v \<and> map_of ?m dest = Some v)"
    by (auto simp: partitioned_def net_partition_def split: option.splits)
  also have "\<dots> \<longleftrightarrow> \<not> (\<exists>k < length gs. from \<in> set (gs ! k) \<and> dest \<in> set (gs ! k))"
    using m by auto
  also have "\<dots> \<longleftrightarrow> \<not> (\<exists>g \<in> set gs. from \<in> set g \<and> dest \<in> set g)"
    by (metis in_set_conv_nth)
  finally show ?thesis .
qed

section \<open>Properties\<close>





end
