(* ===== verification/Raft_Log.thy ===== *)
theory Raft_Log
  imports Wal
begin

text \<open>
  \<open>src/raft/log.cpp\<close>: the in-memory Raft log. Absolute indices are 1-based 64-bit words;
  \<open>lg_entries ! i\<close> holds absolute index \<open>lg_base_index + i + 1\<close>, and everything up to
  \<open>lg_base_index\<close> has been compacted into a snapshot.

  \<open>log_inv\<close> is the class invariant: entries carry their own absolute index and the last index
  does not pass the 64-bit range. \<open>log_lookup\<close> is the abstract log, a partial function
  from absolute indices (as natural numbers) to entries; every mutator is specified on it.
\<close>

named_theorems log_simps \<open>log operations on natural-number indices\<close>

record RaftLog =
  lg_entries :: "LogEntry list"
  lg_base_index :: Index
  lg_base_term :: Term

definition log_init :: RaftLog where
  "log_init = \<lparr>lg_entries = [], lg_base_index = 0, lg_base_term = 0\<rparr>"

definition log_last_index :: "RaftLog \<Rightarrow> Index" where
  "log_last_index l = lg_base_index l + of_nat (length (lg_entries l))"

definition log_last_term :: "RaftLog \<Rightarrow> Term" where
  "log_last_term l = (if lg_entries l = [] then lg_base_term l else le_term (last (lg_entries l)))"

definition log_size :: "RaftLog \<Rightarrow> nat" where
  "log_size l = length (lg_entries l)"

definition log_append :: "LogEntry \<Rightarrow> RaftLog \<Rightarrow> exn + RaftLog" where
  "log_append e l =
     (if le_index e = log_last_index l + 1 then Inr (l\<lparr>lg_entries := lg_entries l @ [e]\<rparr>)
      else Inl AssertFail)"

definition log_truncate_from :: "Index \<Rightarrow> RaftLog \<Rightarrow> RaftLog" where
  "log_truncate_from from l =
     (if from \<le> lg_base_index l then l
      else if from > log_last_index l then l
      else l\<lparr>lg_entries := take (unat (from - lg_base_index l - 1)) (lg_entries l)\<rparr>)"

definition log_set_snapshot :: "Index \<Rightarrow> Term \<Rightarrow> RaftLog \<Rightarrow> RaftLog" where
  "log_set_snapshot idx trm l =
     (if idx \<le> lg_base_index l then l
      else let es = (if idx \<ge> log_last_index l then []
                     else drop (unat (idx - lg_base_index l)) (lg_entries l))
           in l\<lparr>lg_entries := es, lg_base_index := idx, lg_base_term := trm\<rparr>)"

definition log_at :: "Index \<Rightarrow> RaftLog \<Rightarrow> exn + LogEntry" where
  "log_at i l =
     (if i \<le> lg_base_index l \<or> i > log_last_index l then Inl OutOfRange
      else Inr (lg_entries l ! unat (i - lg_base_index l - 1)))"

definition log_term_at :: "Index \<Rightarrow> RaftLog \<Rightarrow> exn + Term" where
  "log_term_at i l =
     (if i = lg_base_index l then Inr (lg_base_term l) else mapR le_term (log_at i l))"

definition log_contains :: "Index \<Rightarrow> Term \<Rightarrow> RaftLog \<Rightarrow> bool" where
  "log_contains i t l =
     (if i = 0 then True
      else if i = lg_base_index l then t = lg_base_term l
      else if i < lg_base_index l then False
      else if i > log_last_index l then False
      else le_term (lg_entries l ! unat (i - lg_base_index l - 1)) = t)"

definition log_slice :: "Index \<Rightarrow> Index \<Rightarrow> RaftLog \<Rightarrow> LogEntry list" where
  "log_slice lo hi l =
     (if lo \<ge> hi then []
      else let start = max (lo + 1) (lg_base_index l + 1);
               end' = min hi (log_last_index l)
           in if start > end' then []
              else let a = unat (start - lg_base_index l - 1);
                       b = unat (end' - lg_base_index l)
                   in drop a (take b (lg_entries l)))"

fun rfind_term :: "Term \<Rightarrow> LogEntry list \<Rightarrow> Index option" where
  "rfind_term t [] = None"
| "rfind_term t (e # rest) = (if le_term e = t then Some (le_index e) else rfind_term t rest)"

definition log_last_index_for_term :: "Term \<Rightarrow> RaftLog \<Rightarrow> Index" where
  "log_last_index_for_term t l =
     (case rfind_term t (rev (lg_entries l)) of
        Some i \<Rightarrow> i
      | None \<Rightarrow> if lg_base_index l > 0 \<and> lg_base_term l = t then lg_base_index l else 0)"

section \<open>Serialisation\<close>

definition enc_entry :: "LogEntry \<Rightarrow> byte list" where
  "enc_entry e = enc_u64 (le_term e) @ enc_u64 (le_index e) @ enc_blob (encode_command (le_cmd e))"

definition dec_entry :: "byte list \<Rightarrow> exn + (LogEntry \<times> byte list)" where
  "dec_entry bs =
     bindR (dec_u64 bs) (\<lambda>(t, r).
     bindR (dec_u64 r) (\<lambda>(i, r).
     bindR (dec_blob r) (\<lambda>(cmd_buf, r).
     bindR (decode_command cmd_buf) (\<lambda>c.
     Inr (\<lparr>le_term = t, le_index = i, le_cmd = c\<rparr>, r)))))"

definition log_bytes :: "RaftLog \<Rightarrow> byte list" where
  "log_bytes l =
     enc_u64 (lg_base_index l) @ enc_u64 (lg_base_term l)
     @ enc_u32 (of_nat (length (lg_entries l))) @ concat (map enc_entry (lg_entries l))"

definition log_save_to :: "RaftLog \<Rightarrow> DurableStore \<Rightarrow> DurableStore" where
  "log_save_to l s = ds_flush (ds_append (log_bytes l) s)"

definition log_load_from :: "DurableStore \<Rightarrow> RaftLog \<Rightarrow> exn + RaftLog" where
  "log_load_from s l =
     (let bs = ds_read_durable s in
      if bs = [] then Inr (l\<lparr>lg_entries := []\<rparr>)
      else
        bindR (dec_u64 bs) (\<lambda>(bi, r).
        bindR (dec_u64 r) (\<lambda>(bt, r).
        bindR (dec_u32 r) (\<lambda>(count, r).
        bindR (dec_n dec_entry (unat count) r) (\<lambda>(es, r).
        Inr \<lparr>lg_entries = es, lg_base_index = bi, lg_base_term = bt\<rparr>)))))"

section \<open>Invariant and abstract log\<close>

definition log_inv :: "RaftLog \<Rightarrow> bool" where
  "log_inv l \<longleftrightarrow>
     unat (lg_base_index l) + length (lg_entries l) < 2 ^ 64 \<and>
     (\<forall>i < length (lg_entries l). unat (le_index (lg_entries l ! i)) = unat (lg_base_index l) + i + 1)"

definition log_lookup :: "RaftLog \<Rightarrow> nat \<Rightarrow> LogEntry option" where
  "log_lookup l i =
     (if unat (lg_base_index l) < i \<and> i \<le> unat (lg_base_index l) + length (lg_entries l)
      then Some (lg_entries l ! (i - unat (lg_base_index l) - 1)) else None)"

text \<open>Entries that the 32-bit fields of the file format can carry.\<close>

definition log_encodable :: "RaftLog \<Rightarrow> bool" where
  "log_encodable l \<longleftrightarrow> length (lg_entries l) < 2 ^ 32 \<and> list_all wf_entry (lg_entries l)"

lemma log_inv_bound: "log_inv l \<Longrightarrow> unat (lg_base_index l) + length (lg_entries l) < 18446744073709551616"
  by (simp add: log_inv_def)

lemma log_inv_index:
  "log_inv l \<Longrightarrow> i < length (lg_entries l) \<Longrightarrow>
   unat (le_index (lg_entries l ! i)) = unat (lg_base_index l) + i + 1"
  by (simp add: log_inv_def)

lemma log_inv_init [simp]: "log_inv log_init"
  by (simp add: log_inv_def log_init_def)

lemma unat_last_index [log_simps]:
  "log_inv l \<Longrightarrow> unat (log_last_index l) = unat (lg_base_index l) + length (lg_entries l)"
  using log_inv_bound [of l] by (simp add: log_last_index_def word_simps)

lemma base_le_last: "log_inv l \<Longrightarrow> lg_base_index l \<le> log_last_index l"
  by (simp add: log_simps word_simps)

lemma log_offset:
  "lg_base_index l < i \<Longrightarrow> unat (i - lg_base_index l - 1) = unat i - unat (lg_base_index l) - 1"
proof -
  assume lt: "lg_base_index l < i"
  then have "1 \<le> i - lg_base_index l"
    by (simp add: word_simps)
  with lt show ?thesis by (simp add: word_simps)
qed

lemma log_at_lookup:
  "log_inv l \<Longrightarrow> log_at i l = (case log_lookup l (unat i) of Some e \<Rightarrow> Inr e | None \<Rightarrow> Inl OutOfRange)"
  by (auto simp: log_at_def log_lookup_def log_simps word_le_unat word_less_unat log_offset)

lemma log_lookup_index: "log_inv l \<Longrightarrow> log_lookup l i = Some e \<Longrightarrow> unat (le_index e) = i"
  by (auto simp: log_lookup_def log_inv_index split: if_splits)

lemma log_lookup_mem: "log_lookup l i = Some e \<Longrightarrow> e \<in> set (lg_entries l)"
  by (auto simp: log_lookup_def split: if_splits)

section \<open>Every mutator keeps the invariant and acts on the abstract log\<close>

lemma log_append_ok:
  assumes "log_inv l" "le_index e = log_last_index l + 1" "unat (log_last_index l) + 1 < 2 ^ 64"
  obtains l' where "log_append e l = Inr l'" "log_inv l'" "lg_base_index l' = lg_base_index l"
    "lg_base_term l' = lg_base_term l" "lg_entries l' = lg_entries l @ [e]"
    "log_lookup l' = (log_lookup l)(unat (log_last_index l) + 1 \<mapsto> e)"
proof
  let ?l = "l\<lparr>lg_entries := lg_entries l @ [e]\<rparr>"
  show "log_append e l = Inr ?l" using assms by (simp add: log_append_def)
  have "unat (le_index e) = unat (lg_base_index l) + length (lg_entries l) + 1"
    using assms by (simp add: unat_add_64 log_simps)
  then show "log_inv ?l"
    using assms by (auto simp: log_inv_def nth_append less_Suc_eq log_simps)
  show "log_lookup ?l = (log_lookup l)(unat (log_last_index l) + 1 \<mapsto> e)"
    using assms by (auto simp: log_lookup_def nth_append log_simps fun_eq_iff)
qed simp_all

lemma log_append_assert:
  "le_index e \<noteq> log_last_index l + 1 \<Longrightarrow> log_append e l = Inl AssertFail"
  by (simp add: log_append_def)

lemma log_truncate_inv: "log_inv l \<Longrightarrow> log_inv (log_truncate_from i l)"
  by (auto simp: log_truncate_from_def log_inv_def)

lemma log_truncate_base [simp]:
  "lg_base_index (log_truncate_from i l) = lg_base_index l"
  "lg_base_term (log_truncate_from i l) = lg_base_term l"
  by (simp_all add: log_truncate_from_def)

lemma log_truncate_lookup:
  "log_inv l \<Longrightarrow> lg_base_index l < i \<Longrightarrow>
   log_lookup (log_truncate_from i l) = (\<lambda>j. if j < unat i then log_lookup l j else None)"
  by (auto simp: log_truncate_from_def log_lookup_def fun_eq_iff log_simps log_offset
      word_less_unat word_le_unat)

lemma log_snapshot_inv: "log_inv l \<Longrightarrow> log_inv (log_set_snapshot i t l)"
  by (auto simp: log_set_snapshot_def log_inv_def Let_def log_simps word_le_unat not_le unat_sub_64
      unat_last_index [unfolded log_inv_def])

lemma log_snapshot_lookup:
  "log_inv l \<Longrightarrow> lg_base_index l < i \<Longrightarrow>
   log_lookup (log_set_snapshot i t l) = (\<lambda>j. if unat i < j then log_lookup l j else None)"
  by (auto simp: log_set_snapshot_def log_lookup_def fun_eq_iff Let_def log_simps word_le_unat
      word_less_unat not_le unat_sub_64)

lemma log_snapshot_base:
  "lg_base_index l < i \<Longrightarrow> lg_base_index (log_set_snapshot i t l) = i \<and> lg_base_term (log_set_snapshot i t l) = t"
  "i \<le> lg_base_index l \<Longrightarrow> log_set_snapshot i t l = l"
  by (auto simp: log_set_snapshot_def Let_def)

section \<open>Queries on the abstract log\<close>

text \<open>The term at an index, the snapshot boundary included: what \<open>contains\<close> and \<open>term_at\<close> see.\<close>

definition log_terms :: "RaftLog \<Rightarrow> nat \<Rightarrow> Term option" where
  "log_terms l i =
     (if i = unat (lg_base_index l) then Some (lg_base_term l) else map_option le_term (log_lookup l i))"

lemma log_term_at_terms:
  "log_inv l \<Longrightarrow> log_term_at i l = (case log_terms l (unat i) of Some t \<Rightarrow> Inr t | None \<Rightarrow> Inl OutOfRange)"
  by (auto simp: log_term_at_def log_terms_def log_at_lookup word_eq_unat split: option.splits)

lemma log_contains_terms:
  "log_inv l \<Longrightarrow> log_contains i t l \<longleftrightarrow> i = 0 \<or> log_terms l (unat i) = Some t"
  by (auto simp: log_contains_def log_terms_def log_lookup_def log_simps word_le_unat word_less_unat
      word_eq_unat log_offset)

lemma log_last_term_terms: "log_inv l \<Longrightarrow> log_terms l (unat (log_last_index l)) = Some (log_last_term l)"
  by (auto simp: log_terms_def log_lookup_def log_last_term_def log_simps last_conv_nth)

lemma log_lookup_range:
  assumes "unat (lg_base_index l) \<le> x" "f \<le> unat (lg_base_index l) + length (lg_entries l)"
  shows "drop (x - unat (lg_base_index l)) (take (f - unat (lg_base_index l)) (lg_entries l))
    = map (\<lambda>i. the (log_lookup l i)) [x + 1 ..< f + 1]"
  using assms by (intro nth_equalityI) (auto simp: log_lookup_def nth_append simp del: upt_Suc)

lemma log_slice_nth:
  assumes inv: "log_inv l" and "lo < hi"
  shows "log_slice lo hi l =
    map (\<lambda>i. the (log_lookup l i))
      [max (unat lo) (unat (lg_base_index l)) + 1 ..< min (unat hi) (unat (log_last_index l)) + 1]"
proof (cases "lg_entries l = []")
  case True
  then show ?thesis using \<open>lo < hi\<close> inv by (auto simp: log_slice_def Let_def log_simps)
next
  case False
  let ?b = "unat (lg_base_index l)" and ?n = "length (lg_entries l)"
  have "0 < ?n" using False by simp
  then have "?b + 1 < 18446744073709551616" using log_inv_bound [OF inv] by linarith
  then have b1: "unat (lg_base_index l + 1) = ?b + 1" by (simp add: unat_add_64)
  have l1: "unat (lo + 1) = unat lo + 1"
    using \<open>lo < hi\<close> by (rule unat_succ_64)
  define start where "start = max (lo + 1) (lg_base_index l + 1)"
  define fin where "fin = min hi (log_last_index l)"
  have st: "unat start = max (unat lo) ?b + 1" and fi: "unat fin = min (unat hi) (?b + ?n)"
    using inv by (simp_all add: start_def fin_def max_def min_def word_le_unat l1 b1 log_simps)
  have "lg_base_index l < start" using st by (simp add: word_less_unat)
  then have a: "unat (start - lg_base_index l - 1) = max (unat lo) ?b - ?b"
    by (simp add: log_offset st)
  show ?thesis
  proof (cases "start > fin")
    case True
    with \<open>lo < hi\<close> st fi inv show ?thesis
      by (auto simp: log_slice_def start_def [symmetric] fin_def [symmetric] word_less_unat log_simps)
  next
    case False
    then have le: "max (unat lo) ?b + 1 \<le> unat fin" by (simp add: st word_less_unat not_less)
    then have b: "unat (fin - lg_base_index l) = unat fin - ?b"
      by (simp add: unat_sub_64 word_le_unat)
    have "log_slice lo hi l = drop (max (unat lo) ?b - ?b) (take (unat fin - ?b) (lg_entries l))"
      using False \<open>lo < hi\<close>
      by (simp add: log_slice_def start_def [symmetric] fin_def [symmetric] a b Let_def not_le)
    also have "\<dots> = map (\<lambda>i. the (log_lookup l i)) [max (unat lo) ?b + 1 ..< unat fin + 1]"
      using fi by (intro log_lookup_range) simp_all
    finally show ?thesis using inv fi by (simp add: log_simps)
  qed
qed

lemma rfind_term_Some:
  "rfind_term t es = Some i \<Longrightarrow> \<exists>k < length es. le_term (es ! k) = t \<and> le_index (es ! k) = i \<and>
     (\<forall>j < k. le_term (es ! j) \<noteq> t)"
proof (induction es)
  case (Cons e es)
  show ?case
  proof (cases "le_term e = t")
    case True
    with Cons.prems show ?thesis by (intro exI [of _ 0]) simp
  next
    case False
    with Cons obtain k where "k < length es" "le_term (es ! k) = t" "le_index (es ! k) = i"
      "\<forall>j < k. le_term (es ! j) \<noteq> t" by auto
    with False show ?thesis by (intro exI [of _ "Suc k"]) (auto simp: nth_Cons split: nat.splits)
  qed
qed simp

lemma rfind_term_None: "rfind_term t es = None \<longleftrightarrow> (\<forall>e \<in> set es. le_term e \<noteq> t)"
  by (induction es) auto

section \<open>Round trip through the log store\<close>

lemma dec_entry_enc [simp]: "wf_entry e \<Longrightarrow> dec_entry (enc_entry e @ r) = Inr (e, r)"
  by (simp add: dec_entry_def enc_entry_def wf_entry_def decode_encode_command wf_command_def)

interpretation entry: wire_format enc_entry dec_entry wf_entry
  by unfold_locales simp

lemma log_bytes_not_Nil [simp]: "log_bytes l \<noteq> []"
  by (simp add: log_bytes_def)

lemma log_load_bytes:
  assumes "log_encodable l" "ds_read_durable s = log_bytes l"
  shows "log_load_from s l0 = Inr l"
proof -
  let ?es = "lg_entries l"
  have "dec_n dec_entry (unat (of_nat (length ?es) :: u32)) (concat (map enc_entry ?es)) = Inr (?es, [])"
    using assms entry.dec_n_enc [of ?es "[]"] by (simp add: log_encodable_def word_simps)
  with assms(2) show ?thesis
    by (simp add: log_load_from_def Let_def log_bytes_def [of l])
qed

lemma log_save_load:
  assumes "log_encodable l" "ds_inv s"
  shows "log_load_from (log_save_to l (ds_truncate_to 0 s)) l0 = Inr l"
  using assms ds.rewrite_durable [of s "log_bytes l"]
  by (intro log_load_bytes) (simp_all add: log_save_to_def ds.rewrite_def)

section \<open>Properties\<close>

text \<open>
  C9. \<open>last_index_for_term\<close> scans from the back: it returns the greatest index of the log, snapshot
  boundary included, whose term is the given one, and 0 when there is none above index 0.
\<close>

theorem log_last_index_for_term_greatest:
  assumes "log_inv l" "i = unat (log_last_index_for_term t l)"
  shows "(0 < i \<longrightarrow> log_terms l i = Some t) \<and> (\<forall>j > i. log_terms l j \<noteq> Some t)"
proof (cases "rfind_term t (rev (lg_entries l))")
  case None
  then have "map_option le_term (log_lookup l j) \<noteq> Some t" for j
    using log_lookup_mem [of l j] by (auto simp: rfind_term_None)
  with None assms(2) show ?thesis
    by (auto simp: log_last_index_for_term_def log_terms_def word_less_unat split: if_splits)
next
  case (Some x)
  let ?es = "lg_entries l" and ?b = "unat (lg_base_index l)"
  obtain k where k: "k < length ?es" "le_term (rev ?es ! k) = t" "le_index (rev ?es ! k) = x"
    "\<forall>j < k. le_term (rev ?es ! j) \<noteq> t"
    using rfind_term_Some [OF Some] by auto
  define p where "p = length ?es - Suc k"
  have p: "p < length ?es" "le_term (?es ! p) = t" "le_index (?es ! p) = x"
    using k(1-3) by (auto simp: p_def rev_nth)
  have later: "le_term (?es ! q) \<noteq> t" if "p < q" "q < length ?es" for q
    using k(4) [rule_format, of "length ?es - Suc q"] that k(1) by (auto simp: p_def rev_nth)
  have i: "i = ?b + p + 1" using assms p Some by (auto simp: log_last_index_for_term_def log_inv_def)
  have "log_terms l i = Some t" using p i by (simp add: log_terms_def log_lookup_def)
  moreover have "log_terms l j \<noteq> Some t" if "j > i" for j
    using later [of "j - ?b - 1"] that i by (auto simp: log_terms_def log_lookup_def)
  ultimately show ?thesis by blast
qed

theorem log_last_index_for_term_greatest_witness:
  "let l = \<lparr>lg_entries = [\<lparr>le_term = 1, le_index = 6, le_cmd = CmdGet ''k''\<rparr>,
              \<lparr>le_term = 2, le_index = 7, le_cmd = CmdGet ''k''\<rparr>], lg_base_index = 5, lg_base_term = 1\<rparr>
   in log_inv l \<and> log_last_index_for_term 1 l = 6 \<and> log_terms l 6 = Some 1"
proof -
  let ?l = "\<lparr>lg_entries = [\<lparr>le_term = 1, le_index = 6, le_cmd = CmdGet ''k''\<rparr>,
              \<lparr>le_term = 2, le_index = 7, le_cmd = CmdGet ''k''\<rparr>], lg_base_index = 5, lg_base_term = 1\<rparr>"
  have "log_inv ?l" by (auto simp: log_inv_def less_Suc_eq nth_Cons split: nat.splits)
  moreover have "log_last_index_for_term 1 ?l = 6" by (simp add: log_last_index_for_term_def)
  ultimately show ?thesis using log_last_index_for_term_greatest [of ?l 6 1] by (simp add: Let_def)
qed

text \<open>
  C10. Saving a log and loading it back returns the same log: entries, base index and base term, whatever
  the log store held before and whatever the loading object held.
\<close>

theorem log_round_trip:
  assumes "log_encodable l" "ds_inv s"
  shows "log_load_from (ds_crash (log_save_to l (ds_truncate_to 0 s))) l0 = Inr l"
  using assms ds.rewrite_crash [of s "log_bytes l"]
  by (intro log_load_bytes) (simp_all add: log_save_to_def ds.rewrite_def)

theorem log_round_trip_witness:
  "let l = \<lparr>lg_entries = [\<lparr>le_term = 1, le_index = 6, le_cmd = CmdPut ''k'' ''v''\<rparr>],
            lg_base_index = 5, lg_base_term = 1\<rparr>
   in log_load_from (ds_crash (log_save_to l (ds_truncate_to 0 ds_init))) log_init = Inr l"
  unfolding Let_def by (rule log_round_trip) (simp_all add: log_encodable_def wf_entry_def wf_command_def)



end
