(* ===== verification/Rpc.thy ===== *)
theory Rpc
  imports Raft_Log
begin

text \<open>
  \<open>src/raft/rpc.hpp\<close> and \<open>src/raft/rpc.cpp\<close>: the RPC messages and their wire format. The
  first byte of every payload is the \<open>MsgType\<close> tag. \<open>decode\<close> skips it and, like the
  source, ignores bytes after the last field.
\<close>

type_synonym payload = "byte list"

datatype MsgType =
    RequestVoteT | RequestVoteReplyT | AppendEntriesT | AppendEntriesReplyT
  | ClientRequestT | ClientReplyT | InstallSnapshotT | InstallSnapshotReplyT
  | ReadIndexRequestT | ReadIndexReplyT

fun msg_tag :: "MsgType \<Rightarrow> byte" where
  "msg_tag RequestVoteT = 1"
| "msg_tag RequestVoteReplyT = 2"
| "msg_tag AppendEntriesT = 3"
| "msg_tag AppendEntriesReplyT = 4"
| "msg_tag ClientRequestT = 5"
| "msg_tag ClientReplyT = 6"
| "msg_tag InstallSnapshotT = 7"
| "msg_tag InstallSnapshotReplyT = 8"
| "msg_tag ReadIndexRequestT = 9"
| "msg_tag ReadIndexReplyT = 10"

definition peek_msg_type :: "payload \<Rightarrow> exn + byte" where
  "peek_msg_type p = (case p of [] \<Rightarrow> Inl EmptyMessage | b # _ \<Rightarrow> Inr b)"

section \<open>Messages\<close>

record RequestVote =
  rv_term :: Term
  rv_candidate_id :: NodeId
  rv_last_log_index :: Index
  rv_last_log_term :: Term

record RequestVoteReply =
  rvr_term :: Term
  rvr_vote_granted :: bool

record AppendEntries =
  ae_term :: Term
  ae_leader_id :: NodeId
  ae_prev_log_index :: Index
  ae_prev_log_term :: Term
  ae_entries :: "LogEntry list"
  ae_leader_commit :: Index

record AppendEntriesReply =
  aer_term :: Term
  aer_success :: bool
  aer_conflict_index :: Index
  aer_conflict_term :: Term

record ClientRequest =
  cr_client_id :: u64
  cr_request_id :: u64
  cr_cmd :: command

record ClientReply =
  crep_client_id :: u64
  crep_request_id :: u64
  crep_success :: bool
  crep_result :: CmdResult
  crep_leader_hint :: NodeId

record InstallSnapshot =
  is_term :: Term
  is_leader_id :: NodeId
  is_last_included_index :: Index
  is_last_included_term :: Term
  is_data :: "byte list"

record InstallSnapshotReply =
  isr_term :: Term
  isr_last_included_index :: Index

record ReadIndexRequest =
  rir_term :: Term
  rir_leader_id :: NodeId
  rir_round :: u64

record ReadIndexReply =
  rirep_term :: Term
  rirep_round :: u64

section \<open>Encoding and decoding\<close>

definition encode_request_vote :: "RequestVote \<Rightarrow> payload" where
  "encode_request_vote m =
     enc_u8 (msg_tag RequestVoteT) @ enc_u64 (rv_term m) @ enc_u32 (rv_candidate_id m)
     @ enc_u64 (rv_last_log_index m) @ enc_u64 (rv_last_log_term m)"

definition decode_request_vote :: "payload \<Rightarrow> exn + RequestVote" where
  "decode_request_vote p =
     bindR (dec_u8 p) (\<lambda>(_, r).
     bindR (dec_u64 r) (\<lambda>(t, r).
     bindR (dec_u32 r) (\<lambda>(c, r).
     bindR (dec_u64 r) (\<lambda>(li, r).
     bindR (dec_u64 r) (\<lambda>(lt, r).
     Inr \<lparr>rv_term = t, rv_candidate_id = c, rv_last_log_index = li, rv_last_log_term = lt\<rparr>)))))"

definition encode_request_vote_reply :: "RequestVoteReply \<Rightarrow> payload" where
  "encode_request_vote_reply m =
     enc_u8 (msg_tag RequestVoteReplyT) @ enc_u64 (rvr_term m) @ enc_boolean (rvr_vote_granted m)"

definition decode_request_vote_reply :: "payload \<Rightarrow> exn + RequestVoteReply" where
  "decode_request_vote_reply p =
     bindR (dec_u8 p) (\<lambda>(_, r).
     bindR (dec_u64 r) (\<lambda>(t, r).
     bindR (dec_boolean r) (\<lambda>(g, r).
     Inr \<lparr>rvr_term = t, rvr_vote_granted = g\<rparr>)))"

definition encode_append_entries :: "AppendEntries \<Rightarrow> payload" where
  "encode_append_entries m =
     enc_u8 (msg_tag AppendEntriesT) @ enc_u64 (ae_term m) @ enc_u32 (ae_leader_id m)
     @ enc_u64 (ae_prev_log_index m) @ enc_u64 (ae_prev_log_term m) @ enc_u64 (ae_leader_commit m)
     @ enc_u32 (of_nat (length (ae_entries m))) @ concat (map enc_entry (ae_entries m))"

definition decode_append_entries :: "payload \<Rightarrow> exn + AppendEntries" where
  "decode_append_entries p =
     bindR (dec_u8 p) (\<lambda>(_, r).
     bindR (dec_u64 r) (\<lambda>(t, r).
     bindR (dec_u32 r) (\<lambda>(ld, r).
     bindR (dec_u64 r) (\<lambda>(pi, r).
     bindR (dec_u64 r) (\<lambda>(pt, r).
     bindR (dec_u64 r) (\<lambda>(lc, r).
     bindR (dec_u32 r) (\<lambda>(count, r).
     bindR (dec_n dec_entry (unat count) r) (\<lambda>(es, r).
     Inr \<lparr>ae_term = t, ae_leader_id = ld, ae_prev_log_index = pi, ae_prev_log_term = pt,
          ae_entries = es, ae_leader_commit = lc\<rparr>))))))))"

definition encode_append_entries_reply :: "AppendEntriesReply \<Rightarrow> payload" where
  "encode_append_entries_reply m =
     enc_u8 (msg_tag AppendEntriesReplyT) @ enc_u64 (aer_term m) @ enc_boolean (aer_success m)
     @ enc_u64 (aer_conflict_index m) @ enc_u64 (aer_conflict_term m)"

definition decode_append_entries_reply :: "payload \<Rightarrow> exn + AppendEntriesReply" where
  "decode_append_entries_reply p =
     bindR (dec_u8 p) (\<lambda>(_, r).
     bindR (dec_u64 r) (\<lambda>(t, r).
     bindR (dec_boolean r) (\<lambda>(s, r).
     bindR (dec_u64 r) (\<lambda>(ci, r).
     bindR (dec_u64 r) (\<lambda>(ct, r).
     Inr \<lparr>aer_term = t, aer_success = s, aer_conflict_index = ci, aer_conflict_term = ct\<rparr>)))))"

definition encode_client_request :: "ClientRequest \<Rightarrow> payload" where
  "encode_client_request m =
     enc_u8 (msg_tag ClientRequestT) @ enc_u64 (cr_client_id m) @ enc_u64 (cr_request_id m)
     @ enc_blob (encode_command (cr_cmd m))"

definition decode_client_request :: "payload \<Rightarrow> exn + ClientRequest" where
  "decode_client_request p =
     bindR (dec_u8 p) (\<lambda>(_, r).
     bindR (dec_u64 r) (\<lambda>(c, r).
     bindR (dec_u64 r) (\<lambda>(q, r).
     bindR (dec_blob r) (\<lambda>(cmd_buf, r).
     bindR (decode_command cmd_buf) (\<lambda>cmd.
     Inr \<lparr>cr_client_id = c, cr_request_id = q, cr_cmd = cmd\<rparr>)))))"

definition encode_install_snapshot :: "InstallSnapshot \<Rightarrow> payload" where
  "encode_install_snapshot m =
     enc_u8 (msg_tag InstallSnapshotT) @ enc_u64 (is_term m) @ enc_u32 (is_leader_id m)
     @ enc_u64 (is_last_included_index m) @ enc_u64 (is_last_included_term m) @ enc_blob (is_data m)"

definition decode_install_snapshot :: "payload \<Rightarrow> exn + InstallSnapshot" where
  "decode_install_snapshot p =
     bindR (dec_u8 p) (\<lambda>(_, r).
     bindR (dec_u64 r) (\<lambda>(t, r).
     bindR (dec_u32 r) (\<lambda>(ld, r).
     bindR (dec_u64 r) (\<lambda>(li, r).
     bindR (dec_u64 r) (\<lambda>(lt, r).
     bindR (dec_u32 r) (\<lambda>(len, r).
     bindR (dec_n dec_u8 (unat len) r) (\<lambda>(d, r).
     Inr \<lparr>is_term = t, is_leader_id = ld, is_last_included_index = li, is_last_included_term = lt,
          is_data = d\<rparr>)))))))"

definition encode_install_snapshot_reply :: "InstallSnapshotReply \<Rightarrow> payload" where
  "encode_install_snapshot_reply m =
     enc_u8 (msg_tag InstallSnapshotReplyT) @ enc_u64 (isr_term m) @ enc_u64 (isr_last_included_index m)"

definition decode_install_snapshot_reply :: "payload \<Rightarrow> exn + InstallSnapshotReply" where
  "decode_install_snapshot_reply p =
     bindR (dec_u8 p) (\<lambda>(_, r).
     bindR (dec_u64 r) (\<lambda>(t, r).
     bindR (dec_u64 r) (\<lambda>(li, r).
     Inr \<lparr>isr_term = t, isr_last_included_index = li\<rparr>)))"

definition encode_read_index_request :: "ReadIndexRequest \<Rightarrow> payload" where
  "encode_read_index_request m =
     enc_u8 (msg_tag ReadIndexRequestT) @ enc_u64 (rir_term m) @ enc_u32 (rir_leader_id m)
     @ enc_u64 (rir_round m)"

definition decode_read_index_request :: "payload \<Rightarrow> exn + ReadIndexRequest" where
  "decode_read_index_request p =
     bindR (dec_u8 p) (\<lambda>(_, r).
     bindR (dec_u64 r) (\<lambda>(t, r).
     bindR (dec_u32 r) (\<lambda>(ld, r).
     bindR (dec_u64 r) (\<lambda>(rd, r).
     Inr \<lparr>rir_term = t, rir_leader_id = ld, rir_round = rd\<rparr>))))"

definition encode_read_index_reply :: "ReadIndexReply \<Rightarrow> payload" where
  "encode_read_index_reply m =
     enc_u8 (msg_tag ReadIndexReplyT) @ enc_u64 (rirep_term m) @ enc_u64 (rirep_round m)"

definition decode_read_index_reply :: "payload \<Rightarrow> exn + ReadIndexReply" where
  "decode_read_index_reply p =
     bindR (dec_u8 p) (\<lambda>(_, r).
     bindR (dec_u64 r) (\<lambda>(t, r).
     bindR (dec_u64 r) (\<lambda>(rd, r).
     Inr \<lparr>rirep_term = t, rirep_round = rd\<rparr>)))"

definition encode_client_reply :: "ClientReply \<Rightarrow> payload" where
  "encode_client_reply m =
     enc_u8 (msg_tag ClientReplyT) @ enc_u64 (crep_client_id m) @ enc_u64 (crep_request_id m)
     @ enc_boolean (crep_success m) @ enc_boolean (res_ok (crep_result m))
     @ enc_str (res_value (crep_result m)) @ enc_str (res_error (crep_result m))
     @ enc_u32 (crep_leader_hint m)"

definition decode_client_reply :: "payload \<Rightarrow> exn + ClientReply" where
  "decode_client_reply p =
     bindR (dec_u8 p) (\<lambda>(_, r).
     bindR (dec_u64 r) (\<lambda>(c, r).
     bindR (dec_u64 r) (\<lambda>(q, r).
     bindR (dec_boolean r) (\<lambda>(s, r).
     bindR (dec_boolean r) (\<lambda>(ok, r).
     bindR (dec_str r) (\<lambda>(v, r).
     bindR (dec_str r) (\<lambda>(er, r).
     bindR (dec_u32 r) (\<lambda>(h, r).
     Inr \<lparr>crep_client_id = c, crep_request_id = q, crep_success = s,
          crep_result = \<lparr>res_ok = ok, res_value = v, res_error = er\<rparr>, crep_leader_hint = h\<rparr>))))))))"

section \<open>Round trips\<close>

definition wf_append_entries :: "AppendEntries \<Rightarrow> bool" where
  "wf_append_entries m \<longleftrightarrow> length (ae_entries m) < 2 ^ 32 \<and> list_all wf_entry (ae_entries m)"

definition wf_client_reply :: "ClientReply \<Rightarrow> bool" where
  "wf_client_reply m \<longleftrightarrow>
     length (res_value (crep_result m)) < 2 ^ 32 \<and> length (res_error (crep_result m)) < 2 ^ 32"

lemmas rpc_defs =
  encode_request_vote_def decode_request_vote_def encode_request_vote_reply_def
  decode_request_vote_reply_def encode_append_entries_def decode_append_entries_def
  encode_append_entries_reply_def decode_append_entries_reply_def encode_client_request_def
  decode_client_request_def encode_install_snapshot_def decode_install_snapshot_def
  encode_install_snapshot_reply_def decode_install_snapshot_reply_def
  encode_read_index_request_def decode_read_index_request_def encode_read_index_reply_def
  decode_read_index_reply_def encode_client_reply_def decode_client_reply_def

lemma request_vote_rt [simp]: "decode_request_vote (encode_request_vote m @ r) = Inr m"
  by (simp add: rpc_defs)

lemma request_vote_reply_rt [simp]: "decode_request_vote_reply (encode_request_vote_reply m @ r) = Inr m"
  by (simp add: rpc_defs)

lemma append_entries_rt [simp]:
  "wf_append_entries m \<Longrightarrow> decode_append_entries (encode_append_entries m @ r) = Inr m"
  using entry.dec_n_enc [of "ae_entries m" r]
  by (simp add: rpc_defs wf_append_entries_def word_simps)

lemma append_entries_reply_rt [simp]:
  "decode_append_entries_reply (encode_append_entries_reply m @ r) = Inr m"
  by (simp add: rpc_defs)

lemma client_request_rt [simp]:
  "wf_command (cr_cmd m) \<Longrightarrow> decode_client_request (encode_client_request m @ r) = Inr m"
  by (simp add: rpc_defs decode_encode_command wf_command_def)

lemma install_snapshot_rt [simp]:
  "length (is_data m) < 2 ^ 32 \<Longrightarrow> decode_install_snapshot (encode_install_snapshot m @ r) = Inr m"
  using u8.dec_n_enc [of "is_data m" r]
  by (simp add: rpc_defs enc_blob_def word_simps list_all_iff)

lemma install_snapshot_reply_rt [simp]:
  "decode_install_snapshot_reply (encode_install_snapshot_reply m @ r) = Inr m"
  by (simp add: rpc_defs)

lemma read_index_request_rt [simp]: "decode_read_index_request (encode_read_index_request m @ r) = Inr m"
  by (simp add: rpc_defs)

lemma read_index_reply_rt [simp]: "decode_read_index_reply (encode_read_index_reply m @ r) = Inr m"
  by (simp add: rpc_defs)

lemma client_reply_rt [simp]:
  "wf_client_reply m \<Longrightarrow> decode_client_reply (encode_client_reply m @ r) = Inr m"
  by (simp add: rpc_defs wf_client_reply_def)

text \<open>The payloads the node sends, without trailing bytes.\<close>

lemmas rpc_round_trips [simp] =
  request_vote_rt [where r = "[]", simplified] request_vote_reply_rt [where r = "[]", simplified]
  append_entries_rt [where r = "[]", simplified] append_entries_reply_rt [where r = "[]", simplified]
  client_request_rt [where r = "[]", simplified] install_snapshot_rt [where r = "[]", simplified]
  install_snapshot_reply_rt [where r = "[]", simplified] read_index_request_rt [where r = "[]", simplified]
  read_index_reply_rt [where r = "[]", simplified] client_reply_rt [where r = "[]", simplified]

lemma encode_tags [simp]:
  "hd (encode_request_vote m1) = 1" "encode_request_vote m1 \<noteq> []"
  "hd (encode_request_vote_reply m2) = 2" "encode_request_vote_reply m2 \<noteq> []"
  "hd (encode_append_entries m3) = 3" "encode_append_entries m3 \<noteq> []"
  "hd (encode_append_entries_reply m4) = 4" "encode_append_entries_reply m4 \<noteq> []"
  "hd (encode_client_request m5) = 5" "encode_client_request m5 \<noteq> []"
  "hd (encode_client_reply m6) = 6" "encode_client_reply m6 \<noteq> []"
  "hd (encode_install_snapshot m7) = 7" "encode_install_snapshot m7 \<noteq> []"
  "hd (encode_install_snapshot_reply m8) = 8" "encode_install_snapshot_reply m8 \<noteq> []"
  "hd (encode_read_index_request m9) = 9" "encode_read_index_request m9 \<noteq> []"
  "hd (encode_read_index_reply m10) = 10" "encode_read_index_reply m10 \<noteq> []"
  by (simp_all add: rpc_defs enc_u8_def)

section \<open>Properties\<close>

text \<open>
  C13. The messages that carry variable-length fields decode to what was encoded, whatever follows
  them in the buffer, as long as their lengths fit the 32-bit length fields of the format.
\<close>

theorem rpc_variable_round_trips:
  assumes "wf_append_entries ae" "wf_command (cr_cmd cr)" "length (is_data inst) < 2 ^ 32" "wf_client_reply rep"
  shows "decode_append_entries (encode_append_entries ae @ r) = Inr ae
    \<and> decode_client_request (encode_client_request cr @ r) = Inr cr
    \<and> decode_install_snapshot (encode_install_snapshot inst @ r) = Inr inst
    \<and> decode_client_reply (encode_client_reply rep @ r) = Inr rep"
  using assms by simp

theorem rpc_variable_round_trips_witness:
  "let ae = \<lparr>ae_term = 2, ae_leader_id = 1, ae_prev_log_index = 0, ae_prev_log_term = 0,
             ae_entries = [\<lparr>le_term = 1, le_index = 1, le_cmd = CmdPut ''k'' ''v''\<rparr>], ae_leader_commit = 0\<rparr>
   in decode_append_entries (encode_append_entries ae @ [7]) = Inr ae"
  unfolding Let_def
  by (rule rpc_variable_round_trips [where cr = "\<lparr>cr_client_id = 0, cr_request_id = 0, cr_cmd = CmdGet ''k''\<rparr>"
      and inst = "\<lparr>is_term = 0, is_leader_id = 0, is_last_included_index = 0, is_last_included_term = 0, is_data = []\<rparr>"
      and rep = "\<lparr>crep_client_id = 0, crep_request_id = 0, crep_success = True,
        crep_result = \<lparr>res_ok = True, res_value = '''', res_error = ''''\<rparr>, crep_leader_hint = 0\<rparr>", THEN conjunct1])
    (simp_all add: wf_append_entries_def wf_entry_def wf_command_def wf_client_reply_def)

text \<open>
  C14. The fixed-size messages decode to what was encoded, without any condition, and the tag byte tells
  all ten message types apart.
\<close>

theorem rpc_fixed_round_trips:
  "decode_request_vote (encode_request_vote rv @ r) = Inr rv
   \<and> decode_request_vote_reply (encode_request_vote_reply rvr @ r) = Inr rvr
   \<and> decode_append_entries_reply (encode_append_entries_reply aer @ r) = Inr aer
   \<and> decode_install_snapshot_reply (encode_install_snapshot_reply isr @ r) = Inr isr
   \<and> decode_read_index_request (encode_read_index_request rir @ r) = Inr rir
   \<and> decode_read_index_reply (encode_read_index_reply rirep @ r) = Inr rirep
   \<and> inj msg_tag"
proof -
  have "inj msg_tag"
  proof (rule injI)
    fix a b :: MsgType
    assume "msg_tag a = msg_tag b"
    then show "a = b" by (cases a; cases b) simp_all
  qed
  then show ?thesis by simp
qed

end
