(* ===== verification/Raft_Node.thy ===== *)
theory Raft_Node
  imports Rpc Kv_Store "HOL-Library.FSet"
begin

text \<open>
  \<open>src/raft/node.hpp\<close> and \<open>src/raft/node.cpp\<close>: the Raft state machine, one definition per
  method of \<open>RaftNode\<close>, in the order of dependencies.

  A node's fields are the record \<open>RaftNode\<close>. The objects it refers to, \<open>IClock& sim_\<close> and
  \<open>ITransport& net_\<close>, are the field \<open>nd_env\<close>, of any type \<open>'e\<close>; the virtual
  methods the node calls on them, and the callbacks it was given, are the functions of an interface
  record \<open>'e iface\<close> passed to every method. Closures that the node hands out are values: a
  \<open>timer\<close> for what it gives to \<open>schedule\<close> (with the node whose \<open>this\<close> it captures), a \<open>client_cb\<close> for the reply closure of
  \<open>handle_client_request\<close> or a callback of the caller. Callbacks act on the environment; like
  those of the server and of the harness, they do not re-enter the node.

  Methods that can throw return an \<open>outcome\<close> with the node as it was left. The three durable
  stores are the in-memory \<open>DurableStore\<close> that the constructor creates by default.
\<close>

section \<open>Configuration, interfaces and state\<close>

record RaftConfig =
  cfg_election_timeout_lo :: SimTime
  cfg_heartbeat_interval :: SimTime
  cfg_client_timeout :: SimTime
  cfg_max_entries_per_ae :: u64
  cfg_snapshot_threshold :: nat
  cfg_read_timeout :: SimTime
  cfg_bug_commit_prior_term :: bool
  cfg_bug_skip_vote_uptodate :: bool

definition default_config :: RaftConfig where
  "default_config =
     \<lparr>cfg_election_timeout_lo = 150 * 1000, cfg_heartbeat_interval = 50 * 1000,
      cfg_client_timeout = 500 * 1000, cfg_max_entries_per_ae = 64, cfg_snapshot_threshold = 0,
      cfg_read_timeout = 2000 * 1000, cfg_bug_commit_prior_term = False,
      cfg_bug_skip_vote_uptodate = False\<rparr>"

datatype timer = ElectionTimer NodeId u64 | HeartbeatTimer NodeId | ReadTimer NodeId u64

datatype client_cb = ReplyCb NodeId ClientRequest | ExternalCb nat

record 'e iface =
  if_schedule :: "SimTime \<Rightarrow> timer \<Rightarrow> 'e \<Rightarrow> EventId \<times> 'e"
  if_cancel :: "EventId \<Rightarrow> 'e \<Rightarrow> 'e"
  if_random_range :: "u64 \<Rightarrow> u64 \<Rightarrow> 'e \<Rightarrow> u64 \<times> 'e"
  if_send :: "NodeId \<Rightarrow> NodeId \<Rightarrow> payload \<Rightarrow> 'e \<Rightarrow> 'e"
  if_set_handler :: "NodeId \<Rightarrow> 'e \<Rightarrow> 'e"
  if_remove_handler :: "NodeId \<Rightarrow> 'e \<Rightarrow> 'e"
  if_client_cb :: "nat \<Rightarrow> CmdResult \<Rightarrow> 'e \<Rightarrow> 'e"
  if_read_cb :: "nat \<Rightarrow> bool \<Rightarrow> string option \<Rightarrow> 'e \<Rightarrow> 'e"
  if_state_change :: "NodeId \<Rightarrow> Role \<Rightarrow> Term \<Rightarrow> 'e \<Rightarrow> 'e"

record PendingRead =
  pr_round :: u64
  pr_read_index :: Index
  pr_key :: string
  pr_cb :: nat
  pr_acks :: nat
  pr_timeout_id :: EventId

record 'e RaftNode =
  nd_id :: NodeId
  nd_peers :: "NodeId list"
  nd_cfg :: RaftConfig
  nd_running :: bool
  nd_current_term :: Term
  nd_voted_for :: "NodeId option"
  nd_log :: RaftLog
  nd_meta_store :: DurableStore
  nd_log_store :: DurableStore
  nd_snapshot_store :: DurableStore
  nd_snap_last_index :: Index
  nd_snap_last_term :: Term
  nd_snap_data :: "byte list"
  nd_role :: Role
  nd_commit_index :: Index
  nd_last_applied :: Index
  nd_leader_id :: "NodeId option"
  nd_kv :: KvStore
  nd_votes_received :: "NodeId fset"
  nd_next_index :: "(NodeId, Index) omap"
  nd_match_index :: "(NodeId, Index) omap"
  nd_pending_clients :: "(Index, client_cb \<times> NodeId) omap"
  nd_pending_reads :: "PendingRead list"
  nd_next_read_round :: u64
  nd_election_timeout_id :: EventId
  nd_election_scheduled :: bool
  nd_election_generation :: u64
  nd_heartbeat_id :: EventId
  nd_heartbeat_scheduled :: bool
  nd_election_term :: Term
  nd_vote_count :: u32
  nd_config_change_pending :: bool
  nd_env :: 'e

definition raft_node_init :: "NodeId \<Rightarrow> NodeId list \<Rightarrow> RaftConfig \<Rightarrow> 'e \<Rightarrow> 'e RaftNode" where
  "raft_node_init i peers cfg e =
     \<lparr>nd_id = i, nd_peers = sort peers, nd_cfg = cfg, nd_running = False,
      nd_current_term = 0, nd_voted_for = None, nd_log = log_init,
      nd_meta_store = ds_init, nd_log_store = ds_init, nd_snapshot_store = ds_init,
      nd_snap_last_index = 0, nd_snap_last_term = 0, nd_snap_data = [],
      nd_role = Follower, nd_commit_index = 0, nd_last_applied = 0, nd_leader_id = None, nd_kv = [],
      nd_votes_received = {||}, nd_next_index = [], nd_match_index = [],
      nd_pending_clients = [], nd_pending_reads = [], nd_next_read_round = 1,
      nd_election_timeout_id = 0, nd_election_scheduled = False, nd_election_generation = 0,
      nd_heartbeat_id = 0, nd_heartbeat_scheduled = False,
      nd_election_term = 0, nd_vote_count = 0, nd_config_change_pending = False, nd_env = e\<rparr>"

section \<open>Helpers, persistence and timers\<close>

definition env_do :: "('e \<Rightarrow> 'e) \<Rightarrow> 'e RaftNode \<Rightarrow> 'e RaftNode" where
  "env_do f n = n\<lparr>nd_env := f (nd_env n)\<rparr>"

definition nd_send :: "'e iface \<Rightarrow> NodeId \<Rightarrow> payload \<Rightarrow> 'e RaftNode \<Rightarrow> 'e RaftNode" where
  "nd_send I dest msg n = env_do (if_send I (nd_id n) dest msg) n"

definition quorum :: "'e RaftNode \<Rightarrow> nat" where
  "quorum n = (length (nd_peers n) + 1) div 2 + 1"

definition is_log_up_to_date :: "Index \<Rightarrow> Term \<Rightarrow> 'e RaftNode \<Rightarrow> bool" where
  "is_log_up_to_date last_idx last_term n =
     (if last_term \<noteq> log_last_term (nd_log n) then last_term > log_last_term (nd_log n)
      else last_idx \<ge> log_last_index (nd_log n))"

definition meta_bytes :: "Term \<Rightarrow> NodeId option \<Rightarrow> byte list" where
  "meta_bytes t v =
     enc_u64 t @ enc_boolean (v \<noteq> None) @ (case v of Some c \<Rightarrow> enc_u32 c | None \<Rightarrow> [])"

definition persist :: "'e RaftNode \<Rightarrow> 'e RaftNode" where
  "persist n =
     n\<lparr>nd_meta_store :=
          ds_flush (ds_append (meta_bytes (nd_current_term n) (nd_voted_for n))
            (ds_truncate_to 0 (nd_meta_store n))),
        nd_log_store := log_save_to (nd_log n) (ds_truncate_to 0 (nd_log_store n))\<rparr>"

definition schedule_election_timeout :: "'e iface \<Rightarrow> 'e RaftNode \<Rightarrow> 'e RaftNode" where
  "schedule_election_timeout I n =
     (if nd_election_scheduled n then n
      else let gen = nd_election_generation n + 1;
               lo = cfg_election_timeout_lo (nd_cfg n);
               d = if_random_range I lo (2 * lo + 1) (nd_env n);
               s = if_schedule I (fst d) (ElectionTimer (nd_id n) gen) (snd d)
           in n\<lparr>nd_election_generation := gen, nd_election_scheduled := True,
                nd_election_timeout_id := fst s, nd_env := snd s\<rparr>)"

definition cancel_election_timeout :: "'e iface \<Rightarrow> 'e RaftNode \<Rightarrow> 'e RaftNode" where
  "cancel_election_timeout I n =
     (if nd_election_scheduled n
      then (env_do (if_cancel I (nd_election_timeout_id n)) n)
             \<lparr>nd_election_scheduled := False, nd_election_generation := nd_election_generation n + 1\<rparr>
      else n)"

definition schedule_heartbeat :: "'e iface \<Rightarrow> 'e RaftNode \<Rightarrow> 'e RaftNode" where
  "schedule_heartbeat I n =
     (if nd_heartbeat_scheduled n then n
      else let s = if_schedule I (cfg_heartbeat_interval (nd_cfg n)) (HeartbeatTimer (nd_id n)) (nd_env n)
           in n\<lparr>nd_heartbeat_scheduled := True, nd_heartbeat_id := fst s, nd_env := snd s\<rparr>)"

definition cancel_heartbeat :: "'e iface \<Rightarrow> 'e RaftNode \<Rightarrow> 'e RaftNode" where
  "cancel_heartbeat I n =
     (if nd_heartbeat_scheduled n
      then (env_do (if_cancel I (nd_heartbeat_id n)) n)\<lparr>nd_heartbeat_scheduled := False\<rparr>
      else n)"

section \<open>Pending reads\<close>

definition cancel_pending_reads :: "'e iface \<Rightarrow> 'e RaftNode \<Rightarrow> 'e RaftNode" where
  "cancel_pending_reads I n =
     (env_do (fold (\<lambda>pr e. if_read_cb I (pr_cb pr) False None (if_cancel I (pr_timeout_id pr) e))
        (nd_pending_reads n)) n)\<lparr>nd_pending_reads := []\<rparr>"

definition read_ready :: "'e RaftNode \<Rightarrow> PendingRead \<Rightarrow> bool" where
  "read_ready n pr \<longleftrightarrow> pr_acks pr \<ge> quorum n \<and> nd_last_applied n \<ge> pr_read_index pr"

definition drain_pending_reads :: "'e iface \<Rightarrow> 'e RaftNode \<Rightarrow> 'e RaftNode" where
  "drain_pending_reads I n =
     (env_do (fold (\<lambda>pr e. if_read_cb I (pr_cb pr) True (kv_get (pr_key pr) (nd_kv n))
                (if_cancel I (pr_timeout_id pr) e))
        (filter (read_ready n) (nd_pending_reads n))) n)
      \<lparr>nd_pending_reads := filter (\<lambda>pr. \<not> read_ready n pr) (nd_pending_reads n)\<rparr>"

section \<open>Role transitions and replication\<close>

definition become_follower :: "'e iface \<Rightarrow> Term \<Rightarrow> NodeId option \<Rightarrow> 'e RaftNode \<Rightarrow> 'e RaftNode" where
  "become_follower I new_term new_leader n =
     (let term_changed = new_term > nd_current_term n;
          n = (if term_changed then persist (n\<lparr>nd_current_term := new_term, nd_voted_for := None\<rparr>) else n);
          n = (if nd_role n \<noteq> Follower \<or> term_changed
               then let n = cancel_pending_reads I n;
                        n = n\<lparr>nd_role := Follower\<rparr>;
                        n = cancel_heartbeat I n
                    in env_do (if_state_change I (nd_id n) (nd_role n) (nd_current_term n)) n
               else n);
          n = n\<lparr>nd_leader_id := new_leader, nd_votes_received := {||}, nd_vote_count := 0\<rparr>
      in schedule_election_timeout I (cancel_election_timeout I n))"

definition send_install_snapshot :: "'e iface \<Rightarrow> NodeId \<Rightarrow> 'e RaftNode \<Rightarrow> 'e RaftNode" where
  "send_install_snapshot I peer n =
     (if nd_snap_last_index n = 0 then n
      else nd_send I peer (encode_install_snapshot
             \<lparr>is_term = nd_current_term n, is_leader_id = nd_id n,
              is_last_included_index = nd_snap_last_index n,
              is_last_included_term = nd_snap_last_term n, is_data = nd_snap_data n\<rparr>) n)"

definition replicate_to :: "'e iface \<Rightarrow> NodeId \<Rightarrow> 'e RaftNode \<Rightarrow> 'e RaftNode outcome" where
  "replicate_to I peer n =
     (if nd_role n \<noteq> Leader then Ret n
      else
        let n = n\<lparr>nd_next_index := om_touch peer (nd_next_index n)\<rparr>;
            ni = om_get (nd_next_index n) peer
        in if ni \<le> nd_snap_last_index n then Ret (send_install_snapshot I peer n)
           else
             let prev_index = ni - 1;
                 prev_term_r =
                   (if prev_index > 0
                    then mapR (\<lambda>t. if log_contains prev_index t (nd_log n) then t else 0)
                           (log_term_at prev_index (nd_log n))
                    else Inr 0)
             in liftO prev_term_r n (\<lambda>prev_term.
                  let entries = log_slice prev_index
                        (min (prev_index + cfg_max_entries_per_ae (nd_cfg n)) (log_last_index (nd_log n)))
                        (nd_log n);
                      n = (if entries \<noteq> []
                           then n\<lparr>nd_next_index := om_put peer (le_index (last entries) + 1) (nd_next_index n)\<rparr>
                           else n)
                  in Ret (nd_send I peer (encode_append_entries
                       \<lparr>ae_term = nd_current_term n, ae_leader_id = nd_id n,
                        ae_prev_log_index = prev_index, ae_prev_log_term = prev_term,
                        ae_entries = entries, ae_leader_commit = nd_commit_index n\<rparr>) n)))"

definition replicate_all :: "'e iface \<Rightarrow> 'e RaftNode \<Rightarrow> 'e RaftNode outcome" where
  "replicate_all I n = foldO (replicate_to I) (nd_peers n) n"

definition become_leader :: "'e iface \<Rightarrow> 'e RaftNode \<Rightarrow> 'e RaftNode outcome" where
  "become_leader I n =
     (if nd_role n = Leader then Ret n
      else
        let n = n\<lparr>nd_role := Leader, nd_leader_id := Some (nd_id n), nd_votes_received := {||},
                  nd_vote_count := 0\<rparr>;
            n = cancel_election_timeout I n;
            last = log_last_index (nd_log n);
            n = n\<lparr>nd_next_index :=
                    om_put (nd_id n) (last + 1) (fold (\<lambda>p m. om_put p (last + 1) m) (nd_peers n) []),
                  nd_match_index :=
                    om_put (nd_id n) last (fold (\<lambda>p m. om_put p 0 m) (nd_peers n) [])\<rparr>;
            n = env_do (if_state_change I (nd_id n) (nd_role n) (nd_current_term n)) n;
            n = schedule_heartbeat I n
        in replicate_all I n)"

definition become_candidate :: "'e iface \<Rightarrow> 'e RaftNode \<Rightarrow> 'e RaftNode outcome" where
  "become_candidate I n =
     (if \<not> nd_running n then Ret n
      else
        let n = n\<lparr>nd_current_term := nd_current_term n + 1, nd_role := Candidate,
                  nd_voted_for := Some (nd_id n), nd_votes_received := {||}, nd_vote_count := 1\<rparr>;
            n = n\<lparr>nd_election_term := nd_current_term n, nd_leader_id := None\<rparr>;
            n = persist n;
            n = env_do (if_state_change I (nd_id n) (nd_role n) (nd_current_term n)) n;
            rv = \<lparr>rv_term = nd_current_term n, rv_candidate_id = nd_id n,
                  rv_last_log_index = log_last_index (nd_log n),
                  rv_last_log_term = log_last_term (nd_log n)\<rparr>;
            n = fold (\<lambda>peer. nd_send I peer (encode_request_vote rv)) (nd_peers n) n;
            n = schedule_election_timeout I (cancel_election_timeout I n)
        in if unat (nd_vote_count n) \<ge> quorum n then become_leader I n else Ret n)"

definition on_election_timeout :: "'e iface \<Rightarrow> 'e RaftNode \<Rightarrow> 'e RaftNode outcome" where
  "on_election_timeout I n = (if nd_role n = Leader then Ret n else become_candidate I n)"

definition on_heartbeat :: "'e iface \<Rightarrow> 'e RaftNode \<Rightarrow> 'e RaftNode outcome" where
  "on_heartbeat I n =
     (if nd_role n \<noteq> Leader then Ret n
      else thenO (replicate_all I n) (\<lambda>n. Ret (schedule_heartbeat I n)))"

section \<open>Snapshots\<close>

definition kv_bytes :: "KvStore \<Rightarrow> byte list" where
  "kv_bytes kv = enc_u32 (of_nat (length kv)) @ concat (map (\<lambda>(k, v). enc_str k @ enc_str v) kv)"

definition dec_kv_pair :: "byte list \<Rightarrow> exn + ((string \<times> string) \<times> byte list)" where
  "dec_kv_pair bs = bindR (dec_str bs) (\<lambda>(k, r). bindR (dec_str r) (\<lambda>(v, r). Inr ((k, v), r)))"

definition decode_kv :: "byte list \<Rightarrow> exn + KvStore" where
  "decode_kv bs =
     bindR (dec_u32 bs) (\<lambda>(count, r).
     bindR (dec_n dec_kv_pair (unat count) r) (\<lambda>(kvs, r).
     Inr (fold (\<lambda>(k, v). om_put k v) kvs [])))"

definition snapshot_bytes :: "Index \<Rightarrow> Term \<Rightarrow> byte list \<Rightarrow> byte list" where
  "snapshot_bytes i t d = enc_u64 i @ enc_u64 t @ enc_blob d"

definition save_snapshot :: "'e RaftNode \<Rightarrow> 'e RaftNode" where
  "save_snapshot n =
     n\<lparr>nd_snapshot_store :=
          ds_flush (ds_append (snapshot_bytes (nd_snap_last_index n) (nd_snap_last_term n) (nd_snap_data n))
            (ds_truncate_to 0 (nd_snapshot_store n)))\<rparr>"

definition take_snapshot :: "'e RaftNode \<Rightarrow> 'e RaftNode outcome" where
  "take_snapshot n =
     (if nd_last_applied n \<le> nd_snap_last_index n then Ret n
      else liftO (log_term_at (nd_last_applied n) (nd_log n)) n (\<lambda>snap_term.
             let n = n\<lparr>nd_snap_data := kv_bytes (nd_kv n), nd_snap_last_index := nd_last_applied n,
                       nd_snap_last_term := snap_term\<rparr>;
                 n = n\<lparr>nd_log := log_set_snapshot (nd_snap_last_index n) (nd_snap_last_term n) (nd_log n)\<rparr>
             in Ret (persist (save_snapshot n))))"

definition load_snapshot :: "'e RaftNode \<Rightarrow> 'e RaftNode outcome" where
  "load_snapshot n =
     (if ds_durable_size (nd_snapshot_store n) = 0 then Ret n
      else
        liftO (bindR (dec_u64 (ds_read_durable (nd_snapshot_store n))) (\<lambda>(i, r).
               bindR (dec_u64 r) (\<lambda>(t, r).
               bindR (dec_u32 r) (\<lambda>(len, r).
               bindR (dec_n dec_u8 (unat len) r) (\<lambda>(d, r).
               bindR (decode_kv d) (\<lambda>kv.
               Inr (i, t, d, kv))))))) n
          (\<lambda>(i, t, d, kv).
             Ret (n\<lparr>nd_snap_last_index := i, nd_snap_last_term := t, nd_snap_data := d, nd_kv := kv,
                    nd_commit_index := i, nd_last_applied := i,
                    nd_log := log_set_snapshot i t (nd_log n)\<rparr>)))"

section \<open>Membership changes, applying and committing\<close>

definition apply_membership_change :: "'e iface \<Rightarrow> command \<Rightarrow> 'e RaftNode \<Rightarrow> 'e RaftNode outcome" where
  "apply_membership_change I cmd n =
     (case cmd of
        CmdAddServer new_id \<Rightarrow>
          if new_id \<notin> set (nd_peers n) \<and> new_id \<noteq> nd_id n
          then let n = n\<lparr>nd_peers := sort (nd_peers n @ [new_id])\<rparr>
               in if nd_role n = Leader
                  then replicate_to I new_id
                         (n\<lparr>nd_next_index := om_put new_id (log_last_index (nd_log n) + 1) (nd_next_index n),
                            nd_match_index := om_put new_id 0 (nd_match_index n)\<rparr>)
                  else Ret n
          else Ret n
      | CmdRemoveServer rem_id \<Rightarrow>
          let n = n\<lparr>nd_peers := removeAll rem_id (nd_peers n),
                    nd_next_index := om_erase rem_id (nd_next_index n),
                    nd_match_index := om_erase rem_id (nd_match_index n)\<rparr>
          in if rem_id = nd_id n \<and> nd_role n = Leader
             then Ret (become_follower I (nd_current_term n) None n)
             else Ret n
      | _ \<Rightarrow> Ret n)"

definition reply_to_client :: "'e iface \<Rightarrow> client_cb \<Rightarrow> CmdResult \<Rightarrow> 'e RaftNode \<Rightarrow> 'e RaftNode" where
  "reply_to_client I cb res n =
     (case cb of
        ReplyCb dest cr \<Rightarrow>
          nd_send I dest (encode_client_reply
            \<lparr>crep_client_id = cr_client_id cr, crep_request_id = cr_request_id cr, crep_success = True,
             crep_result = res, crep_leader_hint = nd_id n\<rparr>) n
      | ExternalCb k \<Rightarrow> env_do (if_client_cb I k res) n)"

definition resolve_client :: "'e iface \<Rightarrow> CmdResult \<Rightarrow> 'e RaftNode \<Rightarrow> 'e RaftNode" where
  "resolve_client I res n =
     (case map_of (nd_pending_clients n) (nd_last_applied n) of
        Some (cb, _) \<Rightarrow>
          let n = reply_to_client I cb res n
          in n\<lparr>nd_pending_clients := om_erase (nd_last_applied n) (nd_pending_clients n)\<rparr>
      | None \<Rightarrow> n)"

definition apply_entry :: "'e iface \<Rightarrow> LogEntry \<Rightarrow> 'e RaftNode \<Rightarrow> 'e RaftNode outcome" where
  "apply_entry I entry n =
     (let r = kv_apply (le_cmd entry) (nd_kv n);
          n = n\<lparr>nd_kv := snd r\<rparr>
      in thenO
           (if is_config (le_cmd entry)
            then thenO (apply_membership_change I (le_cmd entry) n)
                   (\<lambda>n. Ret (n\<lparr>nd_config_change_pending := False\<rparr>))
            else Ret n)
           (\<lambda>n. Ret (resolve_client I (fst r) n)))"

definition apply_one :: "'e iface \<Rightarrow> 'e RaftNode \<Rightarrow> 'e RaftNode outcome" where
  "apply_one I n =
     (let n = n\<lparr>nd_last_applied := nd_last_applied n + 1\<rparr> in
      if nd_last_applied n \<le> lg_base_index (nd_log n) then Ret n
      else liftO (log_at (nd_last_applied n) (nd_log n)) n (\<lambda>entry. apply_entry I entry n))"

text \<open>
  Applying one entry advances \<open>last_applied_\<close> by one and leaves \<open>commit_index_\<close>, so the loop of
  \<open>apply_committed_entries\<close> ends.
\<close>

lemma replicate_to_indices:
  "nd_last_applied (the_state (replicate_to I p n)) = nd_last_applied n"
  "nd_commit_index (the_state (replicate_to I p n)) = nd_commit_index n"
  by (simp_all add: replicate_to_def Let_def liftO_def send_install_snapshot_def nd_send_def env_do_def
      split: sum.splits)

lemma become_follower_indices:
  "nd_last_applied (become_follower I t l n) = nd_last_applied n"
  "nd_commit_index (become_follower I t l n) = nd_commit_index n"
  by (simp_all add: become_follower_def Let_def persist_def cancel_pending_reads_def cancel_heartbeat_def
      env_do_def schedule_election_timeout_def cancel_election_timeout_def)

lemma apply_membership_change_indices:
  "nd_last_applied (the_state (apply_membership_change I c n)) = nd_last_applied n"
  "nd_commit_index (the_state (apply_membership_change I c n)) = nd_commit_index n"
  by (simp_all add: apply_membership_change_def Let_def replicate_to_indices become_follower_indices
      split: command.splits)

lemma resolve_client_indices:
  "nd_last_applied (resolve_client I r n) = nd_last_applied n"
  "nd_commit_index (resolve_client I r n) = nd_commit_index n"
  by (auto simp: resolve_client_def reply_to_client_def nd_send_def env_do_def Let_def
      split: option.splits client_cb.splits)

lemma apply_entry_indices:
  "ends (\<lambda>s. nd_last_applied s = nd_last_applied n \<and> nd_commit_index s = nd_commit_index n) (apply_entry I e n)"
  unfolding apply_entry_def Let_def
  by (intro ends_intros) (simp_all add: ends_def apply_membership_change_indices resolve_client_indices)

lemma apply_one_indices:
  "ends (\<lambda>s. nd_last_applied s = nd_last_applied n + 1 \<and> nd_commit_index s = nd_commit_index n) (apply_one I n)"
  unfolding apply_one_def Let_def
  by (intro ends_intros ends_mono [OF apply_entry_indices]) simp_all

lemma thenO_cong [fundef_cong]:
  "r = r' \<Longrightarrow> (\<And>s. r' = Ret s \<Longrightarrow> f s = g s) \<Longrightarrow> thenO r f = thenO r' g"
  by (cases r') auto

function apply_loop :: "'e iface \<Rightarrow> 'e RaftNode \<Rightarrow> 'e RaftNode outcome" where
  "apply_loop I n =
     (if nd_last_applied n < nd_commit_index n then thenO (apply_one I n) (\<lambda>n. apply_loop I n) else Ret n)"
  by pat_completeness auto
termination
proof (relation "measure (\<lambda>(I, n). unat (nd_commit_index n) - unat (nd_last_applied n))")
  fix I :: "'e iface" and n n' :: "'e RaftNode"
  assume lt: "nd_last_applied n < nd_commit_index n" and "apply_one I n = Ret n'"
  then have "nd_last_applied n' = nd_last_applied n + 1" "nd_commit_index n' = nd_commit_index n"
    using apply_one_indices [of n I] by simp_all
  then show "((I, n'), (I, n)) \<in> measure (\<lambda>(I, n). unat (nd_commit_index n) - unat (nd_last_applied n))"
    using lt by (simp add: unat_succ_64 [OF lt] word_less_unat)
qed simp

declare apply_loop.simps [simp del]

lemma apply_loop_ends:
  "P n \<Longrightarrow> (\<And>n. P n \<Longrightarrow> nd_last_applied n < nd_commit_index n \<Longrightarrow> ends P (apply_one I n)) \<Longrightarrow>
   ends P (apply_loop I n)"
proof (induction I n rule: apply_loop.induct)
  case (1 I n)
  then show ?case
    by (subst apply_loop.simps) (auto intro!: ends_thenO)
qed

definition apply_committed_entries :: "'e iface \<Rightarrow> 'e RaftNode \<Rightarrow> 'e RaftNode outcome" where
  "apply_committed_entries I n =
     thenO (apply_loop I n) (\<lambda>n.
       let n = drain_pending_reads I n
       in if cfg_snapshot_threshold (nd_cfg n) > 0 \<and> log_size (nd_log n) > cfg_snapshot_threshold (nd_cfg n)
          then take_snapshot n else Ret n)"

definition match_count :: "Index \<Rightarrow> 'e RaftNode \<Rightarrow> nat" where
  "match_count i n = length (filter (\<lambda>(p, mi). mi \<ge> i) (nd_match_index n))"

function advance_from :: "'e iface \<Rightarrow> Index \<Rightarrow> 'e RaftNode \<Rightarrow> 'e RaftNode outcome" where
  "advance_from I i n =
     (if i > nd_commit_index n then
        if i \<le> lg_base_index (nd_log n) then Ret n
        else liftO (if cfg_bug_commit_prior_term (nd_cfg n) then Inr False
                    else mapR (\<lambda>e. le_term e \<noteq> nd_current_term n) (log_at i (nd_log n))) n
               (\<lambda>skip.
                 if skip then advance_from I (i - 1) n
                 else if match_count i n \<ge> quorum n
                      then apply_committed_entries I (n\<lparr>nd_commit_index := i\<rparr>)
                      else advance_from I (i - 1) n)
      else Ret n)"
  by pat_completeness auto
termination
proof (relation "measure (\<lambda>(I, i, n). unat i)")
  fix i :: Index and n :: "'e RaftNode" and I :: "'e iface"
  assume "nd_commit_index n < i"
  then have "i \<noteq> 0" by (auto simp: word_less_unat)
  then show "((I, i - 1, n), (I, i, n)) \<in> measure (\<lambda>(I, i, n). unat i)"
    by (simp add: unat_minus_one word_gt_0 unat_gt_0)
  then show "((I, i - 1, n), (I, i, n)) \<in> measure (\<lambda>(I, i, n). unat i)" .
qed simp

declare advance_from.simps [simp del]

text \<open>The loop either leaves the node alone or commits one index that passed the tests.\<close>

lemma advance_from_ends:
  assumes "P n"
    and "\<And>j. nd_commit_index n < j \<Longrightarrow> j \<le> i \<Longrightarrow> lg_base_index (nd_log n) < j \<Longrightarrow>
      quorum n \<le> match_count j n \<Longrightarrow>
      cfg_bug_commit_prior_term (nd_cfg n)
        \<or> (\<exists>e. log_at j (nd_log n) = Inr e \<and> le_term e = nd_current_term n) \<Longrightarrow>
      ends P (apply_committed_entries I (n\<lparr>nd_commit_index := j\<rparr>))"
  shows "ends P (advance_from I i n)"
  using assms
proof (induction I i n rule: advance_from.induct)
  case (1 I i n)
  have step: "ends P (advance_from I (i - 1) n)"
    if "nd_commit_index n < i" "\<not> i \<le> lg_base_index (nd_log n)"
      "(if cfg_bug_commit_prior_term (nd_cfg n) then Inr False
        else mapR (\<lambda>e. le_term e \<noteq> nd_current_term n) (log_at i (nd_log n))) = Inr skip"
      "skip \<or> \<not> quorum n \<le> match_count i n" for skip
  proof -
    have "1 \<le> i" using that(1) by (simp add: word_le_unat word_less_unat)
    then have "i - 1 \<le> i" by (simp add: word_simps)
    then have "j \<le> i" if "j \<le> i - 1" for j using that by (rule order_trans [rotated])
    with that show ?thesis
      using 1(3,4) by (cases skip) (auto intro!: "1.IH")
  qed
  show ?case
    using 1(3,4) step
    by (subst advance_from.simps) (auto simp: mapR_eq_Inr intro!: ends_liftO split: if_splits)
qed

definition maybe_advance_commit_index :: "'e iface \<Rightarrow> 'e RaftNode \<Rightarrow> 'e RaftNode outcome" where
  "maybe_advance_commit_index I n = advance_from I (log_last_index (nd_log n)) n"

end
