(* ===== verification/Raft_Handlers.thy ===== *)
theory Raft_Handlers
  imports Raft_Node
begin

text \<open>
  The public methods, message handlers and timer callbacks of \<open>RaftNode\<close>
  (\<open>src/raft/node.cpp\<close>): lifecycle, client interface, the nine message handlers, the
  dispatcher \<open>on_message\<close> with its \<open>catch\<close> clauses, and the closures given to
  \<open>schedule\<close>.
\<close>

section \<open>Lifecycle\<close>

definition load_meta :: "'e RaftNode \<Rightarrow> 'e RaftNode outcome" where
  "load_meta n =
     (if ds_durable_size (nd_meta_store n) > 0 then
        liftO (bindR (dec_u64 (ds_read_durable (nd_meta_store n))) (\<lambda>(t, r).
               bindR (dec_boolean r) (\<lambda>(has_voted, r).
               if has_voted then bindR (dec_u32 r) (\<lambda>(v, r). Inr (t, Some v))
               else Inr (t, nd_voted_for n)))) n
          (\<lambda>(t, v). Ret (n\<lparr>nd_current_term := t, nd_voted_for := v\<rparr>))
      else Ret n)"

definition load_log :: "'e RaftNode \<Rightarrow> 'e RaftNode outcome" where
  "load_log n =
     (if ds_durable_size (nd_log_store n) > 0
      then liftO (log_load_from (nd_log_store n) (nd_log n)) n (\<lambda>l. Ret (n\<lparr>nd_log := l\<rparr>))
      else Ret n)"

definition nd_start :: "'e iface \<Rightarrow> 'e RaftNode \<Rightarrow> 'e RaftNode outcome" where
  "nd_start I n =
     (let n = n\<lparr>nd_running := True\<rparr>;
          n = env_do (if_set_handler I (nd_id n)) n
      in thenO (load_snapshot n) (\<lambda>n.
         thenO (load_meta n) (\<lambda>n.
         thenO (load_log n) (\<lambda>n.
         thenO (apply_committed_entries I n) (\<lambda>n.
         Ret (schedule_election_timeout I n))))))"

definition nd_crash :: "'e iface \<Rightarrow> 'e RaftNode \<Rightarrow> 'e RaftNode outcome" where
  "nd_crash I n =
     (let n = n\<lparr>nd_running := False\<rparr>;
          n = env_do (if_remove_handler I (nd_id n)) n;
          n = n\<lparr>nd_election_scheduled := False, nd_heartbeat_scheduled := False,
                nd_meta_store := ds_crash (nd_meta_store n), nd_log_store := ds_crash (nd_log_store n),
                nd_snapshot_store := ds_crash (nd_snapshot_store n),
                nd_role := Follower, nd_commit_index := nd_snap_last_index n,
                nd_last_applied := nd_snap_last_index n, nd_leader_id := None,
                nd_votes_received := {||}, nd_next_index := [], nd_match_index := [],
                nd_vote_count := 0, nd_election_term := 0, nd_config_change_pending := False, nd_kv := []\<rparr>
      in thenO
           (if nd_snap_data n \<noteq> []
            then liftO (decode_kv (nd_snap_data n)) n (\<lambda>kv. Ret (n\<lparr>nd_kv := kv\<rparr>))
            else Ret n)
           (\<lambda>n.
             let n = fold (\<lambda>(idx, cb, _). reply_to_client I cb
                             \<lparr>res_ok = False, res_value = '''', res_error = ''node_crashed''\<rparr>)
                       (nd_pending_clients n) n;
                 n = n\<lparr>nd_pending_clients := []\<rparr>;
                 n = env_do (fold (\<lambda>pr. if_cancel I (pr_timeout_id pr)) (nd_pending_reads n)) n
             in Ret (n\<lparr>nd_pending_reads := []\<rparr>)))"

definition nd_restart :: "'e iface \<Rightarrow> 'e RaftNode \<Rightarrow> 'e RaftNode outcome" where
  "nd_restart I n =
     nd_start I (n\<lparr>nd_current_term := 0, nd_voted_for := None, nd_log := log_init, nd_kv := []\<rparr>)"

section \<open>Client interface\<close>

definition submit ::
  "'e iface \<Rightarrow> u64 \<Rightarrow> u64 \<Rightarrow> command \<Rightarrow> client_cb \<Rightarrow> 'e RaftNode \<Rightarrow> bool \<times> 'e RaftNode outcome" where
  "submit I client_id request_id cmd cb n =
     (if \<not> nd_running n \<or> nd_role n \<noteq> Leader then (False, Ret n)
      else if is_config cmd \<and> nd_config_change_pending n then (False, Ret n)
      else
        let n = (if is_config cmd then n\<lparr>nd_config_change_pending := True\<rparr> else n);
            new_index = log_last_index (nd_log n) + 1;
            entry = \<lparr>le_term = nd_current_term n, le_index = new_index, le_cmd = cmd\<rparr>
        in (True,
            liftO (log_append entry (nd_log n)) n (\<lambda>l.
              let n = persist (n\<lparr>nd_log := l\<rparr>);
                  n = n\<lparr>nd_match_index := om_put (nd_id n) new_index (nd_match_index n),
                        nd_next_index := om_put (nd_id n) (new_index + 1) (nd_next_index n),
                        nd_pending_clients := om_put new_index (cb, ucast client_id) (nd_pending_clients n)\<rparr>
              in thenO (replicate_all I n) (maybe_advance_commit_index I))))"

definition local_get :: "string \<Rightarrow> 'e RaftNode \<Rightarrow> string option" where
  "local_get key n = kv_get key (nd_kv n)"

definition read_index :: "'e iface \<Rightarrow> string \<Rightarrow> nat \<Rightarrow> 'e RaftNode \<Rightarrow> bool \<times> 'e RaftNode" where
  "read_index I key cb n =
     (if \<not> nd_running n \<or> nd_role n \<noteq> Leader then (False, n)
      else if nd_peers n = [] then (True, env_do (if_read_cb I cb True (kv_get key (nd_kv n))) n)
      else
        let rnd = nd_next_read_round n;
            s = if_schedule I (cfg_read_timeout (nd_cfg n)) (ReadTimer (nd_id n) rnd) (nd_env n);
            pr = \<lparr>pr_round = rnd, pr_read_index = nd_commit_index n, pr_key = key, pr_cb = cb,
                  pr_acks = 1, pr_timeout_id = fst s\<rparr>;
            n = n\<lparr>nd_next_read_round := rnd + 1, nd_pending_reads := nd_pending_reads n @ [pr],
                  nd_env := snd s\<rparr>;
            req = encode_read_index_request
                    \<lparr>rir_term = nd_current_term n, rir_leader_id = nd_id n, rir_round = rnd\<rparr>
        in (True, fold (\<lambda>peer. nd_send I peer req) (nd_peers n) n))"

section \<open>Voting\<close>

definition handle_request_vote :: "'e iface \<Rightarrow> NodeId \<Rightarrow> RequestVote \<Rightarrow> 'e RaftNode \<Rightarrow> 'e RaftNode" where
  "handle_request_vote I from rv n =
     (let n = (if rv_term rv > nd_current_term n then become_follower I (rv_term rv) None n else n);
          grant = rv_term rv \<ge> nd_current_term n
                  \<and> (nd_voted_for n = None \<or> nd_voted_for n = Some (rv_candidate_id rv))
                  \<and> (cfg_bug_skip_vote_uptodate (nd_cfg n)
                     \<or> is_log_up_to_date (rv_last_log_index rv) (rv_last_log_term rv) n);
          n = (if grant
               then schedule_election_timeout I (cancel_election_timeout I
                      (persist (n\<lparr>nd_voted_for := Some (rv_candidate_id rv)\<rparr>)))
               else n)
      in nd_send I from (encode_request_vote_reply
           \<lparr>rvr_term = nd_current_term n, rvr_vote_granted = grant\<rparr>) n)"

definition handle_request_vote_reply ::
  "'e iface \<Rightarrow> NodeId \<Rightarrow> RequestVoteReply \<Rightarrow> 'e RaftNode \<Rightarrow> 'e RaftNode outcome" where
  "handle_request_vote_reply I from rvr n =
     (if nd_role n \<noteq> Candidate then Ret n
      else if rvr_term rvr > nd_current_term n then Ret (become_follower I (rvr_term rvr) None n)
      else if rvr_term rvr < nd_current_term n \<or> rvr_term rvr \<noteq> nd_election_term n then Ret n
      else if rvr_vote_granted rvr then
        let n = n\<lparr>nd_votes_received := finsert from (nd_votes_received n)\<rparr>;
            n = n\<lparr>nd_vote_count := of_nat (fcard (nd_votes_received n)) + 1\<rparr>
        in if unat (nd_vote_count n) \<ge> quorum n then become_leader I n else Ret n
      else Ret n)"

section \<open>Log replication\<close>

text \<open>One iteration of the loop over \<open>ae.entries\<close>.\<close>

definition append_entry_step :: "LogEntry \<Rightarrow> 'e RaftNode \<Rightarrow> 'e RaftNode outcome" where
  "append_entry_step e n =
     (let app = (\<lambda>l. liftO (log_append e l) (n\<lparr>nd_log := l\<rparr>) (\<lambda>l'. Ret (n\<lparr>nd_log := l'\<rparr>)))
      in if le_index e \<le> log_last_index (nd_log n) then
           if le_index e \<le> lg_base_index (nd_log n) then Ret n
           else liftO (log_at (le_index e) (nd_log n)) n (\<lambda>old.
                  if le_term old \<noteq> le_term e then app (log_truncate_from (le_index e) (nd_log n))
                  else Ret n)
         else app (nd_log n))"

definition conflict_reply :: "AppendEntries \<Rightarrow> Term \<Rightarrow> 'e RaftNode \<Rightarrow> exn + AppendEntriesReply" where
  "conflict_reply ae reply_term n =
     (let l = nd_log n in
      if ae_prev_log_index ae > log_last_index l then
        Inr \<lparr>aer_term = reply_term, aer_success = False,
             aer_conflict_index = log_last_index l + 1, aer_conflict_term = 0\<rparr>
      else if ae_prev_log_index ae > lg_base_index l then
        mapR (\<lambda>e. let ct = le_term e; ci = log_last_index_for_term ct l
                  in \<lparr>aer_term = reply_term, aer_success = False,
                      aer_conflict_index = (if ci = 0 then 1 else ci), aer_conflict_term = ct\<rparr>)
          (log_at (ae_prev_log_index ae) l)
      else
        Inr \<lparr>aer_term = reply_term, aer_success = False,
             aer_conflict_index = lg_base_index l + 1, aer_conflict_term = 0\<rparr>)"

definition handle_append_entries ::
  "'e iface \<Rightarrow> NodeId \<Rightarrow> AppendEntries \<Rightarrow> 'e RaftNode \<Rightarrow> 'e RaftNode outcome" where
  "handle_append_entries I from ae n =
     (let reply_term = nd_current_term n in
      if ae_term ae < nd_current_term n then
        Ret (nd_send I from (encode_append_entries_reply
          \<lparr>aer_term = reply_term, aer_success = False, aer_conflict_index = 0, aer_conflict_term = 0\<rparr>) n)
      else
        let n = (if ae_term ae > nd_current_term n then become_follower I (ae_term ae) (Some from) n
                 else become_follower I (nd_current_term n) (Some from) n)
        in if \<not> log_contains (ae_prev_log_index ae) (ae_prev_log_term ae) (nd_log n) then
             liftO (conflict_reply ae reply_term n) n (\<lambda>reply.
               Ret (nd_send I from (encode_append_entries_reply reply) n))
           else
             thenO (foldO append_entry_step (ae_entries ae) n) (\<lambda>n.
             let n = persist n in
             thenO (if ae_leader_commit ae > nd_commit_index n
                    then apply_committed_entries I
                           (n\<lparr>nd_commit_index := min (ae_leader_commit ae) (log_last_index (nd_log n))\<rparr>)
                    else Ret n) (\<lambda>n.
             Ret (nd_send I from (encode_append_entries_reply
               \<lparr>aer_term = nd_current_term n, aer_success = True, aer_conflict_index = 0,
                aer_conflict_term = 0\<rparr>) n))))"

definition handle_append_entries_reply ::
  "'e iface \<Rightarrow> NodeId \<Rightarrow> AppendEntriesReply \<Rightarrow> 'e RaftNode \<Rightarrow> 'e RaftNode outcome" where
  "handle_append_entries_reply I from aer n =
     (if nd_role n \<noteq> Leader then Ret n
      else if aer_term aer > nd_current_term n then Ret (become_follower I (aer_term aer) None n)
      else if aer_term aer < nd_current_term n then Ret n
      else if aer_success aer then
        let new_match = om_get (nd_next_index n) from - 1;
            m = max (om_get (nd_match_index n) from) new_match;
            n = n\<lparr>nd_match_index := om_put from m (nd_match_index n),
                  nd_next_index := om_put from (m + 1) (nd_next_index n)\<rparr>
        in maybe_advance_commit_index I n
      else
        let ni = (if aer_conflict_term aer = 0 then aer_conflict_index aer
                  else let last_in_term = log_last_index_for_term (aer_conflict_term aer) (nd_log n)
                       in if last_in_term > 0 then last_in_term + 1 else aer_conflict_index aer);
            n = n\<lparr>nd_next_index := om_put from (if ni < 1 then 1 else ni) (nd_next_index n)\<rparr>
        in replicate_to I from n)"

section \<open>Snapshot transfer\<close>

definition handle_install_snapshot ::
  "'e iface \<Rightarrow> NodeId \<Rightarrow> InstallSnapshot \<Rightarrow> 'e RaftNode \<Rightarrow> 'e RaftNode outcome" where
  "handle_install_snapshot I from is n =
     (if is_term is < nd_current_term n then Ret n
      else
        let n = (if is_term is > nd_current_term n then become_follower I (is_term is) (Some from) n
                 else become_follower I (nd_current_term n) (Some from) n);
            reply = (\<lambda>n. nd_send I from (encode_install_snapshot_reply
                        \<lparr>isr_term = nd_current_term n, isr_last_included_index = nd_snap_last_index n\<rparr>) n)
        in if is_last_included_index is \<le> nd_snap_last_index n then Ret (reply n)
           else
             let n = n\<lparr>nd_snap_last_index := is_last_included_index is,
                       nd_snap_last_term := is_last_included_term is,
                       nd_snap_data := is_data is, nd_kv := []\<rparr>
             in liftO (decode_kv (nd_snap_data n)) n (\<lambda>kv.
                  let n = n\<lparr>nd_kv := kv,
                            nd_log := log_set_snapshot (nd_snap_last_index n) (nd_snap_last_term n) (nd_log n),
                            nd_commit_index := max (nd_commit_index n) (nd_snap_last_index n),
                            nd_last_applied := max (nd_last_applied n) (nd_snap_last_index n)\<rparr>
                  in Ret (reply (persist (save_snapshot n)))))"

definition handle_install_snapshot_reply ::
  "'e iface \<Rightarrow> NodeId \<Rightarrow> InstallSnapshotReply \<Rightarrow> 'e RaftNode \<Rightarrow> 'e RaftNode outcome" where
  "handle_install_snapshot_reply I from isr n =
     (if nd_role n \<noteq> Leader then Ret n
      else if isr_term isr > nd_current_term n then Ret (become_follower I (isr_term isr) None n)
      else
        let m = max (om_get (nd_match_index n) from) (isr_last_included_index isr);
            n = n\<lparr>nd_match_index := om_put from m (nd_match_index n),
                  nd_next_index := om_put from (m + 1) (nd_next_index n)\<rparr>
        in maybe_advance_commit_index I n)"

section \<open>Read-index\<close>

definition handle_read_index_request ::
  "'e iface \<Rightarrow> NodeId \<Rightarrow> ReadIndexRequest \<Rightarrow> 'e RaftNode \<Rightarrow> 'e RaftNode" where
  "handle_read_index_request I from req n =
     (if rir_term req < nd_current_term n then n
      else
        let n = (if rir_term req > nd_current_term n then become_follower I (rir_term req) (Some from) n
                 else become_follower I (nd_current_term n) (Some from) n)
        in nd_send I from (encode_read_index_reply
             \<lparr>rirep_term = nd_current_term n, rirep_round = rir_round req\<rparr>) n)"

fun ack_first :: "u64 \<Rightarrow> PendingRead list \<Rightarrow> PendingRead list" where
  "ack_first r [] = []"
| "ack_first r (pr # prs) =
     (if pr_round pr = r then pr\<lparr>pr_acks := pr_acks pr + 1\<rparr> # prs else pr # ack_first r prs)"

definition handle_read_index_reply ::
  "'e iface \<Rightarrow> NodeId \<Rightarrow> ReadIndexReply \<Rightarrow> 'e RaftNode \<Rightarrow> 'e RaftNode" where
  "handle_read_index_reply I from rep n =
     (if rirep_term rep > nd_current_term n then become_follower I (rirep_term rep) None n
      else if nd_role n \<noteq> Leader \<or> rirep_term rep \<noteq> nd_current_term n then n
      else drain_pending_reads I
             (n\<lparr>nd_pending_reads := ack_first (rirep_round rep) (nd_pending_reads n)\<rparr>))"

definition handle_client_request ::
  "'e iface \<Rightarrow> NodeId \<Rightarrow> ClientRequest \<Rightarrow> 'e RaftNode \<Rightarrow> 'e RaftNode outcome" where
  "handle_client_request I from cr n =
     (if nd_role n \<noteq> Leader then
        Ret (nd_send I from (encode_client_reply
          \<lparr>crep_client_id = cr_client_id cr, crep_request_id = cr_request_id cr, crep_success = False,
           crep_result = \<lparr>res_ok = False, res_value = '''', res_error = ''not_leader''\<rparr>,
           crep_leader_hint = (case nd_leader_id n of Some l \<Rightarrow> l | None \<Rightarrow> 0)\<rparr>) n)
      else snd (submit I (cr_client_id cr) (cr_request_id cr) (cr_cmd cr) (ReplyCb from cr) n))"

section \<open>Dispatch\<close>

definition dispatch :: "'e iface \<Rightarrow> NodeId \<Rightarrow> payload \<Rightarrow> 'e RaftNode \<Rightarrow> 'e RaftNode outcome" where
  "dispatch I from p n =
     (let tag = hd p in
      if tag = msg_tag RequestVoteT then
        liftO (decode_request_vote p) n (\<lambda>m. Ret (handle_request_vote I from m n))
      else if tag = msg_tag RequestVoteReplyT then
        liftO (decode_request_vote_reply p) n (\<lambda>m. handle_request_vote_reply I from m n)
      else if tag = msg_tag AppendEntriesT then
        liftO (decode_append_entries p) n (\<lambda>m. handle_append_entries I from m n)
      else if tag = msg_tag AppendEntriesReplyT then
        liftO (decode_append_entries_reply p) n (\<lambda>m. handle_append_entries_reply I from m n)
      else if tag = msg_tag ClientRequestT then
        liftO (decode_client_request p) n (\<lambda>m. handle_client_request I from m n)
      else if tag = msg_tag InstallSnapshotT then
        liftO (decode_install_snapshot p) n (\<lambda>m. handle_install_snapshot I from m n)
      else if tag = msg_tag InstallSnapshotReplyT then
        liftO (decode_install_snapshot_reply p) n (\<lambda>m. handle_install_snapshot_reply I from m n)
      else if tag = msg_tag ReadIndexRequestT then
        liftO (decode_read_index_request p) n (\<lambda>m. Ret (handle_read_index_request I from m n))
      else if tag = msg_tag ReadIndexReplyT then
        liftO (decode_read_index_reply p) n (\<lambda>m. Ret (handle_read_index_reply I from m n))
      else Ret n)"

definition catch_exceptions :: "'s outcome \<Rightarrow> 's outcome" where
  "catch_exceptions r = (case r of Ret s \<Rightarrow> Ret s | Raise e s \<Rightarrow> if catchable e then Ret s else Raise e s)"

definition on_message :: "'e iface \<Rightarrow> NodeId \<Rightarrow> payload \<Rightarrow> 'e RaftNode \<Rightarrow> 'e RaftNode outcome" where
  "on_message I from p n =
     (if \<not> nd_running n then Ret n
      else if p = [] then Ret n
      else catch_exceptions (dispatch I from p n))"

fun remove_first_round :: "u64 \<Rightarrow> PendingRead list \<Rightarrow> PendingRead list" where
  "remove_first_round r [] = []"
| "remove_first_round r (pr # prs) = (if pr_round pr = r then prs else pr # remove_first_round r prs)"

definition read_timeout :: "'e iface \<Rightarrow> u64 \<Rightarrow> 'e RaftNode \<Rightarrow> 'e RaftNode" where
  "read_timeout I rnd n =
     (case List.find (\<lambda>pr. pr_round pr = rnd) (nd_pending_reads n) of
        Some pr \<Rightarrow> (env_do (if_read_cb I (pr_cb pr) False None) n)
                     \<lparr>nd_pending_reads := remove_first_round rnd (nd_pending_reads n)\<rparr>
      | None \<Rightarrow> n)"

fun fire_timer :: "'e iface \<Rightarrow> timer \<Rightarrow> 'e RaftNode \<Rightarrow> 'e RaftNode outcome" where
  "fire_timer I (ElectionTimer i gen) n =
     (if gen \<noteq> nd_election_generation n then Ret n
      else let n = n\<lparr>nd_election_scheduled := False\<rparr>
           in if \<not> nd_running n then Ret n else on_election_timeout I n)"
| "fire_timer I (HeartbeatTimer i) n =
     (let n = n\<lparr>nd_heartbeat_scheduled := False\<rparr>
      in if \<not> nd_running n then Ret n else on_heartbeat I n)"
| "fire_timer I (ReadTimer i rnd) n = Ret (read_timeout I rnd n)"

lemma ends_catch [simp]: "ends P (catch_exceptions r) = ends P r"
  by (cases r) (auto simp: catch_exceptions_def)

end
