(* ===== verification/Node_Contracts.thy ===== *)
theory Node_Contracts
  imports Raft_Handlers
begin

text \<open>
  Contracts of the node's methods towards its clock, transport and observers.

  The locale \<open>observed_env\<close> is what the environment promises: the messages sent and the
  state-change callbacks are recorded, nothing else is. Inside it, \<open>quiet\<close> is what every
  method other than the voting ones guarantees: the term never goes back, a vote changes only
  together with the term, leadership is never gained, no vote is asked for or granted, and the
  durable copy of term and vote is kept up to date.
\<close>

section \<open>Durable term and vote\<close>

text \<open>What \<open>load_meta\<close> reads back from a meta store.\<close>

definition durable_meta :: "DurableStore \<Rightarrow> exn + (Term \<times> NodeId option)" where
  "durable_meta s =
     (if ds_durable_size s > 0 then
        bindR (dec_u64 (ds_read_durable s)) (\<lambda>(t, r).
        bindR (dec_boolean r) (\<lambda>(has_voted, r).
        if has_voted then bindR (dec_u32 r) (\<lambda>(v, r). Inr (t, Some v)) else Inr (t, None)))
      else Inr (0, None))"

definition meta_synced :: "'e RaftNode \<Rightarrow> bool" where
  "meta_synced n \<longleftrightarrow> ds_inv (nd_meta_store n)
     \<and> durable_meta (nd_meta_store n) = Inr (nd_current_term n, nd_voted_for n)"

lemma durable_meta_bytes:
  assumes "ds_inv s" "ds_read_durable s = meta_bytes t v"
  shows "durable_meta s = Inr (t, v)"
proof -
  have "ds_durable_size s > 0"
    using assms by (simp add: ds_durable_size_read meta_bytes_def)
  then show ?thesis
    using assms(2) u32.dec_enc_end boolean.dec_enc_end
    by (cases v) (simp_all add: durable_meta_def meta_bytes_def)
qed

lemma persist_meta_synced: "ds_inv (nd_meta_store n) \<Longrightarrow> meta_synced (persist n)"
  using ds.rewrite_durable [of "nd_meta_store n" "meta_bytes (nd_current_term n) (nd_voted_for n)"]
    ds.rewrite_invar [of "nd_meta_store n" "meta_bytes (nd_current_term n) (nd_voted_for n)"]
  by (simp add: meta_synced_def persist_def ds.rewrite_def durable_meta_bytes)

section \<open>Observed environments\<close>

datatype net_event = Sent NodeId NodeId payload | Changed NodeId Role Term

text \<open>Messages that neither ask for a vote nor grant one, and steps down.\<close>

fun benign :: "NodeId \<Rightarrow> net_event \<Rightarrow> bool" where
  "benign i (Sent from dest p) \<longleftrightarrow> from = i \<and> p \<noteq> [] \<and> hd p \<noteq> 1 \<and> hd p \<noteq> 2"
| "benign i (Changed j r t) \<longleftrightarrow> j = i \<and> r = Follower"

text \<open>The four preorders that make up the contract.\<close>

definition vote_kept :: "'e RaftNode \<Rightarrow> 'e RaftNode \<Rightarrow> bool" where
  "vote_kept n n' \<longleftrightarrow>
     nd_current_term n' = nd_current_term n \<and> nd_voted_for n' = nd_voted_for n
     \<or> nd_current_term n < nd_current_term n' \<and> nd_voted_for n' = None"

definition role_kept :: "'e RaftNode \<Rightarrow> 'e RaftNode \<Rightarrow> bool" where
  "role_kept n n' \<longleftrightarrow>
     nd_role n' = Follower
     \<or> nd_role n' = nd_role n \<and> nd_current_term n' = nd_current_term n
       \<and> nd_votes_received n' = nd_votes_received n"

definition ident_kept :: "'e RaftNode \<Rightarrow> 'e RaftNode \<Rightarrow> bool" where
  "ident_kept n n' \<longleftrightarrow>
     nd_id n' = nd_id n \<and> nd_cfg n' = nd_cfg n \<and> nd_running n' = nd_running n
     \<and> nd_election_term n' = nd_election_term n \<and> (meta_synced n \<longrightarrow> meta_synced n')"

definition benign_ext :: "NodeId \<Rightarrow> net_event set \<Rightarrow> net_event set \<Rightarrow> bool" where
  "benign_ext i E E' \<longleftrightarrow> E \<subseteq> E' \<and> (\<forall>ev \<in> E' - E. benign i ev)"

lemma vote_kept_trans: "vote_kept a b \<Longrightarrow> vote_kept b c \<Longrightarrow> vote_kept a c"
  unfolding vote_kept_def by (elim disjE conjE) (auto dest: order.strict_trans)

lemma role_kept_trans: "role_kept a b \<Longrightarrow> role_kept b c \<Longrightarrow> role_kept a c"
  unfolding role_kept_def by metis

lemma ident_kept_trans: "ident_kept a b \<Longrightarrow> ident_kept b c \<Longrightarrow> ident_kept a c"
  unfolding ident_kept_def by metis

lemma benign_ext_trans: "benign_ext i A B \<Longrightarrow> benign_ext i B C \<Longrightarrow> benign_ext i A C"
  unfolding benign_ext_def by blast

lemma kept_refl [simp]: "vote_kept n n" "role_kept n n" "ident_kept n n" "benign_ext i E E"
  by (simp_all add: vote_kept_def role_kept_def ident_kept_def benign_ext_def)

lemma benign_ext_insert: "benign i ev \<Longrightarrow> benign_ext i E E' \<Longrightarrow> benign_ext i E (insert ev E')"
  by (auto simp: benign_ext_def)

locale observed_env =
  fixes I :: "'e iface" and obs :: "'e \<Rightarrow> net_event set"
  assumes obs_send: "obs (if_send I from dest p e) = insert (Sent from dest p) (obs e)"
    and obs_state_change: "obs (if_state_change I i r t e) = insert (Changed i r t) (obs e)"
    and obs_schedule: "obs (snd (if_schedule I d tm e)) = obs e"
    and obs_cancel: "obs (if_cancel I ev e) = obs e"
    and obs_random: "obs (snd (if_random_range I lo hi e)) = obs e"
    and obs_set_handler: "obs (if_set_handler I i e) = obs e"
    and obs_remove_handler: "obs (if_remove_handler I i e) = obs e"
    and obs_client_cb: "obs (if_client_cb I k res e) = obs e"
    and obs_read_cb: "obs (if_read_cb I k b v e) = obs e"
begin

lemmas obs_simps = obs_send obs_state_change obs_schedule obs_cancel obs_random obs_set_handler
  obs_remove_handler obs_client_cb obs_read_cb

definition quiet :: "'e RaftNode \<Rightarrow> 'e RaftNode \<Rightarrow> bool" where
  "quiet n n' \<longleftrightarrow> ident_kept n n' \<and> vote_kept n n' \<and> role_kept n n'
     \<and> benign_ext (nd_id n) (obs (nd_env n)) (obs (nd_env n'))"

lemma quiet_refl [simp]: "quiet n n"
  by (simp add: quiet_def)

lemma quiet_trans [trans]:
  assumes "quiet a b" "quiet b c"
  shows "quiet a c"
proof -
  have "nd_id b = nd_id a" using assms(1) by (simp add: quiet_def ident_kept_def)
  with assms show ?thesis
    unfolding quiet_def
    by (auto intro: ident_kept_trans vote_kept_trans role_kept_trans benign_ext_trans)
qed

lemmas quiet_defs = quiet_def ident_kept_def vote_kept_def role_kept_def

text \<open>Fields the contract does not speak about.\<close>

lemma quiet_updates [simp]:
  "quiet n (m\<lparr>nd_peers := x1\<rparr>) = quiet n m"
  "quiet n (m\<lparr>nd_log := x2\<rparr>) = quiet n m"
  "quiet n (m\<lparr>nd_log_store := x3\<rparr>) = quiet n m"
  "quiet n (m\<lparr>nd_snapshot_store := x3\<rparr>) = quiet n m"
  "quiet n (m\<lparr>nd_snap_last_index := x4\<rparr>) = quiet n m"
  "quiet n (m\<lparr>nd_snap_last_term := x4\<rparr>) = quiet n m"
  "quiet n (m\<lparr>nd_snap_data := x5\<rparr>) = quiet n m"
  "quiet n (m\<lparr>nd_commit_index := x4\<rparr>) = quiet n m"
  "quiet n (m\<lparr>nd_last_applied := x4\<rparr>) = quiet n m"
  "quiet n (m\<lparr>nd_leader_id := x6\<rparr>) = quiet n m"
  "quiet n (m\<lparr>nd_kv := x7\<rparr>) = quiet n m"
  "quiet n (m\<lparr>nd_next_index := x8\<rparr>) = quiet n m"
  "quiet n (m\<lparr>nd_match_index := x8\<rparr>) = quiet n m"
  "quiet n (m\<lparr>nd_pending_clients := x9\<rparr>) = quiet n m"
  "quiet n (m\<lparr>nd_pending_reads := x10\<rparr>) = quiet n m"
  "quiet n (m\<lparr>nd_next_read_round := x4\<rparr>) = quiet n m"
  "quiet n (m\<lparr>nd_election_timeout_id := x4\<rparr>) = quiet n m"
  "quiet n (m\<lparr>nd_election_scheduled := x11\<rparr>) = quiet n m"
  "quiet n (m\<lparr>nd_election_generation := x4\<rparr>) = quiet n m"
  "quiet n (m\<lparr>nd_heartbeat_id := x4\<rparr>) = quiet n m"
  "quiet n (m\<lparr>nd_heartbeat_scheduled := x11\<rparr>) = quiet n m"
  "quiet n (m\<lparr>nd_vote_count := x12\<rparr>) = quiet n m"
  "quiet n (m\<lparr>nd_config_change_pending := x11\<rparr>) = quiet n m"
  by (simp_all add: quiet_defs meta_synced_def)

lemma quiet_env: "quiet n m \<Longrightarrow> obs e = obs (nd_env m) \<Longrightarrow> quiet n (m\<lparr>nd_env := e\<rparr>)"
  by (simp add: quiet_defs meta_synced_def)

section \<open>Methods that keep the contract\<close>

lemma quiet_send:
  "quiet n m \<Longrightarrow> p \<noteq> [] \<Longrightarrow> hd p \<noteq> 1 \<Longrightarrow> hd p \<noteq> 2 \<Longrightarrow> quiet n (nd_send I dest p m)"
  by (simp add: nd_send_def env_do_def quiet_defs meta_synced_def obs_send benign_ext_insert)

lemma quiet_state_change:
  "quiet n m \<Longrightarrow> nd_role m = Follower \<Longrightarrow>
   quiet n (env_do (if_state_change I (nd_id m) (nd_role m) t) m)"
  by (simp add: env_do_def quiet_defs meta_synced_def obs_state_change benign_ext_insert)

lemma quiet_silent: "quiet n m \<Longrightarrow> (\<And>e. obs (f e) = obs e) \<Longrightarrow> quiet n (env_do f m)"
  by (simp add: env_do_def quiet_env)

lemma quiet_persist: "quiet n m \<Longrightarrow> quiet n (persist m)"
proof -
  have "meta_synced m \<Longrightarrow> meta_synced (persist m)"
    by (simp add: meta_synced_def persist_meta_synced [unfolded meta_synced_def])
  then have "quiet m (persist m)"
    by (simp add: quiet_defs) (simp add: persist_def)
  then show "quiet n m \<Longrightarrow> quiet n (persist m)" by (blast intro: quiet_trans)
qed

lemma quiet_save_snapshot [simp]: "quiet n (save_snapshot m) = quiet n m"
  by (simp add: save_snapshot_def)

lemma quiet_schedule_election: "quiet n m \<Longrightarrow> quiet n (schedule_election_timeout I m)"
  by (simp add: schedule_election_timeout_def Let_def quiet_env obs_simps)

lemma quiet_cancel_election: "quiet n m \<Longrightarrow> quiet n (cancel_election_timeout I m)"
  by (simp add: cancel_election_timeout_def quiet_silent obs_simps)

lemma quiet_schedule_heartbeat: "quiet n m \<Longrightarrow> quiet n (schedule_heartbeat I m)"
  by (simp add: schedule_heartbeat_def Let_def quiet_env obs_simps)

lemma quiet_cancel_heartbeat: "quiet n m \<Longrightarrow> quiet n (cancel_heartbeat I m)"
  by (simp add: cancel_heartbeat_def quiet_silent obs_simps)

lemma obs_fold_silent: "(\<And>x e. obs (f x e) = obs e) \<Longrightarrow> obs (fold f xs e) = obs e"
  by (induction xs arbitrary: e) simp_all

lemma quiet_cancel_reads: "quiet n m \<Longrightarrow> quiet n (cancel_pending_reads I m)"
  by (simp add: cancel_pending_reads_def quiet_silent obs_fold_silent obs_simps)

lemma quiet_drain_reads: "quiet n m \<Longrightarrow> quiet n (drain_pending_reads I m)"
  by (simp add: drain_pending_reads_def quiet_silent obs_fold_silent obs_simps)

lemma become_follower_fields:
  "nd_id (become_follower I t l n) = nd_id n"
  "nd_cfg (become_follower I t l n) = nd_cfg n"
  "nd_running (become_follower I t l n) = nd_running n"
  "nd_election_term (become_follower I t l n) = nd_election_term n"
  "nd_role (become_follower I t l n) = Follower"
  "nd_current_term (become_follower I t l n) = max t (nd_current_term n)"
  "nd_voted_for (become_follower I t l n) = (if t > nd_current_term n then None else nd_voted_for n)"
  "nd_meta_store (become_follower I t l n) =
     (if t > nd_current_term n
      then nd_meta_store (persist (n\<lparr>nd_current_term := t, nd_voted_for := None\<rparr>)) else nd_meta_store n)"
  by (auto simp: become_follower_def Let_def persist_def cancel_pending_reads_def cancel_heartbeat_def
      env_do_def schedule_election_timeout_def cancel_election_timeout_def max_def)

lemma become_follower_obs:
  "obs (nd_env (become_follower I t l n)) =
     (if nd_role n \<noteq> Follower \<or> t > nd_current_term n
      then insert (Changed (nd_id n) Follower (max t (nd_current_term n))) (obs (nd_env n))
      else obs (nd_env n))"
  by (auto simp: become_follower_def Let_def persist_def cancel_pending_reads_def cancel_heartbeat_def
      env_do_def schedule_election_timeout_def cancel_election_timeout_def max_def obs_simps obs_fold_silent)

lemma become_follower_meta: "meta_synced n \<Longrightarrow> meta_synced (become_follower I t l n)"
  using persist_meta_synced [of "n\<lparr>nd_current_term := t, nd_voted_for := None\<rparr>"]
  by (auto simp: meta_synced_def become_follower_fields max_def persist_def)

lemma quiet_become_follower: "quiet n m \<Longrightarrow> quiet n (become_follower I t l m)"
proof -
  have "quiet m (become_follower I t l m)"
    by (auto simp: quiet_defs become_follower_fields become_follower_obs become_follower_meta
        max_def benign_ext_insert)
  then show "quiet n m \<Longrightarrow> quiet n (become_follower I t l m)" by (blast intro: quiet_trans)
qed

lemma quiet_install_snapshot_send: "quiet n m \<Longrightarrow> quiet n (send_install_snapshot I p m)"
  by (simp add: send_install_snapshot_def quiet_send)

lemma quiet_replicate_to: "quiet n m \<Longrightarrow> ends (quiet n) (replicate_to I p m)"
  unfolding replicate_to_def Let_def
  by (intro ends_intros) (simp_all add: quiet_install_snapshot_send quiet_send)

lemma quiet_replicate_all: "quiet n m \<Longrightarrow> ends (quiet n) (replicate_all I m)"
  unfolding replicate_all_def by (intro ends_foldO quiet_replicate_to)

lemma quiet_membership: "quiet n m \<Longrightarrow> ends (quiet n) (apply_membership_change I c m)"
  by (cases c) (auto simp: apply_membership_change_def Let_def intro!: quiet_replicate_to quiet_become_follower)

lemma quiet_reply: "quiet n m \<Longrightarrow> quiet n (reply_to_client I cb r m)"
  by (simp add: reply_to_client_def quiet_send quiet_silent obs_simps split: client_cb.splits)

lemma quiet_resolve: "quiet n m \<Longrightarrow> quiet n (resolve_client I r m)"
  by (auto simp: resolve_client_def Let_def quiet_reply split: option.splits)

lemma quiet_apply_entry: "quiet n m \<Longrightarrow> ends (quiet n) (apply_entry I e m)"
  unfolding apply_entry_def Let_def
  by (intro ends_intros quiet_membership) (simp_all add: quiet_resolve)

lemma quiet_apply_one: "quiet n m \<Longrightarrow> ends (quiet n) (apply_one I m)"
  unfolding apply_one_def Let_def
  by (intro ends_intros quiet_apply_entry) simp_all

lemma quiet_apply_loop: "quiet n m \<Longrightarrow> ends (quiet n) (apply_loop I m)"
  by (intro apply_loop_ends quiet_apply_one)

lemma quiet_take_snapshot: "quiet n m \<Longrightarrow> ends (quiet n) (take_snapshot m)"
  unfolding take_snapshot_def Let_def by (intro ends_intros) (simp_all add: quiet_persist)

lemma quiet_apply_committed: "quiet n m \<Longrightarrow> ends (quiet n) (apply_committed_entries I m)"
  unfolding apply_committed_entries_def Let_def
  by (intro ends_intros quiet_apply_loop quiet_take_snapshot) (simp_all add: quiet_drain_reads)

lemma quiet_maybe_advance: "quiet n m \<Longrightarrow> ends (quiet n) (maybe_advance_commit_index I m)"
  unfolding maybe_advance_commit_index_def
  by (intro advance_from_ends quiet_apply_committed) simp_all

lemma quiet_submit: "quiet n m \<Longrightarrow> ends (quiet n) (snd (submit I c r cmd cb m))"
  unfolding submit_def Let_def
  by (auto intro!: ends_intros quiet_replicate_all quiet_maybe_advance quiet_persist)

lemma quiet_fold_send:
  "quiet n m \<Longrightarrow> p \<noteq> [] \<Longrightarrow> hd p \<noteq> 1 \<Longrightarrow> hd p \<noteq> 2 \<Longrightarrow> quiet n (fold (\<lambda>q. nd_send I q p) ps m)"
  by (induction ps arbitrary: m) (simp_all add: quiet_send)

lemma quiet_read_index: "quiet n m \<Longrightarrow> quiet n (snd (read_index I k cb m))"
  by (simp add: read_index_def Let_def quiet_silent quiet_fold_send quiet_env obs_simps)

lemma quiet_append_step: "quiet n m \<Longrightarrow> ends (quiet n) (append_entry_step e m)"
  unfolding append_entry_step_def Let_def by (intro ends_intros) simp_all

lemma quiet_append_entries: "quiet n m \<Longrightarrow> ends (quiet n) (handle_append_entries I from ae m)"
  unfolding handle_append_entries_def Let_def
  by (intro ends_intros quiet_append_step quiet_apply_committed)
    (auto intro: quiet_send quiet_persist quiet_become_follower)

lemma quiet_append_entries_reply:
  "quiet n m \<Longrightarrow> ends (quiet n) (handle_append_entries_reply I from aer m)"
  unfolding handle_append_entries_reply_def Let_def
  by (intro ends_if) (simp_all add: quiet_become_follower quiet_maybe_advance quiet_replicate_to)

lemma quiet_install_snapshot: "quiet n m \<Longrightarrow> ends (quiet n) (handle_install_snapshot I from s m)"
  unfolding handle_install_snapshot_def Let_def
  by (intro ends_intros) (simp_all add: quiet_send quiet_persist quiet_become_follower)

lemma quiet_install_snapshot_reply:
  "quiet n m \<Longrightarrow> ends (quiet n) (handle_install_snapshot_reply I from isr m)"
  unfolding handle_install_snapshot_reply_def Let_def
  by (intro ends_if) (simp_all add: quiet_become_follower quiet_maybe_advance)

lemma quiet_read_index_request: "quiet n m \<Longrightarrow> quiet n (handle_read_index_request I from req m)"
  by (simp add: handle_read_index_request_def Let_def quiet_send quiet_become_follower)

lemma quiet_read_index_reply: "quiet n m \<Longrightarrow> quiet n (handle_read_index_reply I from rep m)"
  by (simp add: handle_read_index_reply_def quiet_drain_reads quiet_become_follower)

lemma quiet_client_request: "quiet n m \<Longrightarrow> ends (quiet n) (handle_client_request I from cr m)"
  by (simp add: handle_client_request_def quiet_send quiet_submit)

lemma quiet_dispatch:
  "quiet n m \<Longrightarrow> hd p \<noteq> 1 \<Longrightarrow> hd p \<noteq> 2 \<Longrightarrow> ends (quiet n) (dispatch I from p m)"
  unfolding dispatch_def Let_def
  by (intro ends_if ends_liftO quiet_append_entries quiet_append_entries_reply quiet_client_request
      quiet_install_snapshot quiet_install_snapshot_reply)
    (simp_all add: quiet_read_index_request quiet_read_index_reply)

lemma quiet_read_timeout: "quiet n m \<Longrightarrow> quiet n (read_timeout I rnd m)"
  by (simp add: read_timeout_def quiet_silent obs_simps split: option.splits)

lemma quiet_on_heartbeat: "quiet n m \<Longrightarrow> ends (quiet n) (on_heartbeat I m)"
  unfolding on_heartbeat_def
  by (intro ends_intros quiet_replicate_all) (simp_all add: quiet_schedule_heartbeat)

end

end
