(* ===== verification/Election.thy ===== *)
theory Election
  imports Node_Contracts
begin

text \<open>
  Votes and elections. A vote is visible in what a node sends and reports: it grants a
  \<open>RequestVote\<close> by a reply, and it votes for itself when it becomes a candidate.
  \<open>durable_ok\<close> is what the election argument needs of a node's durable term and vote and of the
  messages it has sent, \<open>mem_ok\<close> what it needs of the memory of a running node. Every method
  preserves both: the quiet ones by their contract, the voting ones by the lemmas of this theory.
\<close>

section \<open>Votes, elections and the node invariant\<close>

definition supports :: "net_event set \<Rightarrow> NodeId \<Rightarrow> Term \<Rightarrow> NodeId \<Rightarrow> bool" where
  "supports E v t c \<longleftrightarrow>
     Sent v c (encode_request_vote_reply \<lparr>rvr_term = t, rvr_vote_granted = True\<rparr>) \<in> E
     \<or> c = v \<and> Changed v Candidate t \<in> E"

definition elected :: "NodeId set \<Rightarrow> net_event set \<Rightarrow> Term \<Rightarrow> NodeId \<Rightarrow> bool" where
  "elected M E t c \<longleftrightarrow> (\<exists>S. S \<subseteq> M \<and> card M < 2 * card S \<and> (\<forall>v \<in> S. supports E v t c))"

fun ev_node :: "net_event \<Rightarrow> NodeId" where
  "ev_node (Sent i d p) = i"
| "ev_node (Changed i r t) = i"

fun well_sent :: "net_event \<Rightarrow> bool" where
  "well_sent (Sent i d p) \<longleftrightarrow>
     p \<noteq> [] \<and> (hd p = 1 \<or> hd p = 2 \<longrightarrow> d \<noteq> i)
     \<and> (hd p = 1 \<longrightarrow> (\<exists>rv. p = encode_request_vote rv \<and> rv_candidate_id rv = i))
     \<and> (hd p = 2 \<longrightarrow> (\<exists>r. p = encode_request_vote_reply r))"
| "well_sent (Changed i r t) \<longleftrightarrow> True"

definition durable_ok :: "NodeId set \<Rightarrow> net_event set \<Rightarrow> NodeId \<Rightarrow> DurableStore \<Rightarrow> bool" where
  "durable_ok M E i s \<longleftrightarrow> ds_inv s
     \<and> (\<exists>t v. durable_meta s = Inr (t, v)
          \<and> (\<forall>t' c. supports E i t' c \<longrightarrow> t' < t \<or> t' = t \<and> v = Some c))
     \<and> (\<forall>t c c'. supports E i t c \<longrightarrow> supports E i t c' \<longrightarrow> c = c')
     \<and> (\<forall>t. Changed i Leader t \<in> E \<longrightarrow> elected M E t i)
     \<and> (\<forall>ev \<in> E. ev_node ev = i \<longrightarrow> well_sent ev)"

definition mem_ok :: "NodeId set \<Rightarrow> net_event set \<Rightarrow> 'e RaftNode \<Rightarrow> bool" where
  "mem_ok M E n \<longleftrightarrow>
     (nd_running n \<longrightarrow> meta_synced n)
     \<and> (nd_role n \<noteq> Follower \<longrightarrow> nd_running n \<and> supports E (nd_id n) (nd_current_term n) (nd_id n))
     \<and> (nd_role n = Candidate \<longrightarrow> nd_election_term n = nd_current_term n
          \<and> (\<forall>u. u |\<in>| nd_votes_received n \<longrightarrow>
               u \<in> M \<and> u \<noteq> nd_id n \<and> supports E u (nd_current_term n) (nd_id n)))"

definition node_ok :: "NodeId set \<Rightarrow> net_event set \<Rightarrow> 'e RaftNode \<Rightarrow> bool" where
  "node_ok M E n \<longleftrightarrow> durable_ok M E (nd_id n) (nd_meta_store n) \<and> mem_ok M E n"

definition member_of :: "NodeId set \<Rightarrow> 'e RaftNode \<Rightarrow> bool" where
  "member_of M n \<longleftrightarrow> nd_id n \<in> M \<and> distinct (nd_peers n) \<and> set (nd_peers n) = M - {nd_id n}"

lemma supports_mono: "supports E v t c \<Longrightarrow> E \<subseteq> E' \<Longrightarrow> supports E' v t c"
  by (auto simp: supports_def)

lemma elected_mono: "elected M E t c \<Longrightarrow> E \<subseteq> E' \<Longrightarrow> elected M E' t c"
  unfolding elected_def by (meson supports_mono)

text \<open>The heart of the argument: two elections share a voter.\<close>

lemma elected_unique:
  assumes "elected M E t c" "elected M E t c'"
    and "\<And>v a b. v \<in> M \<Longrightarrow> supports E v t a \<Longrightarrow> supports E v t b \<Longrightarrow> a = b"
  shows "c = c'"
proof -
  obtain S where S: "S \<subseteq> M" "card M < 2 * card S" "\<forall>v \<in> S. supports E v t c"
    using assms(1) by (auto simp: elected_def)
  obtain S' where S': "S' \<subseteq> M" "card M < 2 * card S'" "\<forall>v \<in> S'. supports E v t c'"
    using assms(2) by (auto simp: elected_def)
  have "card (S \<union> S') \<le> card M" using S(1) S'(1) by (intro card_mono) auto
  then have "card (S \<inter> S') \<noteq> 0" using S(2) S'(2) card_Un_Int [of S S', OF finite finite] by linarith
  then obtain v where "v \<in> S \<inter> S'" by (metis card.empty ex_in_conv)
  with S S' show ?thesis by (auto intro: assms(3))
qed

lemma quorum_majority:
  assumes "member_of M n"
  shows "card M < 2 * quorum n"
proof -
  have "card (set (nd_peers n)) = length (nd_peers n)"
    using assms by (intro distinct_card) (simp add: member_of_def)
  moreover have "set (nd_peers n) = M - {nd_id n}" "nd_id n \<in> M"
    using assms by (auto simp only: member_of_def)
  ultimately have "card M = Suc (length (nd_peers n))"
    by (metis card.remove finite)
  then show ?thesis unfolding quorum_def by presburger
qed

section \<open>Steps of other nodes\<close>

lemma event_frame:
  "E \<subseteq> E' \<Longrightarrow> \<forall>ev \<in> E' - E. ev_node ev \<noteq> i \<Longrightarrow> ev_node ev = i \<Longrightarrow> ev \<in> E' \<longleftrightarrow> ev \<in> E"
  by auto

lemma supports_frame:
  "E \<subseteq> E' \<Longrightarrow> \<forall>ev \<in> E' - E. ev_node ev \<noteq> i \<Longrightarrow> supports E' i t c \<longleftrightarrow> supports E i t c"
  unfolding supports_def by (metis event_frame ev_node.simps)

lemma durable_ok_frame:
  assumes "durable_ok M E i s" "E \<subseteq> E'" "\<forall>ev \<in> E' - E. ev_node ev \<noteq> i"
  shows "durable_ok M E' i s"
proof -
  have "Changed i Leader t \<in> E' \<longleftrightarrow> Changed i Leader t \<in> E" for t
    using event_frame [OF assms(2,3), of "Changed i Leader t"] by simp
  moreover have "ev \<in> E" if "ev \<in> E'" "ev_node ev = i" for ev using that assms(3) by auto
  ultimately show ?thesis
    using assms(1,2) elected_mono [OF _ assms(2)]
    by (simp add: durable_ok_def supports_frame [OF assms(2,3)])
qed

lemma mem_ok_mono: "mem_ok M E n \<Longrightarrow> E \<subseteq> E' \<Longrightarrow> mem_ok M E' n"
  using supports_mono [of E] unfolding mem_ok_def by (intro conjI impI allI) simp_all

lemma node_ok_frame:
  "node_ok M E n \<Longrightarrow> E \<subseteq> E' \<Longrightarrow> \<forall>ev \<in> E' - E. ev_node ev \<noteq> nd_id n \<Longrightarrow> node_ok M E' n"
  by (auto simp: node_ok_def intro: durable_ok_frame mem_ok_mono)

section \<open>Benign events\<close>

lemma supports_benign:
  assumes "benign_ext i E E'"
  shows "supports E' v t c \<longleftrightarrow> supports E v t c"
proof -
  have "ev \<in> E" if "ev \<in> E'" "\<not> benign i ev" for ev
    using that assms by (auto simp: benign_ext_def)
  from this [of "Sent v c _"] this [of "Changed v Candidate t"] show ?thesis
    using assms by (auto simp: supports_def benign_ext_def)
qed

lemma durable_ok_benign:
  assumes "durable_ok M E i s" "benign_ext i E E'"
  shows "durable_ok M E' i s"
proof -
  have new: "ev \<in> E \<or> benign i ev" if "ev \<in> E'" for ev
    using that assms(2) by (auto simp: benign_ext_def)
  have "well_sent ev" if "ev \<in> E'" "ev_node ev = i" for ev
    using new [OF that(1)] that(2) assms(1) by (cases ev) (auto simp: durable_ok_def)
  moreover have "Changed i Leader t \<in> E' \<longleftrightarrow> Changed i Leader t \<in> E" for t
    using new [of "Changed i Leader t"] assms(2) by (auto simp: benign_ext_def)
  moreover have "elected M E' t c \<longleftrightarrow> elected M E t c" for t c
    by (simp add: elected_def supports_benign [OF assms(2)])
  ultimately show ?thesis
    using assms(1) by (auto simp: durable_ok_def supports_benign [OF assms(2)])
qed

section \<open>The invariant of a node at work\<close>

lemma durable_ok_meta:
  assumes "durable_ok M E i s" "ds_inv s'" "durable_meta s = Inr (t, v)" "durable_meta s' = Inr (t', v')"
    and "t < t' \<or> t = t' \<and> (v = None \<or> v = v')"
  shows "durable_ok M E i s'"
proof -
  have "u < t' \<or> u = t' \<and> v' = Some c" if "supports E i u c" for u c
  proof -
    have "u < t \<or> u = t \<and> v = Some c" using that assms(1,3) by (auto simp: durable_ok_def)
    then show ?thesis using assms(5) by (elim disjE conjE) (auto dest: order.strict_trans)
  qed
  then show ?thesis using assms(1,2,4) by (simp add: durable_ok_def)
qed

lemma meta_syncedD: "meta_synced n \<Longrightarrow> durable_meta (nd_meta_store n) = Inr (nd_current_term n, nd_voted_for n)"
  by (simp add: meta_synced_def)

text \<open>More events, with the durable term and vote as they are after them.\<close>

lemma durable_ok_ext:
  assumes "durable_ok M E i s" "E \<subseteq> E'" "\<And>ev. ev \<in> E' \<Longrightarrow> ev \<in> E \<or> well_sent ev"
    and "durable_meta s = Inr (t, v)"
    and "\<And>u c. supports E' i u c \<Longrightarrow> supports E i u c \<or> u = t \<and> v = Some c"
    and "\<And>u. Changed i Leader u \<in> E' \<Longrightarrow> elected M E u i"
  shows "durable_ok M E' i s"
proof -
  have old: "u < t \<or> u = t \<and> v = Some c" if "supports E' i u c" for u c
    using assms(5) [OF that] assms(1,4) by (auto simp: durable_ok_def)
  have uniq: "c = c'" if "supports E' i u c" "supports E' i u c'" for u c c'
    using assms(5) [OF that(1)] assms(5) [OF that(2)] old [OF that(1)] old [OF that(2)] assms(1)
    by (elim disjE) (auto simp: durable_ok_def)
  have "elected M E' u i" if "Changed i Leader u \<in> E'" for u
    using assms(6) [OF that] assms(2) by (rule elected_mono)
  moreover have "well_sent ev" if "ev \<in> E'" "ev_node ev = i" for ev
    using assms(1) assms(3) [OF that(1)] that(2) by (auto simp: durable_ok_def)
  ultimately show ?thesis
    using assms(1,4) old uniq unfolding durable_ok_def by (intro conjI allI impI ballI) auto
qed

lemma durable_ok_candidacy:
  assumes ok: "durable_ok M E i s" and meta: "durable_meta s = Inr (t, Some i)"
    and rv: "rv_candidate_id rv = i" and P: "i \<notin> P"
  shows "durable_ok M (insert (Changed i Candidate t) E \<union> (\<lambda>q. Sent i q (encode_request_vote rv)) ` P) i s"
    (is "durable_ok M ?E' i s")
proof (rule durable_ok_ext [OF ok _ _ meta])
  have tag: "hd (encode_request_vote rv) = 1" "encode_request_vote rv \<noteq> []" by simp_all
  have "hd (encode_request_vote_reply r) \<noteq> hd (encode_request_vote rv)" for r by simp
  then have "encode_request_vote_reply r \<noteq> encode_request_vote rv" for r by metis
  then show "supports E i u c \<or> u = t \<and> Some i = Some c" if "supports ?E' i u c" for u c
    using that by (auto simp: supports_def)
  have "\<exists>rv'. encode_request_vote rv = encode_request_vote rv' \<and> rv_candidate_id rv' = i"
    using rv by blast
  then have "well_sent (Sent i q (encode_request_vote rv))" if "q \<in> P" for q
    using that P tag by auto
  then show "ev \<in> E \<or> well_sent ev" if "ev \<in> ?E'" for ev using that by auto
  show "elected M E u i" if "Changed i Leader u \<in> ?E'" for u
    using that ok unfolding durable_ok_def by blast
  show "E \<subseteq> ?E'" by blast
qed

lemma encode_request_vote_reply_inj [simp]:
  "encode_request_vote_reply r = encode_request_vote_reply r' \<longleftrightarrow> r = r'"
proof
  assume "encode_request_vote_reply r = encode_request_vote_reply r'"
  then have "decode_request_vote_reply (encode_request_vote_reply r) =
    decode_request_vote_reply (encode_request_vote_reply r')" by simp
  then show "r = r'" by simp
qed simp

lemma durable_ok_reply:
  assumes ok: "durable_ok M E i s" and meta: "durable_meta s = Inr (t, v)"
    and g: "g \<Longrightarrow> v = Some c" and c: "c \<noteq> i"
  shows "durable_ok M (insert (Sent i c (encode_request_vote_reply
    \<lparr>rvr_term = t, rvr_vote_granted = g\<rparr>)) E) i s" (is "durable_ok M ?E' i s")
proof (rule durable_ok_ext [OF ok _ _ meta])
  show "supports E i u d \<or> u = t \<and> v = Some d" if "supports ?E' i u d" for u d
    using that g by (auto simp: supports_def)
  show "ev \<in> E \<or> well_sent ev" if "ev \<in> ?E'" for ev using that c by auto
  show "elected M E u i" if "Changed i Leader u \<in> ?E'" for u
    using that ok unfolding durable_ok_def by blast
qed blast

lemma word_lt_succ: "t \<noteq> - 1 \<Longrightarrow> t < t + 1" for t :: "64 word"
  using unat_succ_64 [of t "- 1"] by (simp add: word_order.not_eq_extremum word_less_unat)

lemma fold_nd_send:
  "fold (\<lambda>q. nd_send I q p) qs n = n\<lparr>nd_env := fold (\<lambda>q. if_send I (nd_id n) q p) qs (nd_env n)\<rparr>"
  by (induction qs arbitrary: n) (simp_all add: nd_send_def env_do_def)

lemma supports_insert_other:
  "hd p \<noteq> 2 \<Longrightarrow> supports (insert (Sent j d p) E) i u c = supports E i u c"
  "r \<noteq> Candidate \<Longrightarrow> supports (insert (Changed j r t) E) i u c = supports E i u c"
  by (auto simp: supports_def)

lemma timer_fields [simp]:
  "nd_id (schedule_election_timeout I n) = nd_id n" "nd_id (cancel_election_timeout I n) = nd_id n"
  "nd_role (schedule_election_timeout I n) = nd_role n" "nd_role (cancel_election_timeout I n) = nd_role n"
  "nd_running (schedule_election_timeout I n) = nd_running n"
  "nd_running (cancel_election_timeout I n) = nd_running n"
  "nd_current_term (schedule_election_timeout I n) = nd_current_term n"
  "nd_current_term (cancel_election_timeout I n) = nd_current_term n"
  "nd_voted_for (schedule_election_timeout I n) = nd_voted_for n"
  "nd_voted_for (cancel_election_timeout I n) = nd_voted_for n"
  "nd_meta_store (schedule_election_timeout I n) = nd_meta_store n"
  "nd_meta_store (cancel_election_timeout I n) = nd_meta_store n"
  "nd_election_term (schedule_election_timeout I n) = nd_election_term n"
  "nd_election_term (cancel_election_timeout I n) = nd_election_term n"
  "nd_votes_received (schedule_election_timeout I n) = nd_votes_received n"
  "nd_votes_received (cancel_election_timeout I n) = nd_votes_received n"
  "nd_vote_count (schedule_election_timeout I n) = nd_vote_count n"
  "nd_vote_count (cancel_election_timeout I n) = nd_vote_count n"
  "nd_peers (schedule_election_timeout I n) = nd_peers n" "nd_peers (cancel_election_timeout I n) = nd_peers n"
  by (simp_all add: schedule_election_timeout_def cancel_election_timeout_def env_do_def Let_def)

context observed_env
begin

definition works :: "NodeId set \<Rightarrow> 'e RaftNode \<Rightarrow> 'e RaftNode \<Rightarrow> bool" where
  "works M n s \<longleftrightarrow> nd_id s = nd_id n \<and> node_ok M (obs (nd_env s)) s
     \<and> obs (nd_env n) \<subseteq> obs (nd_env s) \<and> (\<forall>ev \<in> obs (nd_env s) - obs (nd_env n). ev_node ev = nd_id n)"

lemma works_trans: "works M a b \<Longrightarrow> works M b c \<Longrightarrow> works M a c"
  unfolding works_def by auto

lemma timer_obs [simp]:
  "obs (nd_env (schedule_election_timeout I n)) = obs (nd_env n)"
  "obs (nd_env (cancel_election_timeout I n)) = obs (nd_env n)"
  by (simp_all add: schedule_election_timeout_def cancel_election_timeout_def env_do_def Let_def obs_simps)

lemma quiet_node_ok:
  assumes ok: "node_ok M (obs (nd_env n)) n" and run: "nd_running n" and q: "quiet n s"
  shows "node_ok M (obs (nd_env s)) s"
proof -
  let ?E = "obs (nd_env n)" and ?E' = "obs (nd_env s)"
  have id: "nd_id s = nd_id n" "nd_running s" and ext: "benign_ext (nd_id n) ?E ?E'"
    and el: "nd_election_term s = nd_election_term n"
    using q run by (auto simp: quiet_def ident_kept_def)
  have sync: "meta_synced n" "meta_synced s"
    using ok run q by (auto simp: node_ok_def mem_ok_def quiet_def ident_kept_def)
  have "nd_current_term n < nd_current_term s
      \<or> nd_current_term n = nd_current_term s \<and> (nd_voted_for n = None \<or> nd_voted_for n = nd_voted_for s)"
    using q unfolding quiet_def vote_kept_def by argo
  then have "durable_ok M ?E (nd_id n) (nd_meta_store s)"
    using ok sync durable_ok_meta [OF _ _ meta_syncedD [OF sync(1)] meta_syncedD [OF sync(2)]]
    by (simp add: node_ok_def meta_synced_def)
  moreover have "mem_ok M ?E n" "role_kept n s" using ok q by (simp_all add: node_ok_def quiet_def)
  then have "mem_ok M ?E' s"
    unfolding role_kept_def mem_ok_def supports_benign [OF ext] using id sync el
    by (elim disjE) simp_all
  ultimately show ?thesis
    using id durable_ok_benign [OF _ ext] by (simp add: node_ok_def)
qed

lemma quiet_works: "node_ok M (obs (nd_env n)) n \<Longrightarrow> nd_running n \<Longrightarrow> quiet n s \<Longrightarrow> works M n s"
proof -
  have "benign i ev \<Longrightarrow> ev_node ev = i" for i ev by (cases ev) auto
  then show "node_ok M (obs (nd_env n)) n \<Longrightarrow> nd_running n \<Longrightarrow> quiet n s \<Longrightarrow> works M n s"
    using quiet_node_ok by (auto simp: works_def quiet_def ident_kept_def benign_ext_def)
qed

lemma works_quiet_trans:
  assumes "works M n m" "nd_running m" "ends (quiet m) r"
  shows "ends (works M n) r"
proof -
  have "node_ok M (obs (nd_env m)) m" using assms(1) by (simp add: works_def)
  then show ?thesis
    using assms quiet_works works_trans by (blast intro: ends_mono)
qed

text \<open>Assuming leadership.\<close>

lemma works_become_leader:
  assumes ok: "node_ok M (obs (nd_env n)) n" and cand: "nd_role n = Candidate"
    and el: "elected M (obs (nd_env n)) (nd_current_term n) (nd_id n)"
  shows "ends (works M n) (become_leader I n)"
proof -
  define m where "m = cancel_election_timeout I
    (n\<lparr>nd_role := Leader, nd_leader_id := Some (nd_id n), nd_votes_received := {||}, nd_vote_count := 0\<rparr>)"
  define k where "k = env_do (if_state_change I (nd_id m) (nd_role m) (nd_current_term m)) m"
  have run: "nd_running n" using ok cand by (simp add: node_ok_def mem_ok_def)
  have f: "nd_id k = nd_id n" "nd_role k = Leader" "nd_running k" "nd_current_term k = nd_current_term n"
    "nd_voted_for k = nd_voted_for n" "nd_meta_store k = nd_meta_store n"
    "obs (nd_env k) = insert (Changed (nd_id n) Leader (nd_current_term n)) (obs (nd_env n))"
    using run by (simp_all add: k_def m_def env_do_def obs_state_change)
  have "durable_ok M (obs (nd_env k)) (nd_id n) (nd_meta_store n)"
    unfolding f
    by (rule durable_ok_ext [OF _ _ _ meta_syncedD])
      (use ok run el in \<open>auto simp: node_ok_def mem_ok_def durable_ok_def supports_insert_other\<close>)
  moreover have "mem_ok M (obs (nd_env k)) k"
    using ok cand f by (auto simp: mem_ok_def node_ok_def meta_synced_def supports_insert_other)
  ultimately have "works M n k" by (auto simp: works_def node_ok_def f)
  moreover have "ends (quiet k) (become_leader I n)"
    unfolding become_leader_def Let_def m_def [symmetric] using cand
    by (simp, intro quiet_replicate_all quiet_schedule_heartbeat)
      (simp add: k_def env_do_def quiet_defs meta_synced_def)
  ultimately show ?thesis using f(3) by (blast intro: works_quiet_trans)
qed

text \<open>Starting an election.\<close>

lemma obs_fold_send:
  "obs (fold (\<lambda>q. if_send I i q p) qs e) = obs e \<union> (\<lambda>q. Sent i q p) ` set qs"
  by (induction qs arbitrary: e) (auto simp: obs_send)

lemma works_become_candidate:
  assumes ok: "node_ok M (obs (nd_env n)) n" and mem: "member_of M n"
    and nomax: "nd_current_term n \<noteq> - 1"
  shows "ends (works M n) (become_candidate I n)"
proof (cases "nd_running n")
  case False
  with ok show ?thesis by (simp add: become_candidate_def works_def)
next
  case True
  let ?t = "nd_current_term n + 1" and ?i = "nd_id n" and ?E = "obs (nd_env n)"
  define m where "m = persist (n\<lparr>nd_current_term := ?t, nd_role := Candidate, nd_voted_for := Some ?i,
    nd_votes_received := {||}, nd_vote_count := 1, nd_election_term := ?t, nd_leader_id := None\<rparr>)"
  define msg where "msg = encode_request_vote \<lparr>rv_term = ?t, rv_candidate_id = ?i,
    rv_last_log_index = log_last_index (nd_log n), rv_last_log_term = log_last_term (nd_log n)\<rparr>"
  define k where "k = schedule_election_timeout I (cancel_election_timeout I
    (fold (\<lambda>q. nd_send I q msg) (nd_peers n) (env_do (if_state_change I ?i Candidate ?t) m)))"
  have eq: "become_candidate I n = (if unat (nd_vote_count k) \<ge> quorum k then become_leader I k else Ret k)"
    using True by (simp add: become_candidate_def Let_def k_def m_def msg_def env_do_def persist_def)
  have E: "obs (nd_env k) = insert (Changed ?i Candidate ?t) ?E \<union> (\<lambda>q. Sent ?i q msg) ` set (nd_peers n)"
    by (simp add: k_def m_def env_do_def persist_def fold_nd_send obs_fold_send obs_state_change)
  have f: "nd_id k = ?i" "nd_running k" "nd_current_term k = ?t" "nd_voted_for k = Some ?i"
    "nd_meta_store k = nd_meta_store m" "nd_role k = Candidate" "nd_votes_received k = {||}"
    "nd_election_term k = ?t" "nd_vote_count k = 1" "nd_peers k = nd_peers n"
    using True by (simp_all add: k_def m_def env_do_def persist_def fold_nd_send)
  have sync: "meta_synced n" "meta_synced k"
    using ok True persist_meta_synced [of "n\<lparr>nd_current_term := ?t, nd_voted_for := Some ?i\<rparr>"]
    by (auto simp: node_ok_def mem_ok_def meta_synced_def f) (simp_all add: m_def persist_def)
  have "durable_ok M ?E ?i (nd_meta_store k)"
    using ok sync word_lt_succ [OF nomax] durable_ok_meta [OF _ _ meta_syncedD [OF sync(1)] meta_syncedD [OF sync(2)]]
    by (simp add: node_ok_def meta_synced_def f)
  then have dur: "durable_ok M (obs (nd_env k)) ?i (nd_meta_store k)"
    unfolding E msg_def
    using durable_ok_candidacy [OF _ meta_syncedD [OF sync(2), unfolded f(3,4)]] mem
    by (simp add: member_of_def f)
  have "mem_ok M (obs (nd_env k)) k"
    using sync by (auto simp: mem_ok_def f E supports_def)
  with dur have works: "works M n k" by (auto simp: works_def node_ok_def f E)
  have "elected M (obs (nd_env k)) ?t ?i" if "quorum k \<le> unat (nd_vote_count k)"
  proof -
    have "card M < 2 * quorum k" using quorum_majority [of M k] mem by (simp add: member_of_def f)
    with that mem show ?thesis
      unfolding elected_def by (intro exI [of _ "{?i}"]) (auto simp: f supports_def E member_of_def)
  qed
  then show ?thesis
    using works works_become_leader [of M k] works_trans [of M n k] f
    by (auto simp: eq works_def intro: ends_mono)
qed

text \<open>Answering a request for a vote.\<close>

lemma works_request_vote:
  assumes ok: "node_ok M (obs (nd_env n)) n" and run: "nd_running n"
    and rv: "rv_candidate_id rv = from" "from \<noteq> nd_id n"
  shows "works M n (handle_request_vote I from rv n)"
proof -
  define m where "m = (if rv_term rv > nd_current_term n then become_follower I (rv_term rv) None n else n)"
  define g where "g \<longleftrightarrow> rv_term rv \<ge> nd_current_term m \<and> (nd_voted_for m = None \<or> nd_voted_for m = Some from)
    \<and> (cfg_bug_skip_vote_uptodate (nd_cfg m) \<or> is_log_up_to_date (rv_last_log_index rv) (rv_last_log_term rv) m)"
  define k where "k = (if g then schedule_election_timeout I (cancel_election_timeout I
    (persist (m\<lparr>nd_voted_for := Some from\<rparr>))) else m)"
  define msg where "msg = encode_request_vote_reply \<lparr>rvr_term = nd_current_term k, rvr_vote_granted = g\<rparr>"
  let ?E = "obs (nd_env m)" and ?s = "handle_request_vote I from rv n"
  have s: "?s = nd_send I from msg k"
    unfolding handle_request_vote_def Let_def m_def [symmetric] rv g_def [symmetric] k_def [symmetric] msg_def ..
  have "quiet n m" by (simp add: m_def quiet_become_follower)
  then have m: "works M n m" "nd_running m" "nd_id m = nd_id n" "node_ok M ?E m"
    using quiet_works [OF ok run] run by (auto simp: works_def quiet_def ident_kept_def)
  have k: "nd_id k = nd_id n" "nd_running k" "nd_role k = nd_role m" "nd_current_term k = nd_current_term m"
    "nd_election_term k = nd_election_term m" "nd_votes_received k = nd_votes_received m"
    "obs (nd_env k) = ?E" "g \<Longrightarrow> nd_voted_for k = Some from"
    using m by (simp_all add: k_def persist_def)
  have sync: "meta_synced m" "meta_synced k"
    using m persist_meta_synced [of "m\<lparr>nd_voted_for := Some from\<rparr>"]
    by (auto simp: node_ok_def mem_ok_def meta_synced_def k_def)
  have "nd_voted_for m = None \<or> nd_voted_for m = nd_voted_for k"
    by (auto simp: k_def g_def persist_def)
  then have "durable_ok M ?E (nd_id k) (nd_meta_store k)"
    using m sync k durable_ok_meta [OF _ _ meta_syncedD [OF sync(1)] meta_syncedD [OF sync(2)]]
    by (simp add: node_ok_def meta_synced_def)
  then have "durable_ok M (insert (Sent (nd_id k) from msg) ?E) (nd_id k) (nd_meta_store k)"
    unfolding msg_def using k rv durable_ok_reply [OF _ meta_syncedD [OF sync(2)]] by simp
  moreover have "mem_ok M ?E k"
    using m k sync by (auto simp: node_ok_def mem_ok_def)
  then have "mem_ok M (insert (Sent (nd_id k) from msg) ?E) (nd_send I from msg k)"
    using mem_ok_mono [of M ?E k "insert (Sent (nd_id k) from msg) ?E"]
    by (auto simp: mem_ok_def nd_send_def env_do_def meta_synced_def)
  ultimately have "works M m ?s"
    using m k by (auto simp: s works_def node_ok_def nd_send_def env_do_def obs_send)
  with m(1) show ?thesis by (rule works_trans)
qed

text \<open>Counting votes.\<close>

lemma works_request_vote_reply:
  assumes ok: "node_ok M (obs (nd_env n)) n" and run: "nd_running n" and mem: "member_of M n"
    and sndr: "from \<in> M" "from \<noteq> nd_id n"
    and vote: "rvr_vote_granted r \<Longrightarrow> supports (obs (nd_env n)) from (rvr_term r) (nd_id n)"
  shows "ends (works M n) (handle_request_vote_reply I from r n)"
proof -
  let ?E = "obs (nd_env n)"
  have id: "works M n n" using ok by (simp add: works_def)
  have bf: "works M n (become_follower I (rvr_term r) None n)"
    using quiet_works [OF ok run] by (simp add: quiet_become_follower)
  define k where "k = n\<lparr>nd_votes_received := finsert from (nd_votes_received n),
    nd_vote_count := of_nat (fcard (finsert from (nd_votes_received n))) + 1\<rparr>"
  have count: "ends (works M n) (if quorum k \<le> unat (nd_vote_count k) then become_leader I k else Ret k)"
    if cand: "nd_role n = Candidate" and t: "rvr_term r = nd_current_term n" and g: "rvr_vote_granted r"
  proof -
    have ok': "node_ok M ?E k"
      using ok sndr vote [OF g] t by (auto simp: node_ok_def mem_ok_def k_def meta_synced_def)
    then have works: "works M n k" by (simp add: works_def k_def)
    have "elected M ?E (nd_current_term n) (nd_id n)" if q: "quorum k \<le> unat (nd_vote_count k)"
    proof -
      let ?S = "insert (nd_id n) (fset (nd_votes_received k))"
      have S: "v \<in> M \<and> supports ?E v (nd_current_term n) (nd_id n)" if "v \<in> ?S" for v
        using that ok' cand mem by (auto simp: node_ok_def mem_ok_def k_def member_of_def)
      have "nd_id n |\<notin>| nd_votes_received k"
        using ok' cand by (auto simp: node_ok_def mem_ok_def k_def)
      then have "card ?S = fcard (nd_votes_received k) + 1" by (simp add: fcard.rep_eq)
      moreover have "nd_vote_count k = of_nat (fcard (nd_votes_received k) + 1)" by (simp add: k_def)
      then have "unat (nd_vote_count k) \<le> fcard (nd_votes_received k) + 1"
        by (simp only: unat_of_nat take_bit_eq_mod) simp
      ultimately have "card M < 2 * card ?S"
        using q quorum_majority [of M k] mem by (simp add: member_of_def k_def)
      with S show ?thesis unfolding elected_def by blast
    qed
    then show ?thesis
      using works works_become_leader [of M k] ok' cand works_trans [of M n k]
      by (auto simp: k_def intro: ends_mono)
  qed
  show ?thesis
    unfolding handle_request_vote_reply_def Let_def
    using id bf count by (auto simp: k_def)
qed

end

end
