(* ===== verification/Cluster.thy ===== *)
theory Cluster
  imports Election
begin

text \<open>
  A cluster of nodes that share a clock and a network, and its possible steps: any message that was
  sent may be delivered, once, twice or never, in any order and at any time; any timer may fire at any
  time; clients submit commands and read; nodes crash and restart. A node whose method throws
  out of its event loop, or fails an assertion, is replaced by a new process on the same durable stores.

  The theorem is election safety: the state-change callback never reports two nodes as leader in
  the same term.
\<close>

section \<open>Crash and restart\<close>

lemma durable_meta_crash: "ds_inv s \<Longrightarrow> durable_meta (ds_crash s) = durable_meta s"
  by (simp add: durable_meta_def ds_durable_size_read ds.durable_crash ds.invar_crash)

lemma durable_ok_crash: "durable_ok M E i s \<Longrightarrow> durable_ok M E i (ds_crash s)"
  by (simp add: durable_ok_def durable_meta_crash ds.invar_crash)

lemma load_snapshot_frame:
  "ends (\<lambda>s. \<exists>i t d kv ci la l. s = n\<lparr>nd_snap_last_index := i, nd_snap_last_term := t, nd_snap_data := d,
     nd_kv := kv, nd_commit_index := ci, nd_last_applied := la, nd_log := l\<rparr>) (load_snapshot n)"
proof -
  have "\<exists>i t d kv ci la l. n = n\<lparr>nd_snap_last_index := i, nd_snap_last_term := t, nd_snap_data := d,
     nd_kv := kv, nd_commit_index := ci, nd_last_applied := la, nd_log := l\<rparr>"
    by (rule exI [of _ "nd_snap_last_index n"], rule exI [of _ "nd_snap_last_term n"],
        rule exI [of _ "nd_snap_data n"], rule exI [of _ "nd_kv n"], rule exI [of _ "nd_commit_index n"],
        rule exI [of _ "nd_last_applied n"], rule exI [of _ "nd_log n"]) simp
  then show ?thesis
    unfolding load_snapshot_def by (intro ends_intros) (auto intro!: exI)
qed

lemma load_meta_synced:
  assumes "ds_inv (nd_meta_store n)" "nd_current_term n = 0" "nd_voted_for n = None"
  shows "(\<exists>t v. load_meta n = Ret (n\<lparr>nd_current_term := t, nd_voted_for := v\<rparr>)
            \<and> durable_meta (nd_meta_store n) = Inr (t, v))
         \<or> (\<exists>e. load_meta n = Raise e n)"
proof (cases "ds_durable_size (nd_meta_store n) > 0")
  case True
  then have "load_meta n = liftO (durable_meta (nd_meta_store n)) n
      (\<lambda>(t, v). Ret (n\<lparr>nd_current_term := t, nd_voted_for := v\<rparr>))"
    unfolding load_meta_def durable_meta_def assms(3) by simp
  then show ?thesis by (cases "durable_meta (nd_meta_store n)") auto
next
  case False
  moreover have "n = n\<lparr>nd_current_term := 0, nd_voted_for := None\<rparr>" using assms(2,3) by simp
  ultimately show ?thesis using assms by (auto simp: load_meta_def durable_meta_def)
qed

section \<open>Clusters and their steps\<close>

record 'e cluster =
  cl_node :: "NodeId \<Rightarrow> 'e RaftNode"
  cl_env :: 'e

text \<open>
  \<open>relaunch\<close> is the process started again after its predecessor died: the constructor,
  given the static list of peers and the durable stores.
\<close>

definition relaunch :: "NodeId set \<Rightarrow> 'e RaftNode \<Rightarrow> 'e RaftNode" where
  "relaunch M n =
     (raft_node_init (nd_id n) (sorted_list_of_set (M - {nd_id n})) (nd_cfg n) (nd_env n))
       \<lparr>nd_meta_store := ds_crash (nd_meta_store n), nd_log_store := ds_crash (nd_log_store n),
        nd_snapshot_store := ds_crash (nd_snapshot_store n)\<rparr>"

primrec settle :: "NodeId set \<Rightarrow> 'e RaftNode outcome \<Rightarrow> 'e RaftNode" where
  "settle M (Ret n) = n"
| "settle M (Raise e n) = relaunch M n"

definition node_at :: "'e cluster \<Rightarrow> NodeId \<Rightarrow> 'e RaftNode" where
  "node_at C i = (cl_node C i)\<lparr>nd_env := cl_env C\<rparr>"

definition run_node :: "NodeId set \<Rightarrow> NodeId \<Rightarrow> ('e RaftNode \<Rightarrow> 'e RaftNode outcome) \<Rightarrow> 'e cluster \<Rightarrow> 'e cluster" where
  "run_node M i f C =
     (let n = settle M (f (node_at C i)) in \<lparr>cl_node = (cl_node C)(i := n), cl_env = nd_env n\<rparr>)"

definition cluster_init :: "NodeId set \<Rightarrow> (NodeId \<Rightarrow> RaftConfig) \<Rightarrow> 'e \<Rightarrow> 'e cluster" where
  "cluster_init M cfg e =
     \<lparr>cl_node = (\<lambda>i. raft_node_init i (sorted_list_of_set (M - {i})) (cfg i) e), cl_env = e\<rparr>"

inductive cluster_step ::
  "'e iface \<Rightarrow> ('e \<Rightarrow> net_event set) \<Rightarrow> NodeId set \<Rightarrow> 'e cluster \<Rightarrow> 'e cluster \<Rightarrow> bool"
  for I obs M where
  deliver: "i \<in> M \<Longrightarrow> Sent from i p \<in> obs (cl_env C) \<Longrightarrow>
    cluster_step I obs M C (run_node M i (on_message I from p) C)"
| inject: "i \<in> M \<Longrightarrow> hd p \<noteq> msg_tag RequestVoteT \<Longrightarrow> hd p \<noteq> msg_tag RequestVoteReplyT \<Longrightarrow>
    cluster_step I obs M C (run_node M i (on_message I from p) C)"
| submit: "i \<in> M \<Longrightarrow> cluster_step I obs M C (run_node M i (\<lambda>n. snd (submit I c r cmd cb n)) C)"
| read: "i \<in> M \<Longrightarrow> cluster_step I obs M C (run_node M i (\<lambda>n. Ret (snd (read_index I key cb n))) C)"
| fire: "i \<in> M \<Longrightarrow> nd_current_term (cl_node C i) \<noteq> - 1 \<Longrightarrow>
    cluster_step I obs M C (run_node M i (fire_timer I tm) C)"
| crash: "i \<in> M \<Longrightarrow> cluster_step I obs M C (run_node M i (nd_crash I) C)"
| restart: "i \<in> M \<Longrightarrow> \<not> nd_running (cl_node C i) \<Longrightarrow>
    cluster_step I obs M C (run_node M i (nd_restart I) C)"
| outside: "obs e = obs (cl_env C) \<Longrightarrow> cluster_step I obs M C (C\<lparr>cl_env := e\<rparr>)"

text \<open>
  Runs in which the membership stays the one the nodes were started with, that is in which no
  \<open>CmdAddServer\<close> or \<open>CmdRemoveServer\<close> has been applied.
\<close>

inductive cluster_run ::
  "'e iface \<Rightarrow> ('e \<Rightarrow> net_event set) \<Rightarrow> NodeId set \<Rightarrow> (NodeId \<Rightarrow> RaftConfig) \<Rightarrow> 'e cluster \<Rightarrow> bool"
  for I obs M cfg where
  init: "obs e = {} \<Longrightarrow> cluster_run I obs M cfg (cluster_init M cfg e)"
| step: "cluster_run I obs M cfg C \<Longrightarrow> cluster_step I obs M C C' \<Longrightarrow>
    \<forall>i \<in> M. member_of M (cl_node C' i) \<Longrightarrow> cluster_run I obs M cfg C'"

definition cluster_ok :: "('e \<Rightarrow> net_event set) \<Rightarrow> NodeId set \<Rightarrow> 'e cluster \<Rightarrow> bool" where
  "cluster_ok obs M C \<longleftrightarrow>
     (\<forall>i \<in> M. nd_id (cl_node C i) = i \<and> node_ok M (obs (cl_env C)) (cl_node C i)
        \<and> member_of M (cl_node C i))
     \<and> (\<forall>ev \<in> obs (cl_env C). ev_node ev \<in> M)"

lemma node_ok_env [simp]: "node_ok M E (n\<lparr>nd_env := e\<rparr>) = node_ok M E n"
  by (simp add: node_ok_def mem_ok_def meta_synced_def)

lemma member_of_env [simp]: "member_of M (n\<lparr>nd_env := e\<rparr>) = member_of M n"
  by (simp add: member_of_def)

lemma durable_ok_empty: "durable_ok M {} i ds_init"
  by (simp add: durable_ok_def supports_def durable_meta_def ds_durable_size_def) (simp add: ds_init_def)

lemma cluster_init_ok: "obs e = {} \<Longrightarrow> cluster_ok obs M (cluster_init M cfg e)"
  by (simp add: cluster_ok_def cluster_init_def node_ok_def mem_ok_def member_of_def raft_node_init_def
      durable_ok_empty)

lemma relaunch_ok: "durable_ok M E (nd_id n) (nd_meta_store n) \<Longrightarrow> node_ok M E (relaunch M n)"
  by (simp add: relaunch_def raft_node_init_def node_ok_def mem_ok_def durable_ok_crash)

lemma relaunch_fields [simp]: "nd_id (relaunch M n) = nd_id n" "nd_env (relaunch M n) = nd_env n"
  by (simp_all add: relaunch_def raft_node_init_def)

section \<open>Every step keeps the invariant\<close>

context observed_env
begin

text \<open>What is left of a node when its process dies.\<close>

definition survives :: "NodeId set \<Rightarrow> 'e RaftNode \<Rightarrow> 'e RaftNode \<Rightarrow> bool" where
  "survives M n s \<longleftrightarrow> nd_id s = nd_id n \<and> durable_ok M (obs (nd_env s)) (nd_id n) (nd_meta_store s)
     \<and> obs (nd_env n) \<subseteq> obs (nd_env s) \<and> (\<forall>ev \<in> obs (nd_env s) - obs (nd_env n). ev_node ev = nd_id n)"

lemma works_survives: "works M n s \<Longrightarrow> survives M n s"
  by (auto simp: works_def survives_def node_ok_def)

definition crashed :: "'e RaftNode \<Rightarrow> 'e RaftNode \<Rightarrow> bool" where
  "crashed n s \<longleftrightarrow> nd_id s = nd_id n \<and> nd_role s = Follower \<and> \<not> nd_running s
     \<and> nd_meta_store s = ds_crash (nd_meta_store n) \<and> benign_ext (nd_id n) (obs (nd_env n)) (obs (nd_env s))"

lemma crashed_reply: "crashed n m \<Longrightarrow> crashed n (reply_to_client I cb r m)"
  by (auto simp: crashed_def reply_to_client_def nd_send_def env_do_def obs_simps intro!: benign_ext_insert
      split: client_cb.splits)

lemma crashed_fold_reply:
  "crashed n m \<Longrightarrow> crashed n (fold (\<lambda>(i, cb, j). reply_to_client I cb r) xs m)"
  by (induction xs arbitrary: m) (auto simp: crashed_reply)

lemma crash_contract: "ends (crashed n) (nd_crash I n)"
  unfolding nd_crash_def Let_def
proof (intro ends_intros, goal_cases)
  case (4 s)
  have "crashed n (s\<lparr>nd_env := e, nd_pending_clients := [], nd_pending_reads := []\<rparr>) = crashed n (s\<lparr>nd_env := e\<rparr>)"
    for s e by (simp add: crashed_def)
  moreover have "crashed n (s\<lparr>nd_env := fold (\<lambda>pr. if_cancel I (pr_timeout_id pr)) xs (nd_env s)\<rparr>) = crashed n s"
    for s and xs :: "PendingRead list" by (simp add: crashed_def obs_fold_silent obs_simps)
  ultimately show ?case
    using crashed_fold_reply [OF 4(2)] by (simp add: env_do_def crashed_def obs_fold_silent obs_simps)
qed (simp_all add: crashed_def env_do_def obs_simps)

lemma works_crash:
  assumes "node_ok M (obs (nd_env n)) n"
  shows "ends (works M n) (nd_crash I n)"
proof (rule ends_mono [OF crash_contract])
  fix s assume s: "crashed n s"
  have "durable_ok M (obs (nd_env s)) (nd_id n) (nd_meta_store s)"
    using s assms durable_ok_benign [OF durable_ok_crash] by (auto simp: crashed_def node_ok_def)
  moreover have "mem_ok M (obs (nd_env s)) s" using s by (simp add: crashed_def mem_ok_def)
  moreover have "benign i ev \<Longrightarrow> ev_node ev = i" for i ev by (cases ev) auto
  ultimately show "works M n s"
    using s by (auto simp: works_def node_ok_def crashed_def benign_ext_def)
qed

text \<open>Starting on what the stores hold.\<close>

definition booting :: "'e RaftNode \<Rightarrow> 'e RaftNode \<Rightarrow> bool" where
  "booting n s \<longleftrightarrow> nd_id s = nd_id n \<and> nd_role s = Follower \<and> nd_running s
     \<and> nd_meta_store s = nd_meta_store n \<and> obs (nd_env s) = obs (nd_env n)"

definition boot_tail :: "'e RaftNode \<Rightarrow> 'e RaftNode outcome" where
  "boot_tail n = thenO (load_log n) (\<lambda>n. thenO (apply_committed_entries I n)
     (\<lambda>n. Ret (schedule_election_timeout I n)))"

lemma works_boot_tail:
  assumes ok: "durable_ok M (obs (nd_env n)) (nd_id n) (nd_meta_store n)" and c: "booting n c"
    and meta: "durable_meta (nd_meta_store n) = Inr (nd_current_term c, nd_voted_for c)"
  shows "ends (works M n) (boot_tail c)"
proof -
  have "node_ok M (obs (nd_env c)) c" "nd_running c"
    using c ok meta by (simp_all add: booting_def node_ok_def mem_ok_def meta_synced_def durable_ok_def)
  moreover from this have "works M n c" using c by (simp add: works_def booting_def)
  moreover have "ends (quiet c) (boot_tail c)"
    unfolding boot_tail_def load_log_def
    by (intro ends_intros quiet_apply_committed) (simp_all add: quiet_schedule_election)
  ultimately show ?thesis by (blast intro: works_quiet_trans)
qed

definition comes_back :: "NodeId set \<Rightarrow> 'e RaftNode \<Rightarrow> 'e RaftNode outcome \<Rightarrow> bool" where
  "comes_back M n r \<longleftrightarrow> (case r of Ret s \<Rightarrow> works M n s | Raise e s \<Rightarrow> survives M n s)"

lemma works_comes_back: "ends (works M n) r \<Longrightarrow> comes_back M n r"
  by (cases r) (simp_all add: comes_back_def works_survives)

lemma works_load_meta:
  assumes ok: "durable_ok M (obs (nd_env n)) (nd_id n) (nd_meta_store n)" and b: "booting n b"
    and zero: "nd_current_term b = 0" "nd_voted_for b = None"
  shows "comes_back M n (thenO (load_meta b) boot_tail)"
proof -
  have "ds_inv (nd_meta_store b)" using ok b by (simp add: booting_def durable_ok_def)
  from load_meta_synced [OF this zero] show ?thesis
  proof (elim disjE exE conjE)
    fix t v assume lm: "load_meta b = Ret (b\<lparr>nd_current_term := t, nd_voted_for := v\<rparr>)"
      "durable_meta (nd_meta_store b) = Inr (t, v)"
    have "booting n (b\<lparr>nd_current_term := t, nd_voted_for := v\<rparr>)" "nd_meta_store n = nd_meta_store b"
      using b by (simp_all add: booting_def)
    with lm works_boot_tail [OF ok this(1)] show ?thesis by (simp add: works_comes_back)
  next
    fix e assume "load_meta b = Raise e b"
    with ok b show ?thesis by (simp add: comes_back_def survives_def booting_def)
  qed
qed

lemma works_restart:
  assumes ok: "node_ok M (obs (nd_env n)) n" and down: "\<not> nd_running n"
  shows "comes_back M n (nd_restart I n)"
proof -
  define a where "a = env_do (if_set_handler I (nd_id n)) (n\<lparr>nd_current_term := 0, nd_voted_for := None,
    nd_log := log_init, nd_kv := [], nd_running := True\<rparr>)"
  have dur: "durable_ok M (obs (nd_env n)) (nd_id n) (nd_meta_store n)" "nd_role n = Follower"
    using ok down by (auto simp: node_ok_def mem_ok_def)
  have eq: "nd_restart I n = thenO (load_snapshot a) (\<lambda>n. thenO (load_meta n) boot_tail)"
    by (simp add: nd_restart_def nd_start_def Let_def a_def env_do_def boot_tail_def [abs_def])
  have a: "booting n a" "nd_current_term a = 0" "nd_voted_for a = None"
    using dur(2) by (simp_all add: a_def booting_def env_do_def obs_simps)
  have "ends (\<lambda>b. booting n b \<and> nd_current_term b = 0 \<and> nd_voted_for b = None) (load_snapshot a)"
    by (rule ends_mono [OF load_snapshot_frame], elim exE) (use a in \<open>simp add: booting_def\<close>)
  then show ?thesis
    unfolding eq using works_load_meta [OF dur(1)] dur(1)
    by (cases "load_snapshot a") (auto simp: comes_back_def survives_def booting_def)
qed

lemma comes_back_settle: "comes_back M n r \<Longrightarrow> works M n (settle M r)"
  by (cases r) (auto simp: comes_back_def works_def survives_def intro!: relaunch_ok)

lemma run_node_ok:
  assumes ok: "cluster_ok obs M C" and i: "i \<in> M"
    and works: "comes_back M (node_at C i) (f (node_at C i))"
    and stable: "\<forall>j \<in> M. member_of M (cl_node (run_node M i f C) j)"
  shows "cluster_ok obs M (run_node M i f C)"
proof -
  define s where "s = settle M (f (node_at C i))"
  have w: "works M (node_at C i) s" using comes_back_settle [OF works] by (simp add: s_def)
  have ext: "obs (cl_env C) \<subseteq> obs (nd_env s)" "\<forall>ev \<in> obs (nd_env s) - obs (cl_env C). ev_node ev = i"
    and s: "nd_id s = i" "node_ok M (obs (nd_env s)) s"
    using w ok i by (auto simp: works_def node_at_def cluster_ok_def)
  have "node_ok M (obs (nd_env s)) (cl_node C j)" if "j \<in> M" "j \<noteq> i" for j
  proof (rule node_ok_frame)
    show "node_ok M (obs (cl_env C)) (cl_node C j)" using ok that(1) by (simp add: cluster_ok_def)
    show "\<forall>ev \<in> obs (nd_env s) - obs (cl_env C). ev_node ev \<noteq> nd_id (cl_node C j)"
      using ext(2) ok that by (auto simp: cluster_ok_def)
  qed (rule ext(1))
  moreover have "ev_node ev \<in> M" if "ev \<in> obs (nd_env s)" for ev
    using that ext(2) ok i by (cases "ev \<in> obs (cl_env C)") (auto simp: cluster_ok_def)
  moreover have "run_node M i f C = \<lparr>cl_node = (cl_node C)(i := s), cl_env = nd_env s\<rparr>"
    by (simp add: run_node_def s_def Let_def)
  ultimately show ?thesis
    using s ok stable unfolding cluster_ok_def by (simp add: fun_upd_apply)
qed

lemma works_on_message:
  assumes ok: "cluster_ok obs M C" and i: "i \<in> M"
    and origin: "Sent from i p \<in> obs (cl_env C) \<or> hd p \<noteq> 1 \<and> hd p \<noteq> 2"
  shows "ends (works M (node_at C i)) (on_message I from p (node_at C i))"
proof -
  define n where "n = node_at C i"
  have n: "node_ok M (obs (nd_env n)) n" "member_of M n" "nd_id n = i" "obs (nd_env n) = obs (cl_env C)"
    using ok i by (simp_all add: n_def node_at_def cluster_ok_def)
  have id: "works M n n" using n(1) by (simp add: works_def)
  have "ends (works M n) (dispatch I from p n)" if run: "nd_running n" "p \<noteq> []"
  proof (cases "hd p \<noteq> 1 \<and> hd p \<noteq> 2")
    case True
    then show ?thesis
      using quiet_works [OF n(1) run(1)] by (intro ends_mono [OF quiet_dispatch [of n n]]) simp_all
  next
    case False
    then have sent: "Sent from i p \<in> obs (cl_env C)" using origin by blast
    then have "from \<in> M" using ok by (force simp: cluster_ok_def)
    then have "well_sent (Sent from i p)"
      using ok sent unfolding cluster_ok_def node_ok_def durable_ok_def by force
    then have ne: "from \<noteq> i"
      and rv: "hd p = 1 \<Longrightarrow> \<exists>rv. p = encode_request_vote rv \<and> rv_candidate_id rv = from"
      and rvr: "hd p = 2 \<Longrightarrow> \<exists>r. p = encode_request_vote_reply r"
      using False by auto
    consider rv where "p = encode_request_vote rv" "rv_candidate_id rv = from"
      | r where "p = encode_request_vote_reply r" using rv rvr False by blast
    then show ?thesis
    proof cases
      case 1
      then show ?thesis
        using works_request_vote [OF n(1) run(1), of rv] ne n(3) by (simp add: dispatch_def)
    next
      case (2 r)
      have "supports (obs (nd_env n)) from (rvr_term r) (nd_id n)" if "rvr_vote_granted r"
        using sent 2 that n(3,4) by (cases r) (simp add: supports_def)
      with 2 show ?thesis
        using works_request_vote_reply [OF n(1) run(1) n(2) \<open>from \<in> M\<close>, of r] ne n(3)
        by (simp add: dispatch_def)
    qed
  qed
  with id show ?thesis unfolding n_def [symmetric] by (simp add: on_message_def)
qed

lemma works_fire:
  assumes ok: "cluster_ok obs M C" and i: "i \<in> M" and t: "nd_current_term (cl_node C i) \<noteq> - 1"
  shows "ends (works M (node_at C i)) (fire_timer I tm (node_at C i))"
proof -
  define n where "n = node_at C i"
  have n: "node_ok M (obs (nd_env n)) n" "member_of M n" "nd_current_term n \<noteq> - 1"
    using ok i t by (simp_all add: n_def node_at_def cluster_ok_def)
  have touch: "works M n (n\<lparr>nd_election_scheduled := b\<rparr>)" "works M n (n\<lparr>nd_heartbeat_scheduled := b\<rparr>)"
    "works M n (n\<lparr>nd_pending_reads := prs\<rparr>)" for b prs
    using n(1) by (simp_all add: works_def node_ok_def mem_ok_def meta_synced_def)
  have "ends (works M n) (fire_timer I tm n)"
  proof (cases tm)
    case (ElectionTimer j gen)
    let ?m = "n\<lparr>nd_election_scheduled := False\<rparr>"
    have "ends (works M ?m) (become_candidate I ?m)"
      using touch(1) [of False] n by (intro works_become_candidate) (simp_all add: works_def member_of_def)
    then have "ends (works M n) (become_candidate I ?m)"
      by (rule ends_mono) (rule works_trans [OF touch(1)])
    with ElectionTimer touch n(1) show ?thesis by (simp add: on_election_timeout_def Let_def works_def)
  next
    case (HeartbeatTimer j)
    let ?m = "n\<lparr>nd_heartbeat_scheduled := False\<rparr>"
    have "ends (works M n) (on_heartbeat I ?m)" if "nd_running n"
      using that works_quiet_trans [OF touch(2) [of False] _ quiet_on_heartbeat [of ?m ?m]] by simp
    with HeartbeatTimer touch show ?thesis by (simp add: Let_def)
  next
    case (ReadTimer j r)
    have "works M n (read_timeout I r n)"
      using touch(3) n(1)
      by (auto simp: read_timeout_def env_do_def works_def node_ok_def mem_ok_def meta_synced_def obs_simps
          split: option.splits)
    with ReadTimer show ?thesis by simp
  qed
  then show ?thesis by (simp add: n_def)
qed

lemma works_down: "node_ok M (obs (nd_env n)) n \<Longrightarrow> works M n n"
  by (simp add: works_def)

lemma cluster_step_ok:
  assumes "cluster_step I obs M C C'" "cluster_ok obs M C" "\<forall>i \<in> M. member_of M (cl_node C' i)"
  shows "cluster_ok obs M C'"
  using assms
proof (induction rule: cluster_step.induct)
  case (deliver i src p C)
  then show ?case by (intro run_node_ok works_comes_back works_on_message) simp_all
next
  case (inject i p C src)
  then show ?case by (intro run_node_ok works_comes_back works_on_message) simp_all
next
  case (submit i C c r cmd cb)
  have n: "node_ok M (obs (nd_env (node_at C i))) (node_at C i)"
    using submit by (simp add: node_at_def cluster_ok_def)
  have "ends (works M (node_at C i)) (snd (submit I c r cmd cb (node_at C i)))"
  proof (cases "nd_running (node_at C i)")
    case True
    then show ?thesis
      using quiet_works [OF n] by (intro ends_mono [OF quiet_submit [OF quiet_refl]])
  qed (use n in \<open>simp add: submit_def works_down\<close>)
  with submit show ?case by (intro run_node_ok works_comes_back) simp_all
next
  case (read i C key cb)
  have n: "node_ok M (obs (nd_env (node_at C i))) (node_at C i)"
    using read by (simp add: node_at_def cluster_ok_def)
  have "works M (node_at C i) (snd (read_index I key cb (node_at C i)))"
  proof (cases "nd_running (node_at C i)")
    case True
    then show ?thesis using quiet_works [OF n _ quiet_read_index [OF quiet_refl]] by simp
  qed (use n in \<open>simp add: read_index_def works_down\<close>)
  with read show ?case by (intro run_node_ok works_comes_back) simp_all
next
  case (fire i C tm)
  then show ?case by (intro run_node_ok works_comes_back works_fire) simp_all
next
  case (crash i C)
  then show ?case
    by (intro run_node_ok works_comes_back works_crash) (simp_all add: node_at_def cluster_ok_def)
next
  case (restart i C)
  then show ?case
    by (intro run_node_ok works_restart) (simp_all add: node_at_def cluster_ok_def)
next
  case (outside e C)
  then show ?case by (simp add: cluster_ok_def)
qed

lemma cluster_run_ok: "cluster_run I obs M cfg C \<Longrightarrow> cluster_ok obs M C"
  by (induction rule: cluster_run.induct) (auto intro: cluster_init_ok cluster_step_ok)

lemma one_leader_per_term:
  assumes "cluster_run I obs M cfg C"
    and "Changed i Leader t \<in> obs (cl_env C)" "Changed j Leader t \<in> obs (cl_env C)"
  shows "i = j"
proof -
  let ?E = "obs (cl_env C)"
  have ok: "cluster_ok obs M C" by (rule cluster_run_ok) fact
  have dur: "durable_ok M ?E v (nd_meta_store (cl_node C v))" if "v \<in> M" for v
    using ok that by (auto simp: cluster_ok_def node_ok_def)
  have "i \<in> M" "j \<in> M" using ok assms(2,3) by (force simp: cluster_ok_def)+
  then have "elected M ?E t i" "elected M ?E t j"
    using dur assms(2,3) by (auto simp: durable_ok_def)
  moreover have "a = b" if "v \<in> M" "supports ?E v t a" "supports ?E v t b" for v a b
    using dur [OF that(1)] that(2,3) unfolding durable_ok_def by blast
  ultimately show ?thesis by (rule elected_unique)
qed

end

end
