(* ===== verification/Sim_Env.thy ===== *)
theory Sim_Env
  imports Network Cluster
begin

text \<open>
  The environment that the test harness gives to its nodes: \<open>Simulator\<close> as \<open>IClock\<close> and
  \<open>Network\<close> as \<open>ITransport\<close>.

  The closures that the harness schedules are the datatype \<open>action\<close>, the handlers it
  registers the datatype \<open>handler\<close>. Two fields are not state of the program: \<open>se_trace\<close> records
  the messages sent by nodes and the state changes they report, and \<open>se_halted\<close> is set when a
  call made by a node never returned or aborted the process, so that nothing after it is an execution.

  The interface record \<open>sim_iface\<close> satisfies \<open>observed_env\<close>, so the election theorem
  holds of simulated clusters.
\<close>

section \<open>Actions, handlers and the environment\<close>

datatype handler = NodeHandler NodeId | ClientHandler nat

datatype action =
    Deliver handler NodeId NodeId payload
  | NodeTimer timer
  | IssueOp nat
  | OpTimeout nat
  | FaultTick
  | HealNetwork
  | RestartNode nat
  | RestoreDrop rat
  | RestoreDup rat

record sim_env =
  se_sim :: "action Simulator"
  se_net :: "handler Network"
  se_trace :: "net_event list"
  se_halted :: bool

definition sim_env_init :: "u64 \<Rightarrow> NetworkConfig \<Rightarrow> sim_env" where
  "sim_env_init seed cfg =
     \<lparr>se_sim = sim_init seed, se_net = network_init cfg, se_trace = [], se_halted = False\<rparr>"

definition env_schedule :: "SimTime \<Rightarrow> action \<Rightarrow> sim_env \<Rightarrow> EventId \<times> sim_env" where
  "env_schedule d a e = (let (i, s) = sim_schedule d a (se_sim e) in (i, e\<lparr>se_sim := s\<rparr>))"

definition env_range :: "u64 \<Rightarrow> u64 \<Rightarrow> sim_env \<Rightarrow> u64 \<times> sim_env" where
  "env_range lo hi e =
     (case sim_random_range lo hi (se_sim e) of
        Some (Inr (v, s)) \<Rightarrow> (v, e\<lparr>se_sim := s\<rparr>)
      | _ \<Rightarrow> (0, e\<lparr>se_halted := True\<rparr>))"

definition env_send :: "NodeId \<Rightarrow> NodeId \<Rightarrow> payload \<Rightarrow> sim_env \<Rightarrow> sim_env" where
  "env_send from dest p e =
     (case net_send Deliver (se_net e) from dest p (se_sim e) of
        Some (Inr s) \<Rightarrow> e\<lparr>se_sim := s\<rparr>
      | _ \<Rightarrow> e\<lparr>se_halted := True\<rparr>)"

definition env_record :: "net_event \<Rightarrow> sim_env \<Rightarrow> sim_env" where
  "env_record ev e = e\<lparr>se_trace := ev # se_trace e\<rparr>"

definition sim_iface :: "sim_env iface" where
  "sim_iface =
     \<lparr>if_schedule = (\<lambda>d tm. env_schedule d (NodeTimer tm)),
      if_cancel = (\<lambda>i e. e\<lparr>se_sim := sim_cancel i (se_sim e)\<rparr>),
      if_random_range = env_range,
      if_send = (\<lambda>from dest p e. env_record (Sent from dest p) (env_send from dest p e)),
      if_set_handler = (\<lambda>i e. e\<lparr>se_net := net_set_handler i (NodeHandler i) (se_net e)\<rparr>),
      if_remove_handler = (\<lambda>i e. e\<lparr>se_net := net_remove_handler i (se_net e)\<rparr>),
      if_client_cb = (\<lambda>k r e. e),
      if_read_cb = (\<lambda>k b v e. e),
      if_state_change = (\<lambda>i r t e. env_record (Changed i r t) e)\<rparr>"

definition env_obs :: "sim_env \<Rightarrow> net_event set" where
  "env_obs e = set (se_trace e)"

lemma env_trace [simp]:
  "se_trace (snd (env_schedule d a e)) = se_trace e"
  "se_trace (snd (env_range lo hi e)) = se_trace e"
  "se_trace (env_send from dest p e) = se_trace e"
  by (auto simp: env_schedule_def env_range_def env_send_def Let_def split: prod.splits option.splits sum.splits)

interpretation sim: observed_env sim_iface env_obs
  by unfold_locales (simp_all add: sim_iface_def env_obs_def env_record_def)

section \<open>Properties\<close>

text \<open>
  C1. Election safety. In a cluster of simulated nodes with fixed membership, whatever messages are lost,
  duplicated, delayed or reordered, whichever timers fire, however nodes crash, restart or are relaunched
  on their durable stores, and whatever other messages are forged as long as they are not vote requests or
  vote replies: the state-change callback never reports two different nodes as leader of the same term.
\<close>

theorem election_safety:
  assumes "cluster_run sim_iface env_obs M cfg C"
    and "Changed i Leader t \<in> env_obs (cl_env C)" "Changed j Leader t \<in> env_obs (cl_env C)"
  shows "i = j"
  using assms by (rule sim.one_leader_per_term)

lemma restart_fresh:
  "nd_restart I (raft_node_init i ps cfg e) =
     Ret (schedule_election_timeout I ((raft_node_init i ps cfg (if_set_handler I i e))\<lparr>nd_running := True\<rparr>))"
  by (simp add: nd_restart_def nd_start_def raft_node_init_def env_do_def load_snapshot_def load_meta_def load_log_def
      apply_committed_entries_def apply_loop.simps drain_pending_reads_def Let_def ds_durable_size_def log_size_def)
    (simp add: ds_init_def log_init_def)

lemma heartbeat_fields [simp]:
  "nd_peers (schedule_heartbeat I n) = nd_peers n" "nd_id (schedule_heartbeat I n) = nd_id n"
  by (simp_all add: schedule_heartbeat_def Let_def)

context observed_env
begin

lemma obs_schedule_heartbeat: "obs (nd_env (schedule_heartbeat I n)) = obs (nd_env n)"
  by (simp add: schedule_heartbeat_def Let_def obs_simps)

lemma solo_candidate:
  assumes "nd_peers n = []" "nd_running n" "nd_role n = Follower"
  shows "\<exists>s. fire_timer I (ElectionTimer i (nd_election_generation n)) n = Ret s \<and> nd_peers s = [] \<and> nd_id s = nd_id n
    \<and> Changed (nd_id n) Leader (nd_current_term n + 1) \<in> obs (nd_env s)"
  using assms
  by (simp add: on_election_timeout_def become_candidate_def Let_def env_do_def persist_def quorum_def
      become_leader_def replicate_all_def obs_schedule_heartbeat obs_simps)

end

text \<open>A run of a one-node cluster that elects a leader.\<close>

definition solo_cluster :: "sim_env cluster" where
  "solo_cluster = cluster_init {1} (\<lambda>_. default_config) (sim_env_init 1 default_network_config)"

definition solo_booted :: "sim_env cluster" where
  "solo_booted = run_node {1} 1 (nd_restart sim_iface) solo_cluster"

definition solo_elected :: "sim_env cluster" where
  "solo_elected = run_node {1} 1 (fire_timer sim_iface (ElectionTimer 1 1)) solo_booted"

lemma solo_booted_node:
  "node_at solo_booted 1 = schedule_election_timeout sim_iface ((raft_node_init 1 [] default_config
     (if_set_handler sim_iface 1 (sim_env_init 1 default_network_config)))\<lparr>nd_running := True\<rparr>)"
proof -
  have "node_at solo_cluster 1 = raft_node_init 1 [] default_config (sim_env_init 1 default_network_config)"
    by (simp add: node_at_def solo_cluster_def cluster_init_def raft_node_init_def)
  then show ?thesis
    by (simp add: solo_booted_def run_node_def restart_fresh Let_def) (simp add: node_at_def)
qed

lemma solo_run:
  "cluster_run sim_iface env_obs {1} (\<lambda>_. default_config) solo_elected"
  "Changed 1 Leader 1 \<in> env_obs (cl_env solo_elected)"
proof -
  let ?n = "node_at solo_booted 1"
  have n: "nd_peers ?n = []" "nd_running ?n" "nd_role ?n = Follower" "nd_election_generation ?n = 1"
    "nd_id ?n = 1" "nd_current_term ?n = 0"
    unfolding solo_booted_node by (simp_all add: raft_node_init_def schedule_election_timeout_def Let_def)
  have "cluster_run sim_iface env_obs {1} (\<lambda>_. default_config) solo_cluster"
    unfolding solo_cluster_def by (rule cluster_run.init) (simp add: env_obs_def sim_env_init_def)
  moreover have "cluster_step sim_iface env_obs {1} solo_cluster solo_booted"
    unfolding solo_booted_def
    by (rule cluster_step.restart) (simp_all add: solo_cluster_def cluster_init_def raft_node_init_def)
  moreover have "member_of {1} (cl_node solo_booted 1)"
    using n by (simp add: node_at_def member_of_def)
  ultimately have booted: "cluster_run sim_iface env_obs {1} (\<lambda>_. default_config) solo_booted"
    by (blast intro: cluster_run.step)
  obtain s where s: "fire_timer sim_iface (ElectionTimer 1 1) ?n = Ret s" "nd_peers s = []" "nd_id s = 1"
    "Changed 1 Leader 1 \<in> env_obs (nd_env s)"
    using sim.solo_candidate [OF n(1-3), of 1] n(4-6) by auto
  have e: "solo_elected = \<lparr>cl_node = (cl_node solo_booted)(1 := s), cl_env = nd_env s\<rparr>"
    unfolding solo_elected_def run_node_def s(1) by simp
  have "cluster_step sim_iface env_obs {1} solo_booted solo_elected"
    unfolding solo_elected_def by (rule cluster_step.fire) (use n(6) in \<open>simp_all add: node_at_def\<close>)
  moreover have "member_of {1} (cl_node solo_elected 1)" using s(2,3) unfolding e by (simp add: member_of_def)
  ultimately show "cluster_run sim_iface env_obs {1} (\<lambda>_. default_config) solo_elected"
    using booted by (blast intro: cluster_run.step)
  show "Changed 1 Leader 1 \<in> env_obs (cl_env solo_elected)" unfolding e using s(4) by simp
qed

theorem election_safety_witness:
  "{j. Changed j Leader 1 \<in> env_obs (cl_env solo_elected)} = {1}"
  using election_safety [OF solo_run] solo_run(2) by blast

end
