(* ===== verification/World.thy ===== *)
theory World
  imports Sim_Env History "HOL-Library.Log_Nat"
begin

text \<open>
  The world of one test run: the simulated environment, the nodes, and the state of the harness objects
  of \<open>src/harness/workload.hpp\<close> and \<open>src/harness/fault_injector.hpp\<close>. The harness objects hold references
  to the simulator, the network, the history and the nodes, so their methods act on this record.

  \<^item> Doubles are rationals, and \<open>dbl\<close> rounds to the nearest double, ties to even; \<open>dadd\<close> is the sum of
    doubles.
  \<^item> \<open>on_node\<close> runs a method of a node. An exception that leaves it is an exception of the run. If the
    node made a call that does not return, the run does not return.
\<close>

section \<open>Doubles\<close>

definition round_even :: "rat \<Rightarrow> int" where
  "round_even x = (let n = \<lfloor>x\<rfloor>; r = x - of_int n
     in if r < 1 / 2 then n else if r > 1 / 2 then n + 1 else if even n then n else n + 1)"

definition pow2 :: "int \<Rightarrow> rat" where
  "pow2 j = (if 0 \<le> j then 2 ^ nat j else 1 / 2 ^ nat (- j))"

definition dbl :: "rat \<Rightarrow> rat" where
  "dbl x =
     (let e = int (floorlog 2 (nat \<lfloor>\<bar>x\<bar> * 2 ^ 1074\<rfloor>)) - 1075;
          ulp = pow2 (max (e - 52) (- 1074))
      in ulp * of_int (round_even (x / ulp)))"

definition dadd :: "rat \<Rightarrow> rat \<Rightarrow> rat" where
  "dadd x y = dbl (x + y)"

section \<open>Harness state\<close>

definition kMsec :: SimTime where "kMsec = 1000"

definition kSec :: SimTime where "kSec = 1000000"

record WorkloadConfig =
  wc_num_clients :: nat
  wc_num_keys :: nat
  wc_total_ops :: nat
  wc_think_time :: SimTime
  wc_put_prob :: rat
  wc_get_prob :: rat

definition default_workload_config :: WorkloadConfig where
  "default_workload_config =
     \<lparr>wc_num_clients = 4, wc_num_keys = 8, wc_total_ops = 200, wc_think_time = 5 * kMsec,
      wc_put_prob = dbl (4 / 10), wc_get_prob = dbl (4 / 10)\<rparr>"

definition kClientIdBase :: NodeId where "kClientIdBase = 100"

record ClientState =
  cs_believed_leader :: NodeId
  cs_next_request_id :: u64
  cs_waiting :: bool
  cs_history_handle :: nat
  cs_sent_at :: SimTime
  cs_timeout_id :: EventId

text \<open>Counters of type \<open>size_t\<close> that are decremented are 64-bit words.\<close>

record Workload =
  wl_nodes :: "NodeId list"
  wl_cfg :: WorkloadConfig
  wl_clients :: "ClientState list"
  wl_ops_issued :: nat
  wl_ops_completed :: nat
  wl_pending :: u64

record FaultConfig =
  fc_fault_rate :: rat
  fc_check_interval :: SimTime
  fc_partition_duration :: SimTime
  fc_crash_min_down :: SimTime
  fc_crash_max_down :: SimTime
  fc_partition_prob :: rat
  fc_drop_raise_prob :: rat
  fc_dup_raise_prob :: rat

definition default_fault_config :: FaultConfig where
  "default_fault_config =
     \<lparr>fc_fault_rate = dbl (5 / 100), fc_check_interval = 200 * kMsec, fc_partition_duration = 800 * kMsec,
      fc_crash_min_down = 300 * kMsec, fc_crash_max_down = 1 * kSec, fc_partition_prob = dbl (4 / 10),
      fc_drop_raise_prob = dbl (2 / 10), fc_dup_raise_prob = dbl (1 / 10)\<rparr>"

record FaultInjector =
  fi_cfg :: FaultConfig
  fi_running :: bool
  fi_tick_id :: EventId

record world =
  w_env :: sim_env
  w_nodes :: "sim_env RaftNode list"
  w_history :: History
  w_load :: Workload
  w_fault :: FaultInjector

section \<open>Calls on the simulator, the network and the nodes\<close>

definition w_sim :: "world \<Rightarrow> action Simulator" where
  "w_sim w = se_sim (w_env w)"

definition w_set_sim :: "action Simulator \<Rightarrow> world \<Rightarrow> world" where
  "w_set_sim s w = w\<lparr>w_env := (w_env w)\<lparr>se_sim := s\<rparr>\<rparr>"

definition w_set_net :: "(handler Network \<Rightarrow> handler Network) \<Rightarrow> world \<Rightarrow> world" where
  "w_set_net f w = w\<lparr>w_env := (w_env w)\<lparr>se_net := f (se_net (w_env w))\<rparr>\<rparr>"

definition w_now :: "world \<Rightarrow> SimTime" where
  "w_now w = sm_clock (w_sim w)"

definition w_schedule :: "SimTime \<Rightarrow> action \<Rightarrow> world \<Rightarrow> EventId \<times> world" where
  "w_schedule d a w = (let (i, s) = sim_schedule d a (w_sim w) in (i, w_set_sim s w))"

definition w_cancel :: "EventId \<Rightarrow> world \<Rightarrow> world" where
  "w_cancel i w = w_set_sim (sim_cancel i (w_sim w)) w"

definition w_range :: "u64 \<Rightarrow> u64 \<Rightarrow> world \<Rightarrow> (u64 \<times> world) run" where
  "w_range lo hi w = bindX (sim_random_range lo hi (w_sim w)) (\<lambda>(v, s). Some (Inr (v, w_set_sim s w)))"

definition w_unit :: "world \<Rightarrow> rat \<times> world" where
  "w_unit w = (let (r, p) = prng_unit (sm_prng (w_sim w)) in (r, w_set_sim ((w_sim w)\<lparr>sm_prng := p\<rparr>) w))"

definition w_bernoulli :: "rat \<Rightarrow> world \<Rightarrow> bool \<times> world" where
  "w_bernoulli pr w = (let (b, s) = sim_bernoulli pr (w_sim w) in (b, w_set_sim s w))"

definition w_shuffle :: "NodeId list \<Rightarrow> world \<Rightarrow> (NodeId list \<times> world) run" where
  "w_shuffle ids w =
     bindX (prng_shuffle ids (sm_prng (w_sim w))) (\<lambda>(v, p). Some (Inr (v, w_set_sim ((w_sim w)\<lparr>sm_prng := p\<rparr>) w)))"

definition w_send :: "NodeId \<Rightarrow> NodeId \<Rightarrow> payload \<Rightarrow> world \<Rightarrow> world run" where
  "w_send from dest p w =
     bindX (net_send Deliver (se_net (w_env w)) from dest p (w_sim w)) (\<lambda>s. Some (Inr (w_set_sim s w)))"

definition on_node_at :: "nat \<Rightarrow> (sim_env RaftNode \<Rightarrow> sim_env RaftNode outcome) \<Rightarrow> world \<Rightarrow> world run" where
  "on_node_at j f w =
     (if j < length (w_nodes w) then
        case f ((w_nodes w ! j)\<lparr>nd_env := w_env w\<rparr>) of
          Raise e n \<Rightarrow> if se_halted (nd_env n) then None else Some (Inl e)
        | Ret n \<Rightarrow> if se_halted (nd_env n) then None
                   else Some (Inr (w\<lparr>w_env := nd_env n, w_nodes := (w_nodes w)[j := n]\<rparr>))
      else Some (Inl OutOfRange))"

definition node_pos :: "NodeId \<Rightarrow> world \<Rightarrow> nat" where
  "node_pos i w = length (takeWhile (\<lambda>n. nd_id n \<noteq> i) (w_nodes w))"

definition on_node :: "NodeId \<Rightarrow> (sim_env RaftNode \<Rightarrow> sim_env RaftNode outcome) \<Rightarrow> world \<Rightarrow> world run" where
  "on_node i f w = on_node_at (node_pos i w) f w"

lemma w_sim_set [simp]: "w_sim (w_set_sim s w) = s"
  by (simp add: w_sim_def w_set_sim_def)

end
