(* ===== verification/Workload.thy ===== *)
theory Workload
  imports World
begin

text \<open>
  \<open>src/harness/workload.cpp\<close>: simulated clients that each keep one operation outstanding, retry on
  redirects and timeouts, and record every operation in the history.
\<close>

section \<open>Construction and random operations\<close>

definition wl_init :: "NodeId list \<Rightarrow> WorkloadConfig \<Rightarrow> exn + Workload" where
  "wl_init nodes cfg =
     (if nodes = [] \<and> wc_num_clients cfg > 0 then Inl OutOfRange
      else Inr \<lparr>wl_nodes = nodes, wl_cfg = cfg,
                wl_clients = replicate (wc_num_clients cfg)
                  \<lparr>cs_believed_leader = hd nodes, cs_next_request_id = 0, cs_waiting = False,
                   cs_history_handle = 0, cs_sent_at = 0, cs_timeout_id = 0\<rparr>,
                wl_ops_issued = 0, wl_ops_completed = 0, wl_pending = 0\<rparr>)"

definition wl_done :: "Workload \<Rightarrow> bool" where
  "wl_done l \<longleftrightarrow> wl_ops_issued l \<ge> wc_total_ops (wl_cfg l) \<and> wl_pending l = 0"

definition start_client :: "nat \<Rightarrow> world \<Rightarrow> world" where
  "start_client i w =
     (let client_node = kClientIdBase + of_nat i;
          w = w_set_net (net_set_handler client_node (ClientHandler i)) w
      in snd (w_schedule (wc_think_time (wl_cfg (w_load w)) * of_nat i) (IssueOp i) w))"

definition wl_start :: "world \<Rightarrow> world" where
  "wl_start w = fold start_client [0..<wc_num_clients (wl_cfg (w_load w))] w"

definition random_key :: "world \<Rightarrow> (string \<times> world) run" where
  "random_key w =
     bindX (w_range 0 (of_nat (wc_num_keys (wl_cfg (w_load w)))) w) (\<lambda>(k, w).
       Some (Inr (''k'' @ show_nat (unat k), w)))"

definition random_value :: "world \<Rightarrow> (string \<times> world) run" where
  "random_value w = bindX (w_range 0 100 w) (\<lambda>(v, w). Some (Inr (''v'' @ show_nat (unat v), w)))"

definition random_op_kind :: "world \<Rightarrow> OpKind \<times> world" where
  "random_op_kind w =
     (let cfg = wl_cfg (w_load w); (r, w) = w_unit w
      in if r < wc_put_prob cfg then (OpPut, w)
         else if r < dadd (wc_put_prob cfg) (wc_get_prob cfg) then (OpGet, w)
         else (OpCas, w))"

text \<open>The \<open>switch\<close> of \<open>issue_op\<close>: the value, the expected value and the command.\<close>

definition random_command :: "OpKind \<Rightarrow> string \<Rightarrow> world \<Rightarrow> ((string \<times> string \<times> command) \<times> world) run" where
  "random_command kind key w =
     (case kind of
        OpPut \<Rightarrow> bindX (random_value w) (\<lambda>(val, w). Some (Inr ((val, '''', CmdPut key val), w)))
      | OpGet \<Rightarrow> Some (Inr (('''', '''', CmdGet key), w))
      | OpCas \<Rightarrow> bindX (random_value w) (\<lambda>(ex, w). bindX (random_value w) (\<lambda>(val, w).
                   Some (Inr ((val, ex, CmdCas key ex val), w)))))"

section \<open>The life of an operation\<close>

definition kOpTimeout :: SimTime where "kOpTimeout = 2 * kSec"

definition upd_client :: "nat \<Rightarrow> (ClientState \<Rightarrow> ClientState) \<Rightarrow> world \<Rightarrow> world" where
  "upd_client ci f w = w\<lparr>w_load := (w_load w)\<lparr>wl_clients := (wl_clients (w_load w))[ci := f (wl_clients (w_load w) ! ci)]\<rparr>\<rparr>"

text \<open>\<open>issue_op\<close> in two parts: up to the random draws, and from the recording of the invocation.\<close>

definition begin_op :: "nat \<Rightarrow> world \<Rightarrow> world" where
  "begin_op ci w =
     (let w = w\<lparr>w_load := (w_load w)\<lparr>wl_ops_issued := wl_ops_issued (w_load w) + 1,
                                     wl_pending := wl_pending (w_load w) + 1\<rparr>\<rparr>
      in upd_client ci (\<lambda>cs. cs\<lparr>cs_waiting := True\<rparr>) w)"

definition send_op :: "nat \<Rightarrow> OpKind \<Rightarrow> string \<Rightarrow> string \<Rightarrow> string \<Rightarrow> command \<Rightarrow> world \<Rightarrow> world run" where
  "send_op ci kind key val ex cmd w =
     (let client_id = 100 + of_nat ci;
          req_id = cs_next_request_id (wl_clients (w_load w) ! ci);
          r = record_invoke client_id req_id kind key (w_now w) val ex (w_history w);
          w = w\<lparr>w_history := snd r\<rparr>;
          w = upd_client ci (\<lambda>cs. cs\<lparr>cs_next_request_id := req_id + 1, cs_history_handle := fst r,
                                     cs_sent_at := w_now w\<rparr>) w;
          cr = \<lparr>cr_client_id = client_id, cr_request_id = req_id, cr_cmd = cmd\<rparr>
      in bindX (w_send (kClientIdBase + of_nat ci) (cs_believed_leader (wl_clients (w_load w) ! ci))
                  (encode_client_request cr) w) (\<lambda>w.
           let (i, w) = w_schedule kOpTimeout (OpTimeout ci) w
           in Some (Inr (upd_client ci (\<lambda>cs. cs\<lparr>cs_timeout_id := i\<rparr>) w))))"

definition issue_op :: "nat \<Rightarrow> world \<Rightarrow> world run" where
  "issue_op ci w =
     (if wl_ops_issued (w_load w) \<ge> wc_total_ops (wl_cfg (w_load w)) then Some (Inr w)
      else if \<not> ci < length (wl_clients (w_load w)) then Some (Inl OutOfRange)
      else if cs_waiting (wl_clients (w_load w) ! ci) then Some (Inr w)
      else
        let (kind, w) = random_op_kind (begin_op ci w)
        in bindX (random_key w) (\<lambda>(key, w).
           bindX (random_command kind key w) (\<lambda>((val, ex, cmd), w). send_op ci kind key val ex cmd w)))"

text \<open>The first node that is not the believed leader, if there is one.\<close>

definition rotate_leader :: "nat \<Rightarrow> world \<Rightarrow> world" where
  "rotate_leader ci w =
     (case find (\<lambda>i. i \<noteq> cs_believed_leader (wl_clients (w_load w) ! ci)) (wl_nodes (w_load w)) of
        Some i \<Rightarrow> upd_client ci (\<lambda>cs. cs\<lparr>cs_believed_leader := i\<rparr>) w
      | None \<Rightarrow> w)"

definition w_return :: "nat \<Rightarrow> bool \<Rightarrow> string \<Rightarrow> world \<Rightarrow> world run" where
  "w_return ci ok resp w =
     (case record_return (cs_history_handle (wl_clients (w_load w) ! ci)) (w_now w) ok resp (w_history w) of
        Inl e \<Rightarrow> Some (Inl e)
      | Inr h \<Rightarrow> Some (Inr (w\<lparr>w_history := h\<rparr>)))"

definition stop_waiting :: "nat \<Rightarrow> world \<Rightarrow> world" where
  "stop_waiting ci w =
     (let w = upd_client ci (\<lambda>cs. cs\<lparr>cs_waiting := False\<rparr>) w
      in w\<lparr>w_load := (w_load w)\<lparr>wl_pending := wl_pending (w_load w) - 1\<rparr>\<rparr>)"

text \<open>\<open>++ops_completed_\<close>, and the next operation after the think time, as both handlers end.\<close>

definition count_completed :: "world \<Rightarrow> world" where
  "count_completed w = w\<lparr>w_load := (w_load w)\<lparr>wl_ops_completed := wl_ops_completed (w_load w) + 1\<rparr>\<rparr>"

definition schedule_next :: "nat \<Rightarrow> world \<Rightarrow> world" where
  "schedule_next ci w = snd (w_schedule (wc_think_time (wl_cfg (w_load w))) (IssueOp ci) w)"

definition reply_response :: "OpKind \<Rightarrow> CmdResult \<Rightarrow> string" where
  "reply_response kind r =
     (case kind of
        OpGet \<Rightarrow> res_value r
      | OpPut \<Rightarrow> if res_ok r then ''ok'' else res_error r
      | OpCas \<Rightarrow> if res_ok r then ''ok'' else ''cas_mismatch'')"

definition follow_hint :: "nat \<Rightarrow> NodeId \<Rightarrow> world \<Rightarrow> world" where
  "follow_hint ci hint w = upd_client ci (\<lambda>cs. cs\<lparr>cs_believed_leader := hint\<rparr>) w"

text \<open>The two branches of \<open>on_reply\<close>: a redirect, or the recording of the result.\<close>

definition settle_reply :: "nat \<Rightarrow> ClientReply \<Rightarrow> world \<Rightarrow> world run" where
  "settle_reply ci reply w =
     (if \<not> crep_success reply then
        bindX (w_return ci False ''not_leader'' w) (\<lambda>w.
          Some (Inr (if crep_leader_hint reply \<noteq> 0 then follow_hint ci (crep_leader_hint reply) w
                     else rotate_leader ci w)))
      else
        let handle = cs_history_handle (wl_clients (w_load w) ! ci)
        in if \<not> handle < length (w_history w) then Some (Inl OutOfRange)
           else bindX (w_return ci (res_ok (crep_result reply))
                  (reply_response (he_kind (w_history w ! handle)) (crep_result reply)) w) (\<lambda>w.
             Some (Inr (if crep_leader_hint reply \<noteq> 0 then follow_hint ci (crep_leader_hint reply) w else w))))"

definition on_reply :: "nat \<Rightarrow> payload \<Rightarrow> world \<Rightarrow> world run" where
  "on_reply ci p w =
     (if \<not> ci < length (wl_clients (w_load w)) then Some (Inl OutOfRange)
      else if \<not> cs_waiting (wl_clients (w_load w) ! ci) then Some (Inr w)
      else if p = [] then Some (Inr w)
      else if hd p \<noteq> msg_tag ClientReplyT then Some (Inr w)
      else case decode_client_reply p of
             Inl e \<Rightarrow> Some (Inl e)
           | Inr reply \<Rightarrow>
               if crep_request_id reply \<noteq> cs_next_request_id (wl_clients (w_load w) ! ci) - 1 then Some (Inr w)
               else bindX (settle_reply ci reply
                             (stop_waiting ci (w_cancel (cs_timeout_id (wl_clients (w_load w) ! ci)) w)))
                      (\<lambda>w. Some (Inr (schedule_next ci (count_completed w)))))"

definition on_timeout :: "nat \<Rightarrow> world \<Rightarrow> world run" where
  "on_timeout ci w =
     (if \<not> ci < length (wl_clients (w_load w)) then Some (Inl OutOfRange)
      else if \<not> cs_waiting (wl_clients (w_load w) ! ci) then Some (Inr w)
      else bindX (w_return ci False ''timeout'' (stop_waiting ci w)) (\<lambda>w.
             Some (Inr (schedule_next ci (rotate_leader ci (count_completed w))))))"

section \<open>Which fields the calls touch\<close>

text \<open>
  The calls on the simulator and the network leave the harness objects, the nodes and the clock alone.
\<close>

definition env_only :: "world \<Rightarrow> world \<Rightarrow> bool" where
  "env_only w w' \<longleftrightarrow> w_nodes w' = w_nodes w \<and> w_history w' = w_history w \<and> w_load w' = w_load w
     \<and> w_fault w' = w_fault w \<and> w_now w' = w_now w"

lemma env_only_refl [simp]: "env_only w w"
  by (simp add: env_only_def)

lemma env_only_trans: "env_only a b \<Longrightarrow> env_only b c \<Longrightarrow> env_only a c"
  by (simp add: env_only_def)

lemma env_only_set: "sm_clock s = w_now w \<Longrightarrow> env_only w (w_set_sim s w)" "env_only w (w_set_net f w)"
  by (simp_all add: env_only_def w_set_sim_def w_set_net_def w_now_def w_sim_def)

lemma env_only_calls:
  "env_only w (snd (w_schedule d a w))" "env_only w (w_cancel i w)" "env_only w (snd (w_unit w))"
  "env_only w (snd (w_bernoulli pr w))" "env_only w (snd (random_op_kind w))"
  by (auto simp: w_schedule_def w_cancel_def w_unit_def w_bernoulli_def random_op_kind_def Let_def split_def
      sim_schedule_def sim_bernoulli_def w_now_def intro!: env_only_set)

lemma env_only_range: "w_range lo hi w = Some (Inr (v, w')) \<Longrightarrow> env_only w w'"
  by (auto simp: w_range_def sim_random_range_def bindX_eq_ret w_now_def intro!: env_only_set)

lemma env_only_send: "w_send f dst p w = Some (Inr w') \<Longrightarrow> env_only w w'"
  by (auto simp: w_send_def bindX_eq_ret w_now_def queues_def dest!: net_send_queues intro!: env_only_set)

lemma env_only_shuffle: "w_shuffle ids w = Some (Inr (ids', w')) \<Longrightarrow> env_only w w'"
  by (auto simp: w_shuffle_def bindX_eq_ret w_now_def intro!: env_only_set)

lemma env_only_random_key: "random_key w = Some (Inr (k, w')) \<Longrightarrow> env_only w w'"
  by (auto simp: random_key_def bindX_eq_ret dest: env_only_range)

lemma env_only_random_value: "random_value w = Some (Inr (k, w')) \<Longrightarrow> env_only w w'"
  by (auto simp: random_value_def bindX_eq_ret dest: env_only_range)

lemma env_only_random_command: "random_command kind key w = Some (Inr (r, w')) \<Longrightarrow> env_only w w'"
  by (cases kind) (auto simp: random_command_def bindX_eq_ret dest!: env_only_random_value intro: env_only_trans)

section \<open>What the handlers do to the books\<close>

text \<open>
  The books are the workload's counters, its client records and the history. \<open>op_invoked\<close>
  is the effect of starting an operation, \<open>op_returned\<close> the effect of finishing one.
\<close>

definition op_invoked :: "nat \<Rightarrow> world \<Rightarrow> world \<Rightarrow> bool" where
  "op_invoked ci w w' \<longleftrightarrow>
     (let l = w_load w; h = w_history w; c = wl_clients l ! ci in
      wl_ops_issued l < wc_total_ops (wl_cfg l) \<and> ci < length (wl_clients l) \<and> \<not> cs_waiting c
      \<and> w_nodes w' = w_nodes w \<and> w_fault w' = w_fault w \<and> w_now w' = w_now w
      \<and> (\<exists>kind key val ex c'.
           w_history w' = snd (record_invoke (100 + of_nat ci) (cs_next_request_id c) kind key (w_now w) val ex h)
         \<and> w_load w' = l\<lparr>wl_ops_issued := wl_ops_issued l + 1, wl_pending := wl_pending l + 1,
                          wl_clients := (wl_clients l)[ci := c']\<rparr>
         \<and> cs_waiting c' \<and> cs_history_handle c' = length h \<and> cs_next_request_id c' = cs_next_request_id c + 1))"

definition op_returned :: "nat \<Rightarrow> world \<Rightarrow> world \<Rightarrow> bool" where
  "op_returned ci w w' \<longleftrightarrow>
     (let l = w_load w; h = w_history w; c = wl_clients l ! ci in
      ci < length (wl_clients l) \<and> cs_waiting c
      \<and> w_nodes w' = w_nodes w \<and> w_fault w' = w_fault w \<and> w_now w' = w_now w
      \<and> (\<exists>ok resp c'.
           record_return (cs_history_handle c) (w_now w) ok resp h = Inr (w_history w')
         \<and> w_load w' = l\<lparr>wl_ops_completed := wl_ops_completed l + 1, wl_pending := wl_pending l - 1,
                          wl_clients := (wl_clients l)[ci := c']\<rparr>
         \<and> \<not> cs_waiting c' \<and> cs_next_request_id c' = cs_next_request_id c))"

lemma upd_client_fields [simp]:
  "w_env (upd_client ci f w) = w_env w" "w_nodes (upd_client ci f w) = w_nodes w"
  "w_history (upd_client ci f w) = w_history w" "w_fault (upd_client ci f w) = w_fault w"
  "w_load (upd_client ci f w) =
     (w_load w)\<lparr>wl_clients := (wl_clients (w_load w))[ci := f (wl_clients (w_load w) ! ci)]\<rparr>"
  "w_now (upd_client ci f w) = w_now w"
  by (simp_all add: upd_client_def w_now_def w_sim_def)

lemma w_now_frame [simp]:
  "w_now (w\<lparr>w_load := x\<rparr>) = w_now w" "w_now (w\<lparr>w_history := y\<rparr>) = w_now w" "w_now (w\<lparr>w_fault := z\<rparr>) = w_now w"
  by (simp_all add: w_now_def w_sim_def)

lemma send_op_effect:
  assumes "send_op ci kind key val ex cmd w = Some (Inr w')" "ci < length (wl_clients (w_load w))"
  shows "w_nodes w' = w_nodes w \<and> w_fault w' = w_fault w \<and> w_now w' = w_now w
    \<and> w_history w' = snd (record_invoke (100 + of_nat ci) (cs_next_request_id (wl_clients (w_load w) ! ci)) kind key
         (w_now w) val ex (w_history w))
    \<and> (\<exists>c'. w_load w' = (w_load w)\<lparr>wl_clients := (wl_clients (w_load w))[ci := c']\<rparr>
         \<and> cs_waiting c' = cs_waiting (wl_clients (w_load w) ! ci) \<and> cs_history_handle c' = length (w_history w)
         \<and> cs_next_request_id c' = cs_next_request_id (wl_clients (w_load w) ! ci) + 1)"
proof -
  let ?c = "wl_clients (w_load w) ! ci"
  let ?r = "record_invoke (100 + of_nat ci) (cs_next_request_id ?c) kind key (w_now w) val ex (w_history w)"
  let ?w1 = "upd_client ci (\<lambda>cs. cs\<lparr>cs_next_request_id := cs_next_request_id ?c + 1, cs_history_handle := fst ?r,
      cs_sent_at := w_now (w\<lparr>w_history := snd ?r\<rparr>)\<rparr>) (w\<lparr>w_history := snd ?r\<rparr>)"
  from assms(1) obtain w2 dst p where w2: "w_send (kClientIdBase + of_nat ci) dst p ?w1 = Some (Inr w2)"
    and w': "w' = upd_client ci (\<lambda>cs. cs\<lparr>cs_timeout_id := fst (w_schedule kOpTimeout (OpTimeout ci) w2)\<rparr>)
      (snd (w_schedule kOpTimeout (OpTimeout ci) w2))"
    unfolding send_op_def Let_def by (auto simp: bindX_eq_ret split_beta)
  have e: "env_only ?w1 (snd (w_schedule kOpTimeout (OpTimeout ci) w2))"
    using env_only_send [OF w2] env_only_calls(1) by (rule env_only_trans)
  have "fst ?r = length (w_history w)" by (simp add: record_invoke_def)
  with e assms(2) show ?thesis unfolding w' env_only_def by auto
qed

lemma issue_op_effect:
  assumes "issue_op ci w = Some (Inr w')"
  shows "w' = w \<or> op_invoked ci w w'"
proof (cases "wl_ops_issued (w_load w) < wc_total_ops (wl_cfg (w_load w)) \<and> ci < length (wl_clients (w_load w))
    \<and> \<not> cs_waiting (wl_clients (w_load w) ! ci)")
  case True
  obtain kind w1 where w1: "random_op_kind (begin_op ci w) = (kind, w1)" by fastforce
  from True assms w1 obtain key w2 val ex cmd w3 where
    w2: "random_key w1 = Some (Inr (key, w2))" and w3: "random_command kind key w2 = Some (Inr ((val, ex, cmd), w3))"
    and w': "send_op ci kind key val ex cmd w3 = Some (Inr w')"
    by (auto simp: issue_op_def bindX_eq_ret)
  have "env_only (begin_op ci w) w1" using env_only_calls(5) [of "begin_op ci w"] w1 by simp
  then have e: "env_only (begin_op ci w) w3"
    using env_only_random_key [OF w2] env_only_random_command [OF w3] by (blast intro: env_only_trans)
  have len: "ci < length (wl_clients (w_load w3))" using e True by (simp add: env_only_def begin_op_def Let_def)
  show ?thesis using send_op_effect [OF w' len] e True
    by (auto simp: op_invoked_def Let_def env_only_def begin_op_def)
next
  case False
  with assms show ?thesis by (auto simp: issue_op_def split: if_splits)
qed

lemma w_return_effect:
  "w_return ci ok resp w = Some (Inr w') \<longleftrightarrow>
   (\<exists>h. record_return (cs_history_handle (wl_clients (w_load w) ! ci)) (w_now w) ok resp (w_history w) = Inr h
      \<and> w' = w\<lparr>w_history := h\<rparr>)"
  by (auto simp: w_return_def split: sum.splits)

lemma stop_waiting_fields:
  "w_nodes (stop_waiting ci w) = w_nodes w" "w_history (stop_waiting ci w) = w_history w"
  "w_fault (stop_waiting ci w) = w_fault w" "w_now (stop_waiting ci w) = w_now w"
  "w_load (stop_waiting ci w) = (w_load w)\<lparr>wl_pending := wl_pending (w_load w) - 1,
     wl_clients := (wl_clients (w_load w))[ci := (wl_clients (w_load w) ! ci)\<lparr>cs_waiting := False\<rparr>]\<rparr>"
  by (simp_all add: stop_waiting_def Let_def)

text \<open>Pointing a client at another node changes nothing that the books speak about.\<close>

definition repointed :: "nat \<Rightarrow> world \<Rightarrow> world \<Rightarrow> bool" where
  "repointed ci w w' \<longleftrightarrow> (\<exists>i. w' = upd_client ci (\<lambda>cs. cs\<lparr>cs_believed_leader := i\<rparr>) w) \<or> w' = w"

lemma repointed_calls: "repointed ci w (rotate_leader ci w)" "repointed ci w (follow_hint ci i w)" "repointed ci w w"
  by (auto simp: repointed_def rotate_leader_def follow_hint_def split: option.splits)

lemma repointed_fields:
  assumes "repointed ci w w'"
  shows "w_nodes w' = w_nodes w \<and> w_fault w' = w_fault w \<and> w_now w' = w_now w \<and> w_history w' = w_history w
    \<and> (\<exists>i. w_load w' = (w_load w)\<lparr>wl_clients := (wl_clients (w_load w))[ci := (wl_clients (w_load w) ! ci)\<lparr>cs_believed_leader := i\<rparr>]\<rparr>)"
proof -
  from assms consider i where "w' = upd_client ci (\<lambda>cs. cs\<lparr>cs_believed_leader := i\<rparr>) w" | "w' = w"
    unfolding repointed_def by blast
  then show ?thesis
  proof cases
    case 1
    then show ?thesis by auto
  next
    case 2
    then show ?thesis by (auto intro!: exI [of _ "cs_believed_leader (wl_clients (w_load w) ! ci)"])
  qed
qed

lemma finished_effect:
  assumes "env_only w0 w1" "ci < length (wl_clients (w_load w0))" "cs_waiting (wl_clients (w_load w0) ! ci)"
    and "w_return ci ok resp (stop_waiting ci w1) = Some (Inr w2)" "repointed ci w2 w3"
    and "env_only (count_completed w3) w4"
  shows "op_returned ci w0 w4"
proof -
  let ?c = "wl_clients (w_load w0) ! ci"
  from assms(4) obtain h where h: "record_return (cs_history_handle ?c) (w_now w0) ok resp (w_history w0) = Inr h"
    and w2: "w2 = (stop_waiting ci w1)\<lparr>w_history := h\<rparr>"
    using assms(1,2) by (auto simp: w_return_effect stop_waiting_fields env_only_def)
  from repointed_fields [OF assms(5)] obtain i where
    l3: "w_load w3 = (w_load w2)\<lparr>wl_clients := (wl_clients (w_load w2))[ci := (wl_clients (w_load w2) ! ci)\<lparr>cs_believed_leader := i\<rparr>]\<rparr>"
    and f3: "w_nodes w3 = w_nodes w2" "w_fault w3 = w_fault w2" "w_now w3 = w_now w2" "w_history w3 = w_history w2"
    by auto
  let ?c' = "?c\<lparr>cs_waiting := False, cs_believed_leader := i\<rparr>"
  have "w_load w3 = (w_load w0)\<lparr>wl_pending := wl_pending (w_load w0) - 1, wl_clients := (wl_clients (w_load w0))[ci := ?c']\<rparr>"
    using l3 assms(1,2) by (simp add: w2 stop_waiting_fields env_only_def)
  then show ?thesis
    unfolding op_returned_def Let_def
    by (intro conjI exI [of _ ok] exI [of _ resp] exI [of _ ?c'])
      (use assms(1,2,3,6) h f3 in \<open>simp_all add: env_only_def w2 stop_waiting_fields count_completed_def\<close>)
qed

lemma settle_reply_effect:
  assumes "settle_reply ci reply w = Some (Inr w')"
  shows "\<exists>ok resp w2. w_return ci ok resp w = Some (Inr w2) \<and> repointed ci w2 w'"
proof (cases "crep_success reply")
  case True
  with assms show ?thesis
    by (auto simp: settle_reply_def Let_def bindX_eq_ret repointed_calls split: if_splits) (blast intro: repointed_calls)+
next
  case False
  with assms show ?thesis
    by (auto simp: settle_reply_def bindX_eq_ret split: if_splits) (blast intro: repointed_calls)+
qed

lemma on_reply_effect:
  assumes "on_reply ci p w = Some (Inr w')"
  shows "w' = w \<or> op_returned ci w w'"
proof (cases "ci < length (wl_clients (w_load w)) \<and> cs_waiting (wl_clients (w_load w) ! ci)")
  case True
  let ?w1 = "w_cancel (cs_timeout_id (wl_clients (w_load w) ! ci)) w"
  have e: "env_only w ?w1" by (rule env_only_calls)
  from True assms consider "w' = w"
    | reply w3 where "settle_reply ci reply (stop_waiting ci ?w1) = Some (Inr w3)" "w' = schedule_next ci (count_completed w3)"
    by (auto simp: on_reply_def bindX_eq_ret split: if_splits sum.splits)
  then show ?thesis
  proof cases
    case 2
    from settle_reply_effect [OF 2(1)] obtain ok resp w2 where
      w2: "w_return ci ok resp (stop_waiting ci ?w1) = Some (Inr w2)" "repointed ci w2 w3" by blast
    have "op_returned ci w w'"
      using finished_effect [OF e _ _ w2] True env_only_calls(1) unfolding 2(2) schedule_next_def by blast
    then show ?thesis by simp
  qed simp
next
  case False
  with assms show ?thesis by (auto simp: on_reply_def split: if_splits)
qed

lemma upd_client_count: "upd_client ci f (count_completed w) = count_completed (upd_client ci f w)"
  by (simp add: count_completed_def upd_client_def)

lemma repointed_count:
  assumes "repointed ci (count_completed w) v"
  shows "\<exists>w'. repointed ci w w' \<and> v = count_completed w'"
proof -
  from assms consider i where "v = upd_client ci (\<lambda>cs. cs\<lparr>cs_believed_leader := i\<rparr>) (count_completed w)"
    | "v = count_completed w" unfolding repointed_def by blast
  then show ?thesis
  proof cases
    case 1
    then show ?thesis unfolding upd_client_count repointed_def by blast
  next
    case 2
    then show ?thesis using repointed_calls(3) by blast
  qed
qed

lemma on_timeout_effect:
  assumes "on_timeout ci w = Some (Inr w')"
  shows "w' = w \<or> op_returned ci w w'"
proof (cases "ci < length (wl_clients (w_load w)) \<and> cs_waiting (wl_clients (w_load w) ! ci)")
  case True
  from True assms obtain w2 where w2: "w_return ci False ''timeout'' (stop_waiting ci w) = Some (Inr w2)"
    and w': "w' = schedule_next ci (rotate_leader ci (count_completed w2))"
    by (auto simp: on_timeout_def bindX_eq_ret)
  from repointed_count [OF repointed_calls(1)] obtain w3 where
    w3: "repointed ci w2 w3" "rotate_leader ci (count_completed w2) = count_completed w3" by blast
  have "op_returned ci w w'"
    using finished_effect [OF env_only_refl _ _ w2 w3(1)] True env_only_calls(1)
    unfolding w' w3(2) schedule_next_def by blast
  then show ?thesis by simp
next
  case False
  with assms show ?thesis by (auto simp: on_timeout_def split: if_splits)
qed

section \<open>The books balance\<close>

text \<open>
  \<^item> \<open>hist_ok\<close>: no operation returns before it was invoked, and of two operations of one client the
    earlier has returned before the later was invoked.
  \<^item> \<open>clients_ok\<close>: a client waits exactly while its one pending operation is the one its handle names, and its
    operations carry the request ids 0, 1, 2, ...
  \<^item> \<open>counts_ok\<close>: the counters count what the history holds.
\<close>

definition client_no :: "nat \<Rightarrow> u64" where
  "client_no c = 100 + of_nat c"

definition hist_ok :: "SimTime \<Rightarrow> History \<Rightarrow> bool" where
  "hist_ok now h \<longleftrightarrow>
     (\<forall>e \<in> set h. he_invoke e \<le> now \<and> (\<not> he_pending e \<longrightarrow> he_invoke e \<le> he_ret e \<and> he_ret e \<le> now))
     \<and> (\<forall>j < length h. \<forall>i < j. he_client_id (h ! i) = he_client_id (h ! j) \<longrightarrow>
          \<not> he_pending (h ! i) \<and> he_ret (h ! i) \<le> he_invoke (h ! j))"

definition pend_of :: "nat \<Rightarrow> History \<Rightarrow> nat set" where
  "pend_of c h = {i. i < length h \<and> he_pending (h ! i) \<and> he_client_id (h ! i) = client_no c}"

definition req_ids :: "nat \<Rightarrow> History \<Rightarrow> u64 list" where
  "req_ids c h = map snd (filter (\<lambda>x. fst x = client_no c) (map (\<lambda>e. (he_client_id e, he_request_id e)) h))"

definition client_ok :: "nat \<Rightarrow> ClientState \<Rightarrow> History \<Rightarrow> bool" where
  "client_ok c cs h \<longleftrightarrow>
     pend_of c h = (if cs_waiting cs then {cs_history_handle cs} else {})
     \<and> req_ids c h = map of_nat [0..<length (req_ids c h)] \<and> cs_next_request_id cs = of_nat (length (req_ids c h))"

definition clients_ok :: "ClientState list \<Rightarrow> History \<Rightarrow> bool" where
  "clients_ok cl h \<longleftrightarrow> length cl < 2 ^ 64 \<and> (\<forall>c < length cl. client_ok c (cl ! c) h)
     \<and> (\<forall>e \<in> set h. \<exists>c < length cl. he_client_id e = client_no c)"

definition waiting :: "ClientState list \<Rightarrow> nat set" where
  "waiting cl = {c. c < length cl \<and> cs_waiting (cl ! c)}"

definition counts_ok :: "Workload \<Rightarrow> History \<Rightarrow> bool" where
  "counts_ok l h \<longleftrightarrow>
     wl_ops_issued l = length h \<and> length h \<le> wc_total_ops (wl_cfg l)
     \<and> wl_ops_completed l = length (filter (\<lambda>e. \<not> he_pending e) h)
     \<and> wl_pending l = of_nat (card (waiting (wl_clients l)))"

definition books_ok :: "world \<Rightarrow> bool" where
  "books_ok w \<longleftrightarrow> hist_ok (w_now w) (w_history w) \<and> clients_ok (wl_clients (w_load w)) (w_history w)
     \<and> counts_ok (w_load w) (w_history w)"

lemma finite_waiting [simp]: "finite (waiting cl)"
  by (simp add: waiting_def)

lemma client_no_inj: "c < 2 ^ 64 \<Longrightarrow> d < 2 ^ 64 \<Longrightarrow> client_no c = client_no d \<longleftrightarrow> c = d"
  by (auto simp: client_no_def dest!: arg_cong [where f = unat] simp: unat_of_nat_64)

lemma hist_ok_later: "hist_ok now h \<Longrightarrow> now \<le> now' \<Longrightarrow> hist_ok now' h"
  unfolding hist_ok_def by (meson order_trans)

text \<open>Starting an operation.\<close>

lemma hist_ok_snoc:
  assumes "hist_ok now h" "he_invoke e = now" "he_pending e"
    and "\<forall>i < length h. he_client_id (h ! i) = he_client_id e \<longrightarrow> \<not> he_pending (h ! i)"
  shows "hist_ok now (h @ [e])"
proof -
  have "he_ret (h ! i) \<le> now" if "i < length h" "\<not> he_pending (h ! i)" for i
    using assms(1) nth_mem [OF that(1)] that(2) unfolding hist_ok_def by blast
  then show ?thesis
    using assms unfolding hist_ok_def by (auto simp: nth_append less_Suc_eq)
qed

lemma pend_of_snoc:
  "he_pending e \<Longrightarrow> pend_of c (h @ [e]) = pend_of c h \<union> (if he_client_id e = client_no c then {length h} else {})"
  by (auto simp: pend_of_def nth_append less_Suc_eq)

lemma req_ids_snoc: "req_ids c (h @ [e]) = req_ids c h @ (if he_client_id e = client_no c then [he_request_id e] else [])"
  by (simp add: req_ids_def)

lemma invoked_clients_ok:
  assumes ok: "clients_ok cl h" and ci: "ci < length cl" "\<not> cs_waiting (cl ! ci)"
    and e: "he_pending e" "he_client_id e = client_no ci" "he_request_id e = cs_next_request_id (cl ! ci)"
    and c': "cs_waiting c'" "cs_history_handle c' = length h" "cs_next_request_id c' = cs_next_request_id (cl ! ci) + 1"
  shows "clients_ok (cl[ci := c']) (h @ [e])"
proof -
  have inj: "client_no ci = client_no c \<longleftrightarrow> c = ci" if "c < length cl" for c
    using client_no_inj [of ci c] ok ci(1) that by (auto simp: clients_ok_def)
  have "client_ok c (cl[ci := c'] ! c) (h @ [e])" if "c < length cl" for c
  proof -
    have "client_ok c (cl ! c) h" using ok that by (simp add: clients_ok_def)
    with that e c' ci inj [OF that] show ?thesis
      by (cases "c = ci") (simp_all add: client_ok_def pend_of_snoc req_ids_snoc)
  qed
  with ok ci e show ?thesis by (auto simp: clients_ok_def)
qed

lemma invoked_books:
  assumes "op_invoked ci w w'" "books_ok w"
  shows "books_ok w'"
proof -
  let ?cl = "wl_clients (w_load w)" and ?h = "w_history w"
  from assms(1) obtain e c' where
    guard: "wl_ops_issued (w_load w) < wc_total_ops (wl_cfg (w_load w))" "ci < length ?cl" "\<not> cs_waiting (?cl ! ci)"
    and h': "w_history w' = ?h @ [e]" and now: "w_now w' = w_now w"
    and e: "he_pending e" "he_client_id e = client_no ci" "he_request_id e = cs_next_request_id (?cl ! ci)" "he_invoke e = w_now w"
    and l': "w_load w' = (w_load w)\<lparr>wl_ops_issued := wl_ops_issued (w_load w) + 1, wl_pending := wl_pending (w_load w) + 1,
        wl_clients := ?cl[ci := c']\<rparr>"
    and c': "cs_waiting c'" "cs_history_handle c' = length ?h" "cs_next_request_id c' = cs_next_request_id (?cl ! ci) + 1"
    by (auto simp: op_invoked_def Let_def record_invoke_def client_no_def)
  have ok: "hist_ok (w_now w) ?h" "clients_ok ?cl ?h" "counts_ok (w_load w) ?h"
    using assms(2) by (simp_all add: books_ok_def)
  have "pend_of ci ?h = {}" using ok(2) guard by (auto simp: clients_ok_def client_ok_def)
  then have "hist_ok (w_now w) (?h @ [e])"
    using ok(1) e by (intro hist_ok_snoc) (auto simp: pend_of_def)
  moreover have "clients_ok (?cl[ci := c']) (?h @ [e])"
    using ok(2) guard(2,3) e(1-3) c' by (rule invoked_clients_ok)
  moreover have "waiting (?cl[ci := c']) = insert ci (waiting ?cl)" "ci \<notin> waiting ?cl"
    using guard c'(1) by (auto simp: waiting_def nth_list_update)
  then have "counts_ok (w_load w') (?h @ [e])"
    using ok(3) guard e(1) by (simp add: counts_ok_def l')
  ultimately show ?thesis by (simp add: books_ok_def h' now l')
qed

text \<open>Finishing one.\<close>

lemma hist_ok_update:
  assumes "hist_ok now h" "k < length h" "he_pending (h ! k)"
    and e: "he_invoke e = he_invoke (h ! k)" "he_ret e = now" "he_client_id e = he_client_id (h ! k)" "\<not> he_pending e"
  shows "hist_ok now (h[k := e])"
proof -
  have inv: "he_invoke (h ! k) \<le> now" using assms(1) nth_mem [OF assms(2)] by (simp add: hist_ok_def)
  have last: "\<not> (k < j \<and> j < length h \<and> he_client_id (h ! k) = he_client_id (h ! j))" for j
    using assms(1,3) unfolding hist_ok_def by blast
  have "\<forall>x \<in> set (h[k := e]). he_invoke x \<le> now \<and> (\<not> he_pending x \<longrightarrow> he_invoke x \<le> he_ret x \<and> he_ret x \<le> now)"
    using assms(1) e inv set_update_subset_insert [of h k e] unfolding hist_ok_def by auto
  moreover have "\<not> he_pending (h[k := e] ! i) \<and> he_ret (h[k := e] ! i) \<le> he_invoke (h[k := e] ! j)"
    if "j < length h" "i < j" "he_client_id (h[k := e] ! i) = he_client_id (h[k := e] ! j)" for i j
    using that assms(1,2) e last [of j] unfolding hist_ok_def
    by (cases "i = k"; cases "j = k") (auto simp: nth_list_update)
  ultimately show ?thesis unfolding hist_ok_def by simp
qed

lemma pend_of_update:
  "k < length h \<Longrightarrow> \<not> he_pending e \<Longrightarrow> pend_of c (h[k := e]) = pend_of c h - {k}"
  by (auto simp: pend_of_def nth_list_update split: if_splits)

lemma req_ids_update:
  assumes "k < length h" "he_client_id e = he_client_id (h ! k)" "he_request_id e = he_request_id (h ! k)"
  shows "req_ids c (h[k := e]) = req_ids c h"
proof -
  have "map (\<lambda>e. (he_client_id e, he_request_id e)) (h[k := e]) = map (\<lambda>e. (he_client_id e, he_request_id e)) h"
    using assms by (simp add: map_update list_update_same_conv)
  then show ?thesis by (simp add: req_ids_def)
qed

lemma returned_clients_ok:
  assumes ok: "clients_ok cl h" and ci: "ci < length cl" "cs_waiting (cl ! ci)" and k: "k = cs_history_handle (cl ! ci)"
    and e: "he_client_id e = he_client_id (h ! k)" "he_request_id e = he_request_id (h ! k)" "\<not> he_pending e"
    and c': "\<not> cs_waiting c'" "cs_next_request_id c' = cs_next_request_id (cl ! ci)"
  shows "clients_ok (cl[ci := c']) (h[k := e])"
proof -
  have "k \<in> pend_of ci h" using ok ci by (simp add: clients_ok_def client_ok_def k)
  then have kh: "k < length h" "he_client_id (h ! k) = client_no ci" by (auto simp: pend_of_def)
  have "client_ok c (cl[ci := c'] ! c) (h[k := e])" if "c < length cl" for c
  proof -
    have c: "client_ok c (cl ! c) h" using ok that by (simp add: clients_ok_def)
    have "k \<notin> pend_of c h" if "c \<noteq> ci"
      using client_no_inj [of ci c] ok ci(1) \<open>c < length cl\<close> that kh by (auto simp: clients_ok_def pend_of_def)
    with c c' ci that show ?thesis
      by (cases "c = ci") (simp_all add: client_ok_def pend_of_update [OF kh(1) e(3)] req_ids_update [OF kh(1) e(1,2)] k [symmetric])
  qed
  moreover have "\<forall>x \<in> set (h[k := e]). \<exists>c < length cl. he_client_id x = client_no c"
    using ok kh e(1) ci(1) set_update_subset_insert [of h k e] by (auto simp: clients_ok_def)
  ultimately show ?thesis using ok by (simp add: clients_ok_def)
qed

lemma completed_update:
  assumes "k < length h" "P e" "\<not> P (h ! k)"
  shows "length (filter P (h[k := e])) = length (filter P h) + 1"
proof -
  have "mset (h[k := e]) = add_mset e (mset h - {#h ! k#})" using assms(1) by (rule mset_update)
  then have "filter_mset P (mset (h[k := e])) = add_mset e (filter_mset P (mset h))"
    using assms(2,3) by simp
  then show ?thesis by (metis Suc_eq_plus1 mset_filter size_add_mset size_mset)
qed

lemma returned_books:
  assumes "op_returned ci w w'" "books_ok w"
  shows "books_ok w'"
proof -
  let ?cl = "wl_clients (w_load w)" and ?h = "w_history w"
  let ?k = "cs_history_handle (?cl ! ci)"
  from assms(1) obtain ok resp c' where
    guard: "ci < length ?cl" "cs_waiting (?cl ! ci)" and now: "w_now w' = w_now w"
    and r: "record_return ?k (w_now w) ok resp ?h = Inr (w_history w')"
    and l': "w_load w' = (w_load w)\<lparr>wl_ops_completed := wl_ops_completed (w_load w) + 1, wl_pending := wl_pending (w_load w) - 1,
        wl_clients := ?cl[ci := c']\<rparr>"
    and c': "\<not> cs_waiting c'" "cs_next_request_id c' = cs_next_request_id (?cl ! ci)"
    by (auto simp: op_returned_def Let_def)
  define e where "e = (?h ! ?k)\<lparr>he_ret := w_now w, he_ok := ok, he_response := resp, he_pending := False\<rparr>"
  have h': "w_history w' = ?h[?k := e]" using r by (auto simp: record_return_def e_def split: if_splits)
  have ok: "hist_ok (w_now w) ?h" "clients_ok ?cl ?h" "counts_ok (w_load w) ?h"
    using assms(2) by (simp_all add: books_ok_def)
  have "?k \<in> pend_of ci ?h" using ok(2) guard by (simp add: clients_ok_def client_ok_def)
  then have k: "?k < length ?h" "he_pending (?h ! ?k)" by (auto simp: pend_of_def)
  have "hist_ok (w_now w) (?h[?k := e])" using ok(1) k by (rule hist_ok_update) (simp_all add: e_def)
  moreover have "clients_ok (?cl[ci := c']) (?h[?k := e])"
    using ok(2) guard refl by (rule returned_clients_ok) (simp_all add: e_def c')
  moreover have "length (filter (\<lambda>x. \<not> he_pending x) (?h[?k := e])) = length (filter (\<lambda>x. \<not> he_pending x) ?h) + 1"
    using k by (intro completed_update) (simp_all add: e_def)
  moreover have "waiting (?cl[ci := c']) = waiting ?cl - {ci}" "ci \<in> waiting ?cl"
    using guard c'(1) by (auto simp: waiting_def nth_list_update split: if_splits)
  then have "card (waiting ?cl) = card (waiting (?cl[ci := c'])) + 1"
    using card_Suc_Diff1 [of "waiting ?cl" ci] by simp
  ultimately show ?thesis
    using ok(3) by (simp add: books_ok_def counts_ok_def h' now l')
qed

lemma books_env_only: "env_only w w' \<Longrightarrow> books_ok w' = books_ok w"
  by (simp add: env_only_def books_ok_def)

end
