(* ===== verification/Fault_Injector.thy ===== *)
theory Fault_Injector
  imports World
begin

text \<open>
  \<open>src/harness/fault_injector.cpp\<close>: at regular intervals a random fault, drawn from the simulator's
  generator: a partition into two groups that is healed later, a spike of loss or duplication that is
  taken back later, or the crash of a node that is restarted later.
\<close>

definition fi_init :: "FaultConfig \<Rightarrow> FaultInjector" where
  "fi_init cfg = \<lparr>fi_cfg = cfg, fi_running = False, fi_tick_id = 0\<rparr>"

definition schedule_tick :: "world \<Rightarrow> world" where
  "schedule_tick w =
     (let (i, w) = w_schedule (fc_check_interval (fi_cfg (w_fault w))) FaultTick w
      in w\<lparr>w_fault := (w_fault w)\<lparr>fi_tick_id := i\<rparr>\<rparr>)"

definition fi_start :: "world \<Rightarrow> world" where
  "fi_start w = schedule_tick (w\<lparr>w_fault := (w_fault w)\<lparr>fi_running := True\<rparr>\<rparr>)"

definition fi_stop :: "world \<Rightarrow> world" where
  "fi_stop w =
     (let w = w\<lparr>w_fault := (w_fault w)\<lparr>fi_running := False\<rparr>\<rparr> in w_cancel (fi_tick_id (w_fault w)) w)"

definition inject_partition :: "world \<Rightarrow> world run" where
  "inject_partition w =
     (if length (w_nodes w) < 2 then Some (Inr w)
      else bindX (w_shuffle (map nd_id (w_nodes w)) w) (\<lambda>(ids, w).
           bindX (w_range 1 (of_nat (length ids)) w) (\<lambda>(split, w).
             let g0 = take (unat split) ids; g1 = drop (unat split) ids;
                 w = w_set_net (net_partition [g0, g1]) w;
                 d = fc_partition_duration (fi_cfg (w_fault w))
             in bindX (w_range (d div 2) (d * 2) w) (\<lambda>(dur, w).
                  Some (Inr (snd (w_schedule dur HealNetwork w)))))))"

definition inject_crash_restart :: "world \<Rightarrow> world run" where
  "inject_crash_restart w =
     (if w_nodes w = [] then Some (Inr w)
      else bindX (w_range 0 (of_nat (length (w_nodes w))) w) (\<lambda>(idx, w).
             if \<not> unat idx < length (w_nodes w) then Some (Inl OutOfRange)
             else if \<not> nd_running (w_nodes w ! unat idx) then Some (Inr w)
             else bindX (on_node_at (unat idx) (nd_crash sim_iface) w) (\<lambda>w.
                  bindX (w_range (fc_crash_min_down (fi_cfg (w_fault w))) (fc_crash_max_down (fi_cfg (w_fault w))) w)
                    (\<lambda>(down_time, w). Some (Inr (snd (w_schedule down_time (RestartNode (unat idx)) w)))))))"

definition inject_drop_spike :: "world \<Rightarrow> world run" where
  "inject_drop_spike w =
     (let old_drop = nc_drop_prob (nw_cfg (se_net (w_env w)));
          w = w_set_net (set_drop_prob (min (dadd old_drop (dbl (3 / 10))) (dbl (6 / 10)))) w
      in bindX (w_range (100 * kMsec) (400 * kMsec) w) (\<lambda>(dur, w).
           Some (Inr (snd (w_schedule dur (RestoreDrop old_drop) w)))))"

definition inject_dup_spike :: "world \<Rightarrow> world run" where
  "inject_dup_spike w =
     (let old_dup = nc_dup_prob (nw_cfg (se_net (w_env w)));
          w = w_set_net (set_dup_prob (min (dadd old_dup (dbl (2 / 10))) (dbl (4 / 10)))) w
      in bindX (w_range (100 * kMsec) (400 * kMsec) w) (\<lambda>(dur, w).
           Some (Inr (snd (w_schedule dur (RestoreDup old_dup) w)))))"

definition inject_fault :: "rat \<Rightarrow> world \<Rightarrow> world run" where
  "inject_fault r w =
     (let cfg = fi_cfg (w_fault w); p1 = fc_partition_prob cfg; p2 = dadd p1 (fc_drop_raise_prob cfg);
          p3 = dadd p2 (fc_dup_raise_prob cfg)
      in if r < p1 then inject_partition w
         else if r < p2 then inject_drop_spike w
         else if r < p3 then inject_dup_spike w
         else inject_crash_restart w)"

definition tick :: "world \<Rightarrow> world run" where
  "tick w =
     (if \<not> fi_running (w_fault w) then Some (Inr w)
      else
        let (b, w) = w_bernoulli (fc_fault_rate (fi_cfg (w_fault w))) w
        in bindX (if b then (let (r, w) = w_unit w in inject_fault r w) else Some (Inr w))
             (\<lambda>w. Some (Inr (schedule_tick w))))"

end
