(* ===== verification/Runner.thy ===== *)
theory Runner
  imports Workload Fault_Injector
begin

text \<open>
  \<open>src/harness/runner.cpp\<close>: one deterministic test run, and the meaning of the events its parts
  schedule.

  \<^item> \<open>exec\<close> runs the closure of an event: it dispatches to the node, the client or the fault injector
    whose \<open>this\<close> the closure captured.
  \<^item> \<open>run_once\<close> builds the objects, starts the nodes, lets them elect a leader for a second, starts the
    clients and the fault injector, and runs in slices of 100 ms until the workload is done or 120 s have
    passed. It is a \<open>run\<close>: \<open>None\<close> when an event loop does not return, an exception when an event throws.
\<close>

section \<open>Events\<close>

fun timer_node :: "timer \<Rightarrow> NodeId" where
  "timer_node (ElectionTimer i g) = i"
| "timer_node (HeartbeatTimer i) = i"
| "timer_node (ReadTimer i r) = i"

fun exec :: "action \<Rightarrow> world \<Rightarrow> world run" where
  "exec (Deliver (NodeHandler i) from dest p) w = on_node i (on_message sim_iface from p) w"
| "exec (Deliver (ClientHandler ci) from dest p) w = on_reply ci p w"
| "exec (NodeTimer tm) w = on_node (timer_node tm) (fire_timer sim_iface tm) w"
| "exec (IssueOp ci) w = issue_op ci w"
| "exec (OpTimeout ci) w = on_timeout ci w"
| "exec FaultTick w = tick w"
| "exec HealNetwork w = Some (Inr (w_set_net net_heal w))"
| "exec (RestartNode idx) w = on_node_at idx (nd_restart sim_iface) w"
| "exec (RestoreDrop d) w = Some (Inr (w_set_net (set_drop_prob d) w))"
| "exec (RestoreDup d) w = Some (Inr (w_set_net (set_dup_prob d) w))"

interpretation tw: sim_world w_sim w_set_sim exec
  by unfold_locales simp

section \<open>A run\<close>

record RunConfig =
  rc_seed :: u64
  rc_num_nodes :: nat
  rc_total_ops :: nat
  rc_fault_rate :: rat
  rc_dump_trace :: bool
  rc_inject_commit_bug :: bool
  rc_inject_vote_bug :: bool
  rc_net_cfg :: NetworkConfig
  rc_workload_cfg :: WorkloadConfig
  rc_fault_cfg :: FaultConfig

definition default_run_config :: RunConfig where
  "default_run_config =
     \<lparr>rc_seed = 42, rc_num_nodes = 3, rc_total_ops = 200, rc_fault_rate = dbl (5 / 100), rc_dump_trace = False,
      rc_inject_commit_bug = False, rc_inject_vote_bug = False, rc_net_cfg = default_network_config,
      rc_workload_cfg = default_workload_config, rc_fault_cfg = default_fault_config\<rparr>"

record RunResult =
  rr_seed :: u64
  rr_trace_hash :: u64
  rr_history :: History
  rr_ops_completed :: nat
  rr_linearizable :: bool
  rr_failure_seed_msg :: string

definition all_ids :: "RunConfig \<Rightarrow> NodeId list" where
  "all_ids cfg = map (\<lambda>i. of_nat (i + 1)) [0..<rc_num_nodes cfg]"

definition node_config :: "RunConfig \<Rightarrow> RaftConfig" where
  "node_config cfg = default_config\<lparr>cfg_bug_commit_prior_term := rc_inject_commit_bug cfg,
                                    cfg_bug_skip_vote_uptodate := rc_inject_vote_bug cfg\<rparr>"

definition build_nodes :: "RunConfig \<Rightarrow> sim_env \<Rightarrow> sim_env RaftNode list" where
  "build_nodes cfg e =
     map (\<lambda>i. raft_node_init i (filter (\<lambda>p. p \<noteq> i) (all_ids cfg)) (node_config cfg) e) (all_ids cfg)"

text \<open>
  The objects before the workload is constructed. Its constructor only reads the nodes, so the
  workload and the fault injector are in the world from the start.
\<close>

definition initial_world :: "RunConfig \<Rightarrow> Workload \<Rightarrow> world" where
  "initial_world cfg load =
     (let e = sim_env_init (rc_seed cfg) (rc_net_cfg cfg)
      in \<lparr>w_env = e, w_nodes = build_nodes cfg e, w_history = [], w_load = load,
          w_fault = fi_init ((rc_fault_cfg cfg)\<lparr>fc_fault_rate := rc_fault_rate cfg\<rparr>)\<rparr>)"

fun start_nodes :: "nat list \<Rightarrow> world \<Rightarrow> world run" where
  "start_nodes [] w = Some (Inr w)"
| "start_nodes (j # js) w = bindX (on_node_at j (nd_start sim_iface) w) (start_nodes js)"

definition kMaxRunTime :: SimTime where "kMaxRunTime = 120 * kSec"

abbreviation w_run_for :: "SimTime \<Rightarrow> world \<Rightarrow> world run" where
  "w_run_for \<equiv> run_for w_sim w_set_sim exec"

partial_function (option) run_slices :: "SimTime \<Rightarrow> world \<Rightarrow> world run" where
  "run_slices deadline w =
     (if \<not> wl_done (w_load w) \<and> w_now w < deadline then
        case w_run_for (100 * kMsec) w of
          None \<Rightarrow> None
        | Some (Inl e) \<Rightarrow> Some (Inl e)
        | Some (Inr w) \<Rightarrow> run_slices deadline w
      else Some (Inr w))"

definition run_world :: "RunConfig \<Rightarrow> world run" where
  "run_world cfg =
     (case wl_init (all_ids cfg) ((rc_workload_cfg cfg)\<lparr>wc_total_ops := rc_total_ops cfg\<rparr>) of
        Inl e \<Rightarrow> Some (Inl e)
      | Inr load \<Rightarrow>
          bindX (start_nodes [0..<rc_num_nodes cfg] (initial_world cfg load)) (\<lambda>w.
          bindX (w_run_for (1 * kSec) w) (\<lambda>w.
            let w = fi_start (wl_start w);
                deadline = w_now w + kMaxRunTime
            in bindX (run_slices deadline w) (\<lambda>w. Some (Inr (fi_stop w))))))"

definition run_once :: "RunConfig \<Rightarrow> RunResult run" where
  "run_once cfg =
     bindX (run_world cfg) (\<lambda>w.
       Some (Inr \<lparr>rr_seed = rc_seed cfg, rr_trace_hash = sm_trace_hash (w_sim w), rr_history = w_history w,
                  rr_ops_completed = wl_ops_completed (w_load w), rr_linearizable = True,
                  rr_failure_seed_msg = ''''\<rparr>))"

end
