(* ===== verification/Env_Frame.thy ===== *)
theory Env_Frame
  imports Raft_Handlers
begin

text \<open>
  What a node may do to its environment. A node touches the clock and the network only through the
  interface record, with its own id, its own timers and the delays of its configuration. So a property
  of the environment that those calls keep is kept by every method, handler and timer of the node,
  whether it returns or throws. The locale \<open>env_frame\<close> is that contract; its lemmas go through the
  methods once, for all such properties.
\<close>

locale env_frame =
  fixes I :: "'e iface" and i :: NodeId and c :: RaftConfig and P :: "'e \<Rightarrow> bool"
  assumes P_send: "P e \<Longrightarrow> P (if_send I i dest p e)"
    and P_state_change: "P e \<Longrightarrow> P (if_state_change I i r t e)"
    and P_election: "P e \<Longrightarrow>
      P (snd (if_schedule I
           (fst (if_random_range I (cfg_election_timeout_lo c) (2 * cfg_election_timeout_lo c + 1) e)) (ElectionTimer i g)
           (snd (if_random_range I (cfg_election_timeout_lo c) (2 * cfg_election_timeout_lo c + 1) e))))"
    and P_heartbeat: "P e \<Longrightarrow> P (snd (if_schedule I (cfg_heartbeat_interval c) (HeartbeatTimer i) e))"
    and P_read_timer: "P e \<Longrightarrow> P (snd (if_schedule I (cfg_read_timeout c) (ReadTimer i rnd) e))"
    and P_cancel: "P e \<Longrightarrow> P (if_cancel I ev e)"
    and P_set_handler: "P e \<Longrightarrow> P (if_set_handler I i e)"
    and P_remove_handler: "P e \<Longrightarrow> P (if_remove_handler I i e)"
    and P_client_cb: "P e \<Longrightarrow> P (if_client_cb I k res e)"
    and P_read_cb: "P e \<Longrightarrow> P (if_read_cb I k b v e)"
begin

definition holds :: "'e RaftNode \<Rightarrow> bool" where
  "holds n \<longleftrightarrow> nd_id n = i \<and> nd_cfg n = c \<and> P (nd_env n)"

lemma holds_updates [simp]:
  "holds (m\<lparr>nd_peers := x1\<rparr>) = holds m" "holds (m\<lparr>nd_running := x11\<rparr>) = holds m"
  "holds (m\<lparr>nd_current_term := x4\<rparr>) = holds m" "holds (m\<lparr>nd_voted_for := x6\<rparr>) = holds m"
  "holds (m\<lparr>nd_log := x2\<rparr>) = holds m" "holds (m\<lparr>nd_meta_store := x3\<rparr>) = holds m"
  "holds (m\<lparr>nd_log_store := x3\<rparr>) = holds m" "holds (m\<lparr>nd_snapshot_store := x3\<rparr>) = holds m"
  "holds (m\<lparr>nd_snap_last_index := x4\<rparr>) = holds m" "holds (m\<lparr>nd_snap_last_term := x4\<rparr>) = holds m"
  "holds (m\<lparr>nd_snap_data := x5\<rparr>) = holds m" "holds (m\<lparr>nd_role := x13\<rparr>) = holds m"
  "holds (m\<lparr>nd_commit_index := x4\<rparr>) = holds m" "holds (m\<lparr>nd_last_applied := x4\<rparr>) = holds m"
  "holds (m\<lparr>nd_leader_id := x6\<rparr>) = holds m" "holds (m\<lparr>nd_kv := x7\<rparr>) = holds m"
  "holds (m\<lparr>nd_votes_received := x14\<rparr>) = holds m"
  "holds (m\<lparr>nd_next_index := x8\<rparr>) = holds m" "holds (m\<lparr>nd_match_index := x8\<rparr>) = holds m"
  "holds (m\<lparr>nd_pending_clients := x9\<rparr>) = holds m" "holds (m\<lparr>nd_pending_reads := x10\<rparr>) = holds m"
  "holds (m\<lparr>nd_next_read_round := x4\<rparr>) = holds m" "holds (m\<lparr>nd_election_timeout_id := x4\<rparr>) = holds m"
  "holds (m\<lparr>nd_election_scheduled := x11\<rparr>) = holds m" "holds (m\<lparr>nd_election_generation := x4\<rparr>) = holds m"
  "holds (m\<lparr>nd_heartbeat_id := x4\<rparr>) = holds m" "holds (m\<lparr>nd_heartbeat_scheduled := x11\<rparr>) = holds m"
  "holds (m\<lparr>nd_election_term := x4\<rparr>) = holds m" "holds (m\<lparr>nd_vote_count := x12\<rparr>) = holds m"
  "holds (m\<lparr>nd_config_change_pending := x11\<rparr>) = holds m"
  by (simp_all add: holds_def)

lemma holds_env: "holds m \<Longrightarrow> P e \<Longrightarrow> holds (m\<lparr>nd_env := e\<rparr>)"
  by (simp add: holds_def)

lemma holds_do: "holds m \<Longrightarrow> (\<And>e. P e \<Longrightarrow> P (f e)) \<Longrightarrow> holds (env_do f m)"
  by (simp add: env_do_def holds_def)

lemma holds_send: "holds m \<Longrightarrow> holds (nd_send I dest p m)"
  by (simp add: nd_send_def holds_def env_do_def P_send)

lemma holds_state_change: "holds m \<Longrightarrow> nd_id m = j \<Longrightarrow> holds (env_do (if_state_change I j r t) m)"
  by (simp add: holds_def env_do_def P_state_change)

lemma holds_persist [simp]: "holds (persist m) = holds m"
  by (simp add: persist_def)

lemma holds_save_snapshot [simp]: "holds (save_snapshot m) = holds m"
  by (simp add: save_snapshot_def)

lemma holds_schedule_election: "holds m \<Longrightarrow> holds (schedule_election_timeout I m)"
  by (auto simp: schedule_election_timeout_def Let_def holds_def P_election)

lemma holds_cancel_election: "holds m \<Longrightarrow> holds (cancel_election_timeout I m)"
  by (simp add: cancel_election_timeout_def holds_do P_cancel)

lemma holds_schedule_heartbeat: "holds m \<Longrightarrow> holds (schedule_heartbeat I m)"
  by (auto simp: schedule_heartbeat_def Let_def holds_def P_heartbeat)

lemma holds_cancel_heartbeat: "holds m \<Longrightarrow> holds (cancel_heartbeat I m)"
  by (simp add: cancel_heartbeat_def holds_do P_cancel)

lemma P_fold: "P e \<Longrightarrow> (\<And>x e. P e \<Longrightarrow> P (f x e)) \<Longrightarrow> P (fold f xs e)"
  by (induction xs arbitrary: e) simp_all

lemma holds_fold: "holds m \<Longrightarrow> (\<And>x m. holds m \<Longrightarrow> holds (f x m)) \<Longrightarrow> holds (fold f xs m)"
  by (induction xs arbitrary: m) simp_all

lemma holds_cancel_reads: "holds m \<Longrightarrow> holds (cancel_pending_reads I m)"
  by (simp add: cancel_pending_reads_def holds_do P_fold P_cancel P_read_cb)

lemma holds_drain_reads: "holds m \<Longrightarrow> holds (drain_pending_reads I m)"
  by (simp add: drain_pending_reads_def holds_do P_fold P_cancel P_read_cb)

lemma holds_become_follower: "holds m \<Longrightarrow> holds (become_follower I t l m)"
  unfolding become_follower_def Let_def
  by (intro holds_schedule_election holds_cancel_election)
    (auto intro!: holds_state_change holds_cancel_heartbeat holds_cancel_reads)

lemma holds_install_snapshot_send: "holds m \<Longrightarrow> holds (send_install_snapshot I p m)"
  by (simp add: send_install_snapshot_def holds_send)

lemma holds_replicate_to: "holds m \<Longrightarrow> ends holds (replicate_to I p m)"
  unfolding replicate_to_def Let_def
  by (intro ends_intros) (simp_all add: holds_install_snapshot_send holds_send)

lemma holds_replicate_all: "holds m \<Longrightarrow> ends holds (replicate_all I m)"
  unfolding replicate_all_def by (intro ends_foldO holds_replicate_to)

lemma holds_become_leader: "holds m \<Longrightarrow> ends holds (become_leader I m)"
  unfolding become_leader_def Let_def
  by (intro ends_if holds_replicate_all holds_schedule_heartbeat holds_state_change)
    (simp_all add: holds_cancel_election)

lemma holds_become_candidate: "holds m \<Longrightarrow> ends holds (become_candidate I m)"
  unfolding become_candidate_def Let_def
  by (intro ends_if holds_become_leader)
    (simp_all add: holds_schedule_election holds_cancel_election holds_fold holds_send holds_state_change)

lemma holds_on_election_timeout: "holds m \<Longrightarrow> ends holds (on_election_timeout I m)"
  by (simp add: on_election_timeout_def holds_become_candidate)

lemma holds_on_heartbeat: "holds m \<Longrightarrow> ends holds (on_heartbeat I m)"
  unfolding on_heartbeat_def
  by (intro ends_intros holds_replicate_all) (simp_all add: holds_schedule_heartbeat)

lemma holds_membership: "holds m \<Longrightarrow> ends holds (apply_membership_change I cmd m)"
  by (cases cmd) (auto simp: apply_membership_change_def Let_def intro!: holds_replicate_to holds_become_follower)

lemma holds_reply: "holds m \<Longrightarrow> holds (reply_to_client I cb r m)"
  by (simp add: reply_to_client_def holds_send holds_do P_client_cb split: client_cb.splits)

lemma holds_resolve: "holds m \<Longrightarrow> holds (resolve_client I r m)"
  by (auto simp: resolve_client_def Let_def holds_reply split: option.splits)

lemma holds_apply_entry: "holds m \<Longrightarrow> ends holds (apply_entry I e m)"
  unfolding apply_entry_def Let_def
  by (intro ends_intros holds_membership) (simp_all add: holds_resolve)

lemma holds_apply_one: "holds m \<Longrightarrow> ends holds (apply_one I m)"
  unfolding apply_one_def Let_def by (intro ends_intros holds_apply_entry) simp_all

lemma holds_take_snapshot: "holds m \<Longrightarrow> ends holds (take_snapshot m)"
  unfolding take_snapshot_def Let_def by (intro ends_intros) simp_all

lemma holds_apply_committed: "holds m \<Longrightarrow> ends holds (apply_committed_entries I m)"
  unfolding apply_committed_entries_def Let_def
  by (intro ends_intros apply_loop_ends holds_apply_one holds_take_snapshot) (simp_all add: holds_drain_reads)

lemma holds_maybe_advance: "holds m \<Longrightarrow> ends holds (maybe_advance_commit_index I m)"
  unfolding maybe_advance_commit_index_def by (intro advance_from_ends holds_apply_committed) simp_all

lemma holds_submit: "holds m \<Longrightarrow> ends holds (snd (submit I cl r cmd cb m))"
  unfolding submit_def Let_def by (auto intro!: ends_intros holds_replicate_all holds_maybe_advance)

lemma holds_read_index: "holds m \<Longrightarrow> holds (snd (read_index I k cb m))"
  by (auto simp: read_index_def Let_def holds_do P_read_cb intro!: holds_fold holds_send)
    (auto simp: holds_def P_read_timer)

section \<open>Handlers and timers\<close>

lemma holds_request_vote: "holds m \<Longrightarrow> holds (handle_request_vote I from rv m)"
  by (simp add: handle_request_vote_def Let_def holds_send holds_schedule_election holds_cancel_election
      holds_become_follower)

lemma holds_request_vote_reply: "holds m \<Longrightarrow> ends holds (handle_request_vote_reply I from rvr m)"
  unfolding handle_request_vote_reply_def Let_def
  by (intro ends_if holds_become_leader) (simp_all add: holds_become_follower)

lemma holds_append_step: "holds m \<Longrightarrow> ends holds (append_entry_step e m)"
  unfolding append_entry_step_def Let_def by (intro ends_intros) simp_all

lemma holds_append_entries: "holds m \<Longrightarrow> ends holds (handle_append_entries I from ae m)"
  unfolding handle_append_entries_def Let_def
  by (intro ends_intros holds_append_step holds_apply_committed)
    (auto intro: holds_send holds_become_follower)

lemma holds_append_entries_reply: "holds m \<Longrightarrow> ends holds (handle_append_entries_reply I from aer m)"
  unfolding handle_append_entries_reply_def Let_def
  by (intro ends_if) (simp_all add: holds_become_follower holds_maybe_advance holds_replicate_to)

lemma holds_install_snapshot: "holds m \<Longrightarrow> ends holds (handle_install_snapshot I from s m)"
  unfolding handle_install_snapshot_def Let_def
  by (intro ends_intros) (simp_all add: holds_send holds_become_follower)

lemma holds_install_snapshot_reply: "holds m \<Longrightarrow> ends holds (handle_install_snapshot_reply I from isr m)"
  unfolding handle_install_snapshot_reply_def Let_def
  by (intro ends_if) (simp_all add: holds_become_follower holds_maybe_advance)

lemma holds_read_index_request: "holds m \<Longrightarrow> holds (handle_read_index_request I from req m)"
  by (simp add: handle_read_index_request_def Let_def holds_send holds_become_follower)

lemma holds_read_index_reply: "holds m \<Longrightarrow> holds (handle_read_index_reply I from rep m)"
  by (simp add: handle_read_index_reply_def holds_drain_reads holds_become_follower)

lemma holds_client_request: "holds m \<Longrightarrow> ends holds (handle_client_request I from cr m)"
  by (simp add: handle_client_request_def holds_send holds_submit)

lemma holds_dispatch: "holds m \<Longrightarrow> ends holds (dispatch I from p m)"
  unfolding dispatch_def Let_def
  by (intro ends_if ends_liftO holds_append_entries holds_append_entries_reply holds_client_request
      holds_install_snapshot holds_install_snapshot_reply holds_request_vote_reply)
    (simp_all add: holds_read_index_request holds_read_index_reply holds_request_vote)

lemma holds_on_message: "holds m \<Longrightarrow> ends holds (on_message I from p m)"
  by (simp add: on_message_def holds_dispatch)

lemma holds_fire_timer: "holds m \<Longrightarrow> ends holds (fire_timer I tm m)"
  by (cases tm) (simp_all add: Let_def holds_on_election_timeout holds_on_heartbeat read_timeout_def
      holds_do P_read_cb split: option.splits)

lemma holds_start: "holds m \<Longrightarrow> ends holds (nd_start I m)"
  unfolding nd_start_def Let_def load_snapshot_def load_meta_def load_log_def
  by (intro ends_intros holds_apply_committed)
    (auto simp: env_do_def holds_def P_set_handler holds_schedule_election [unfolded holds_def] split: prod.splits
      intro!: ends_intros)

lemma holds_restart: "holds m \<Longrightarrow> ends holds (nd_restart I m)"
  by (simp add: nd_restart_def holds_start)

lemma holds_remove_handler: "holds m \<Longrightarrow> nd_id m = j \<Longrightarrow> holds (env_do (if_remove_handler I j) m)"
  by (simp add: holds_def env_do_def P_remove_handler)

lemma holds_crash_replies:
  "holds m \<Longrightarrow> holds (fold (\<lambda>(idx, cb, cl). reply_to_client I cb r) (pcs :: (Index \<times> client_cb \<times> NodeId) list) m)"
  by (rule holds_fold) (auto simp: holds_reply)

lemma holds_crash: "holds m \<Longrightarrow> ends holds (nd_crash I m)"
  unfolding nd_crash_def Let_def
  by (intro ends_intros)
    (simp_all add: holds_do P_fold P_cancel holds_remove_handler holds_crash_replies)

end

end
