(* ===== verification/Harness.thy ===== *)
theory Harness
  imports Runner Env_Frame
begin

text \<open>
  What the parts of a test run may do to their common environment. The workload, the fault injector and
  the nodes act on the simulator and the network only through a few calls. The locale
  \<open>world_frame\<close> names those calls and what a predicate of the environment must satisfy to be kept by all of
  them; its lemmas show that then every event of a run keeps it. The nodes' share is \<open>env_frame\<close>.
\<close>

section \<open>Delays and configurations\<close>

text \<open>A delay that moves on the clock and cannot overflow it during a run.\<close>

definition short :: "SimTime \<Rightarrow> bool" where
  "short d \<longleftrightarrow> 0 < d \<and> d < 2 ^ 62"

definition load_cfg_ok :: "WorkloadConfig \<Rightarrow> bool" where
  "load_cfg_ok c \<longleftrightarrow> short (wc_think_time c)"

definition fault_cfg_ok :: "FaultConfig \<Rightarrow> bool" where
  "fault_cfg_ok c \<longleftrightarrow> short (fc_check_interval c) \<and> 1 < fc_partition_duration c \<and> fc_partition_duration c < 2 ^ 61
     \<and> 0 < fc_crash_min_down c \<and> fc_crash_max_down c < 2 ^ 62"

fun harness_action :: "action \<Rightarrow> bool" where
  "harness_action (Deliver h f dst p) = False"
| "harness_action (NodeTimer tm) = False"
| "harness_action a = True"

text \<open>
  The books and the configurations stay as they are: what everything but the clients does.
\<close>

definition same_books :: "world \<Rightarrow> world \<Rightarrow> bool" where
  "same_books w w' \<longleftrightarrow> w_history w' = w_history w \<and> w_load w' = w_load w \<and> fi_cfg (w_fault w') = fi_cfg (w_fault w)
     \<and> map nd_cfg (w_nodes w') = map nd_cfg (w_nodes w) \<and> map nd_id (w_nodes w') = map nd_id (w_nodes w)"

lemma same_books_refl [simp]: "same_books w w"
  by (simp add: same_books_def)

lemma same_books_trans: "same_books a b \<Longrightarrow> same_books b c \<Longrightarrow> same_books a c"
  by (simp add: same_books_def)

lemma env_only_books: "env_only w w' \<Longrightarrow> same_books w w'"
  by (simp add: env_only_def same_books_def)

lemma w_env_calls [simp]:
  "w_env (snd (w_schedule d a w)) = snd (env_schedule d a (w_env w))"
  "w_env (w_cancel i w) = (w_env w)\<lparr>se_sim := sim_cancel i (se_sim (w_env w))\<rparr>"
  "w_env (w_set_net f w) = (w_env w)\<lparr>se_net := f (se_net (w_env w))\<rparr>"
  by (simp_all add: w_schedule_def env_schedule_def w_set_sim_def w_sim_def w_cancel_def w_set_net_def Let_def split_def)

section \<open>The stream of random numbers\<close>

text \<open>\<open>draws g p\<close>: the generator \<open>p\<close> is \<open>g\<close> after some draws.\<close>

definition draws :: "Prng \<Rightarrow> Prng \<Rightarrow> bool" where
  "draws g p \<longleftrightarrow> (\<exists>k. p = prng_skip k g)"

lemma draws_refl [simp]: "draws p p"
  unfolding draws_def by (rule exI [of _ 0]) simp

lemma draws_trans [trans]: "draws g p \<Longrightarrow> draws p q \<Longrightarrow> draws g q"
proof -
  have "prng_skip j (prng_skip k x) = prng_skip (k + j) x" for j k x by (induction k arbitrary: x) simp_all
  then show "draws g p \<Longrightarrow> draws p q \<Longrightarrow> draws g q" unfolding draws_def by metis
qed

lemma draws_next: "draws p (snd (next_u64 p))"
  unfolding draws_def by (rule exI [of _ 1]) simp

lemma draws_bernoulli: "draws p (snd (bernoulli pr p))"
  by (simp add: bernoulli_def Let_def split_def draws_next)

lemma draws_unit: "draws p (snd (prng_unit p))"
  by (simp add: prng_unit_def Let_def split_def draws_next)

lemma draws_retry: "range_retry n t m p = Some (m', p') \<Longrightarrow> draws p p'"
  by (drule range_retry_returns) (auto simp: draws_def simp del: prng_skip.simps intro: exI [of _ 0] prng_skip.simps(1) [symmetric])

lemma draws_range: "prng_range lo hi p = Some (Inr (v, p')) \<Longrightarrow> draws p p'"
  using draws_trans [OF draws_next draws_retry]
  by (auto simp: prng_range_def Let_def split_def draws_next split: if_splits)

lemma draws_shuffle_loop: "shuffle_loop i v p = Some (Inr (v', p')) \<Longrightarrow> draws p p'"
proof (induction i v p rule: shuffle_loop.induct)
  case (1 i v p)
  show ?case
  proof (cases "i > 1")
    case True
    with "1.prems" obtain j q where "prng_range 0 (of_nat i) p = Some (Inr (j, q))"
      "shuffle_loop (i - 1) (list_swap (unat j) (i - 1) v) q = Some (Inr (v', p'))"
      unfolding shuffle_loop.simps [of i v p] by (auto simp: bindX_eq_ret)
    with "1.IH" [OF True] show ?thesis using draws_trans [OF draws_range] by blast
  qed (use "1.prems" in \<open>simp add: shuffle_loop.simps\<close>)
qed

lemma draws_sim:
  "draws (sm_prng s) (sm_prng (snd (sim_bernoulli pr s)))"
  "sim_random_range lo hi s = Some (Inr (v, s')) \<Longrightarrow> draws (sm_prng s) (sm_prng s')"
  by (auto simp: sim_bernoulli_def Let_def split_def draws_bernoulli sim_random_range_def bindX_eq_ret dest: draws_range)

lemma draws_schedule [simp]: "sm_prng (snd (sim_schedule d a s)) = sm_prng s"
  by (simp add: sim_schedule_def sim_schedule_at_def Let_def split_def)

lemma draws_copy: "send_copy mk n f dst p s = Some (Inr s') \<Longrightarrow> draws (sm_prng s) (sm_prng s')"
  by (auto simp: send_copy_def bindX_eq_ret dest: draws_sim(2) split: option.splits)

lemma draws_send:
  assumes "net_send mk n f dst p s = Some (Inr s')"
  shows "draws (sm_prng s) (sm_prng s')"
proof (cases "partitioned f dst n")
  case False
  let ?b = "sim_bernoulli (nc_drop_prob (nw_cfg n)) s"
  from False assms consider "s' = snd ?b"
    | s1 where "send_copy mk n f dst p (snd ?b) = Some (Inr s1)"
        "s' = snd (sim_bernoulli (nc_dup_prob (nw_cfg n)) s1)
         \<or> send_copy mk n f dst p (snd (sim_bernoulli (nc_dup_prob (nw_cfg n)) s1)) = Some (Inr s')"
    by (auto simp: net_send_def Let_def split_def bindX_eq_ret split: if_splits)
  then show ?thesis
  proof cases
    case 2
    have "draws (sm_prng s) (sm_prng (snd (sim_bernoulli (nc_dup_prob (nw_cfg n)) s1)))"
      by (rule draws_trans [OF draws_trans [OF draws_sim(1) draws_copy [OF 2(1)]] draws_sim(1)])
    then show ?thesis using 2(2) draws_trans draws_copy by metis
  qed (simp add: draws_sim(1))
qed (use assms in \<open>simp add: net_send_def\<close>)

lemma w_range_env:
  assumes "w_range lo hi w = Some (Inr (v, w'))"
  shows "lo \<le> v \<and> v < hi \<and> (\<exists>p. draws (sm_prng (w_sim w)) p
    \<and> w_env w' = (w_env w)\<lparr>se_sim := (se_sim (w_env w))\<lparr>sm_prng := p\<rparr>\<rparr>)"
  using assms by (auto simp: w_range_def sim_random_range_def bindX_eq_ret w_sim_def w_set_sim_def
      dest: prng_range_bounds intro: draws_range)

text \<open>The configurations of a world are within bounds.\<close>

definition cfgs_ok :: "RaftConfig \<Rightarrow> world \<Rightarrow> bool" where
  "cfgs_ok c w \<longleftrightarrow> set (map nd_cfg (w_nodes w)) \<subseteq> {c} \<and> load_cfg_ok (wl_cfg (w_load w))
     \<and> fault_cfg_ok (fi_cfg (w_fault w))"

lemma cfgs_ok_books: "same_books w w' \<Longrightarrow> cfgs_ok c w' = cfgs_ok c w"
  unfolding same_books_def cfgs_ok_def by metis

definition books_moved :: "world \<Rightarrow> world \<Rightarrow> bool" where
  "books_moved w w' \<longleftrightarrow> same_books w w' \<or> (\<exists>ci. op_invoked ci w w') \<or> (\<exists>ci. op_returned ci w w')"

lemma books_moved_cfgs: "books_moved w w' \<Longrightarrow> cfgs_ok c w' = cfgs_ok c w"
  unfolding books_moved_def
proof (elim disjE exE)
  fix ci assume "op_invoked ci w w'"
  then show ?thesis by (auto simp: op_invoked_def cfgs_ok_def Let_def)
next
  fix ci assume "op_returned ci w w'"
  then show ?thesis by (auto simp: op_returned_def cfgs_ok_def Let_def)
qed (rule cfgs_ok_books)

lemma moved_intros:
  "w' = w \<or> op_invoked ci w w' \<Longrightarrow> books_moved w w'" "w' = w \<or> op_returned ci w w' \<Longrightarrow> books_moved w w'"
  "same_books w w' \<Longrightarrow> books_moved w w'"
  by (auto simp: books_moved_def)

lemma cfgs_ok_load: "cfgs_ok c w \<Longrightarrow> load_cfg_ok (wl_cfg (w_load w))"
  by (simp add: cfgs_ok_def)

section \<open>The contract\<close>

locale world_frame =
  fixes c :: RaftConfig and P :: "sim_env \<Rightarrow> bool"
  assumes node_frame: "env_frame sim_iface i c (\<lambda>e. se_halted e \<or> P e)"
    and P_schedule: "P e \<Longrightarrow> short d \<Longrightarrow> harness_action a \<Longrightarrow> P (snd (env_schedule d a e))"
    and P_cancel: "P e \<Longrightarrow> P (e\<lparr>se_sim := sim_cancel ev (se_sim e)\<rparr>)"
    and P_draw: "P e \<Longrightarrow> draws (sm_prng (se_sim e)) pg \<Longrightarrow> P (e\<lparr>se_sim := (se_sim e)\<lparr>sm_prng := pg\<rparr>\<rparr>)"
    and P_client_send: "P e \<Longrightarrow> net_send Deliver (se_net e) sender dest (encode_client_request cr) (se_sim e) = Some (Inr s) \<Longrightarrow>
      P (e\<lparr>se_sim := s\<rparr>)"
    and P_partition: "P e \<Longrightarrow> P (e\<lparr>se_net := net_partition gs (se_net e)\<rparr>)"
    and P_heal: "P e \<Longrightarrow> P (e\<lparr>se_net := net_heal (se_net e)\<rparr>)"
    and P_drop: "P e \<Longrightarrow> P (e\<lparr>se_net := set_drop_prob q (se_net e)\<rparr>)"
    and P_dup: "P e \<Longrightarrow> P (e\<lparr>se_net := set_dup_prob q (se_net e)\<rparr>)"
begin

definition calm :: "world \<Rightarrow> bool" where
  "calm w \<longleftrightarrow> P (w_env w) \<and> \<not> se_halted (w_env w)"

lemma calm_env: "w_env w' = w_env w \<Longrightarrow> calm w' = calm w"
  by (simp add: calm_def)

text \<open>The calls on the simulator and the network.\<close>

lemma calm_schedule: "calm w \<Longrightarrow> short d \<Longrightarrow> harness_action a \<Longrightarrow> calm (snd (w_schedule d a w))"
  by (auto simp: calm_def P_schedule) (simp add: env_schedule_def Let_def split_def)

lemma calm_cancel: "calm w \<Longrightarrow> calm (w_cancel i w)"
  by (simp add: calm_def P_cancel)

lemma calm_range: "w_range lo hi w = Some (Inr (v, w')) \<Longrightarrow> calm w \<Longrightarrow> calm w'"
  using w_range_env [of lo hi w v w'] P_draw by (auto simp: calm_def w_sim_def)

lemma calm_unit: "calm w \<Longrightarrow> calm (snd (w_unit w))"
  by (simp add: calm_def w_unit_def Let_def split_def w_set_sim_def w_sim_def P_draw draws_unit)

lemma calm_bernoulli: "calm w \<Longrightarrow> calm (snd (w_bernoulli pr w))"
  by (simp add: calm_def w_bernoulli_def sim_bernoulli_def Let_def split_def w_set_sim_def w_sim_def P_draw draws_bernoulli)

lemma calm_shuffle: "w_shuffle ids w = Some (Inr (ids', w')) \<Longrightarrow> calm w \<Longrightarrow> calm w'"
  by (auto simp: w_shuffle_def prng_shuffle_def bindX_eq_ret calm_def w_set_sim_def w_sim_def intro!: P_draw dest: draws_shuffle_loop)

lemma calm_send: "w_send f dst (encode_client_request cr) w = Some (Inr w') \<Longrightarrow> calm w \<Longrightarrow> calm w'"
  by (auto simp: w_send_def bindX_eq_ret calm_def w_set_sim_def w_sim_def intro: P_client_send)

lemma calm_net:
  "calm w \<Longrightarrow> calm (w_set_net (net_partition gs) w)" "calm w \<Longrightarrow> calm (w_set_net net_heal w)"
  "calm w \<Longrightarrow> calm (w_set_net (set_drop_prob q) w)" "calm w \<Longrightarrow> calm (w_set_net (set_dup_prob q) w)"
  by (simp_all add: calm_def P_partition P_heal P_drop P_dup)

text \<open>The workload.\<close>

lemma calm_op_kind: "calm w \<Longrightarrow> calm (snd (random_op_kind w))"
  by (simp add: random_op_kind_def Let_def split_def calm_unit)

lemma calm_key: "random_key w = Some (Inr (k, w')) \<Longrightarrow> calm w \<Longrightarrow> calm w'"
  by (auto simp: random_key_def bindX_eq_ret intro: calm_range)

lemma calm_value: "random_value w = Some (Inr (k, w')) \<Longrightarrow> calm w \<Longrightarrow> calm w'"
  by (auto simp: random_value_def bindX_eq_ret intro: calm_range)

lemma calm_command: "random_command kind key w = Some (Inr (r, w')) \<Longrightarrow> calm w \<Longrightarrow> calm w'"
  by (cases kind) (auto simp: random_command_def bindX_eq_ret intro: calm_value)

lemma calm_send_op:
  assumes "send_op ci kind key val ex cmd w = Some (Inr w')" "calm w"
  shows "calm w'"
proof -
  from assms(1) obtain w1 w2 dst cr where w2: "w_send (kClientIdBase + of_nat ci) dst (encode_client_request cr) w1 = Some (Inr w2)"
    and w1: "w_env w1 = w_env w" and w': "w_env w' = w_env (snd (w_schedule kOpTimeout (OpTimeout ci) w2))"
    unfolding send_op_def Let_def by (auto simp: bindX_eq_ret split_beta)
  have "calm w2" using calm_send [OF w2] assms(2) calm_env [OF w1] by blast
  then have "calm (snd (w_schedule kOpTimeout (OpTimeout ci) w2))"
    by (rule calm_schedule) (simp_all add: short_def kOpTimeout_def kSec_def)
  then show ?thesis using calm_env [OF w'] by blast
qed

lemma calm_issue_op:
  assumes "issue_op ci w = Some (Inr w')" "calm w"
  shows "calm w'"
proof (cases "wl_ops_issued (w_load w) < wc_total_ops (wl_cfg (w_load w)) \<and> ci < length (wl_clients (w_load w))
    \<and> \<not> cs_waiting (wl_clients (w_load w) ! ci)")
  case True
  obtain kind w1 where w1: "random_op_kind (begin_op ci w) = (kind, w1)" by fastforce
  from True assms(1) w1 obtain key w2 val ex cmd w3 where
    w2: "random_key w1 = Some (Inr (key, w2))" and w3: "random_command kind key w2 = Some (Inr ((val, ex, cmd), w3))"
    and w': "send_op ci kind key val ex cmd w3 = Some (Inr w')"
    by (auto simp: issue_op_def bindX_eq_ret)
  have "calm (begin_op ci w)" using assms(2) by (simp add: calm_def begin_op_def Let_def)
  then have "calm w1" using calm_op_kind [of "begin_op ci w"] w1 by simp
  then show ?thesis using calm_key [OF w2] calm_command [OF w3] calm_send_op [OF w'] by blast
next
  case False
  with assms show ?thesis by (auto simp: issue_op_def split: if_splits)
qed

lemma repointed_env: "repointed ci w w' \<Longrightarrow> w_env w' = w_env w"
  by (auto simp: repointed_def)

lemma settle_reply_env: "settle_reply ci reply w = Some (Inr w') \<Longrightarrow> w_env w' = w_env w"
  by (fastforce dest!: settle_reply_effect simp: w_return_effect dest: repointed_env)

lemma stop_waiting_env: "w_env (stop_waiting ci w) = w_env w"
  by (simp add: stop_waiting_def Let_def)

lemma calm_next: "calm w \<Longrightarrow> load_cfg_ok (wl_cfg (w_load w)) \<Longrightarrow> calm (schedule_next ci (count_completed w))"
  unfolding schedule_next_def
  by (rule calm_schedule) (simp_all add: load_cfg_ok_def count_completed_def calm_def)

lemma repointed_cfg: "repointed ci w w' \<Longrightarrow> wl_cfg (w_load w') = wl_cfg (w_load w)"
  by (auto dest!: repointed_fields)

lemma settle_reply_cfg: "settle_reply ci reply w = Some (Inr w') \<Longrightarrow> wl_cfg (w_load w') = wl_cfg (w_load w)"
  by (fastforce dest!: settle_reply_effect simp: w_return_effect dest: repointed_cfg)

lemma calm_on_reply:
  assumes "on_reply ci p w = Some (Inr w')" "calm w" "load_cfg_ok (wl_cfg (w_load w))"
  shows "calm w'"
proof (cases "ci < length (wl_clients (w_load w)) \<and> cs_waiting (wl_clients (w_load w) ! ci)")
  case True
  let ?w1 = "stop_waiting ci (w_cancel (cs_timeout_id (wl_clients (w_load w) ! ci)) w)"
  have w1: "calm ?w1" "wl_cfg (w_load ?w1) = wl_cfg (w_load w)"
    using calm_cancel [OF assms(2)] by (simp_all add: calm_def stop_waiting_env stop_waiting_fields w_cancel_def w_set_sim_def)
  from True assms(1) consider "w' = w"
    | reply w3 where "settle_reply ci reply ?w1 = Some (Inr w3)" "w' = schedule_next ci (count_completed w3)"
    by (auto simp: on_reply_def bindX_eq_ret split: if_splits sum.splits)
  then show ?thesis
  proof cases
    case 2
    have "calm w3" "wl_cfg (w_load w3) = wl_cfg (w_load w)"
      using settle_reply_env [OF 2(1)] settle_reply_cfg [OF 2(1)] w1 by (simp_all add: calm_def)
    with assms(3) show ?thesis unfolding 2(2) by (simp add: calm_next)
  qed (use assms in simp)
next
  case False
  with assms show ?thesis by (auto simp: on_reply_def split: if_splits)
qed

lemma calm_on_timeout:
  assumes "on_timeout ci w = Some (Inr w')" "calm w" "load_cfg_ok (wl_cfg (w_load w))"
  shows "calm w'"
proof (cases "ci < length (wl_clients (w_load w)) \<and> cs_waiting (wl_clients (w_load w) ! ci)")
  case True
  from True assms(1) obtain w2 where w2: "w_return ci False ''timeout'' (stop_waiting ci w) = Some (Inr w2)"
    and w': "w' = schedule_next ci (rotate_leader ci (count_completed w2))"
    by (auto simp: on_timeout_def bindX_eq_ret)
  from repointed_count [OF repointed_calls(1)] obtain w3 where
    w3: "repointed ci w2 w3" "rotate_leader ci (count_completed w2) = count_completed w3" by blast
  have "w_env w2 = w_env w" "wl_cfg (w_load w2) = wl_cfg (w_load w)"
    using w2 by (auto simp: w_return_effect stop_waiting_env stop_waiting_fields)
  then have "calm w3" "load_cfg_ok (wl_cfg (w_load w3))"
    using repointed_env [OF w3(1)] repointed_cfg [OF w3(1)] assms(2,3) by (simp_all add: calm_def)
  then show ?thesis unfolding w' w3(2) by (rule calm_next)
next
  case False
  with assms show ?thesis by (auto simp: on_timeout_def split: if_splits)
qed

text \<open>The nodes.\<close>

lemma node_step:
  assumes step: "on_node_at j f w = Some (Inr w')" and w: "calm w" "cfgs_ok c w"
    and f: "\<And>n. env_frame.holds (nd_id (w_nodes w ! j)) c (\<lambda>e. se_halted e \<or> P e) n \<Longrightarrow>
      ends (env_frame.holds (nd_id (w_nodes w ! j)) c (\<lambda>e. se_halted e \<or> P e)) (f n)"
  shows "calm w' \<and> same_books w w'"
proof -
  let ?i = "nd_id (w_nodes w ! j)" and ?P = "\<lambda>e. se_halted e \<or> P e"
  have holds: "env_frame.holds ?i c ?P n \<longleftrightarrow> nd_id n = ?i \<and> nd_cfg n = c \<and> ?P (nd_env n)" for n
    using env_frame.holds_def [OF node_frame] .
  from step obtain n where j: "j < length (w_nodes w)" and n: "f ((w_nodes w ! j)\<lparr>nd_env := w_env w\<rparr>) = Ret n"
    "\<not> se_halted (nd_env n)" and w': "w' = w\<lparr>w_env := nd_env n, w_nodes := (w_nodes w)[j := n]\<rparr>"
    by (auto simp: on_node_at_def split: if_splits outcome.splits)
  have cj: "nd_cfg (w_nodes w ! j) = c" using w(2) j by (force simp: cfgs_ok_def)
  then have "env_frame.holds ?i c ?P n" using f [of "(w_nodes w ! j)\<lparr>nd_env := w_env w\<rparr>"] n(1) w(1) by (simp add: holds calm_def)
  then have "nd_id n = ?i" "nd_cfg n = nd_cfg (w_nodes w ! j)" "P (nd_env n)" using n(2) cj by (simp_all add: holds)
  with n(2) j show ?thesis
    by (simp add: w' calm_def same_books_def map_update list_update_same_conv)
qed

lemmas node_ops = env_frame.holds_on_message [OF node_frame] env_frame.holds_fire_timer [OF node_frame]
  env_frame.holds_start [OF node_frame] env_frame.holds_restart [OF node_frame] env_frame.holds_crash [OF node_frame]

lemma node_steps:
  "on_node_at j (on_message sim_iface sender p) w = Some (Inr w') \<Longrightarrow> calm w \<Longrightarrow> cfgs_ok c w \<Longrightarrow> calm w' \<and> same_books w w'"
  "on_node_at j (fire_timer sim_iface tm) w = Some (Inr w') \<Longrightarrow> calm w \<Longrightarrow> cfgs_ok c w \<Longrightarrow> calm w' \<and> same_books w w'"
  "on_node_at j (nd_start sim_iface) w = Some (Inr w') \<Longrightarrow> calm w \<Longrightarrow> cfgs_ok c w \<Longrightarrow> calm w' \<and> same_books w w'"
  "on_node_at j (nd_restart sim_iface) w = Some (Inr w') \<Longrightarrow> calm w \<Longrightarrow> cfgs_ok c w \<Longrightarrow> calm w' \<and> same_books w w'"
  "on_node_at j (nd_crash sim_iface) w = Some (Inr w') \<Longrightarrow> calm w \<Longrightarrow> cfgs_ok c w \<Longrightarrow> calm w' \<and> same_books w w'"
  by (rule node_step; (assumption | erule node_ops))+

text \<open>The fault injector.\<close>

lemma schedule_tick_step:
  assumes "calm w" "cfgs_ok c w"
  shows "calm (schedule_tick w) \<and> same_books w (schedule_tick w)"
proof -
  let ?w = "snd (w_schedule (fc_check_interval (fi_cfg (w_fault w))) FaultTick w)"
  have "calm ?w" using assms by (intro calm_schedule) (simp_all add: cfgs_ok_def fault_cfg_ok_def)
  moreover have "env_only w ?w" by (rule env_only_calls)
  ultimately show ?thesis
    by (simp add: schedule_tick_def split_def Let_def calm_def same_books_def env_only_def)
qed

lemma calm_set_net_books: "env_only w (w_set_net f w)"
  by (rule env_only_set)

lemma range_then:
  assumes "bindX (w_range lo hi w) f = Some (Inr r)" "calm w"
  obtains v w1 where "lo \<le> v" "v < hi" "calm w1" "env_only w w1" "f (v, w1) = Some (Inr r)"
proof -
  from assms(1) obtain v w1 where r: "w_range lo hi w = Some (Inr (v, w1))" "f (v, w1) = Some (Inr r)"
    by (auto simp: bindX_eq_ret)
  with that w_range_env [OF r(1)] calm_range [OF r(1) assms(2)] env_only_range [OF r(1)] show ?thesis by blast
qed

text \<open>Draw a duration and schedule the end of the fault: the last part of every fault.\<close>

lemma fault_ends:
  assumes "bindX (w_range lo hi w) (\<lambda>(v, w). Some (Inr (snd (w_schedule v a w)))) = Some (Inr w')"
    and "calm w" "0 < lo" "hi \<le> 2 ^ 62" "harness_action a"
  shows "calm w' \<and> env_only w w'"
proof -
  from assms(1,2) obtain v w1 where v: "lo \<le> v" "v < hi" and w1: "calm w1" "env_only w w1"
    and w': "w' = snd (w_schedule v a w1)" by (rule range_then) simp
  have "short v" using v assms(3,4) by (auto simp: short_def)
  then show ?thesis
    unfolding w' using calm_schedule [OF w1(1) _ assms(5)] env_only_trans [OF w1(2) env_only_calls(1)] by blast
qed

lemma spike_bounds: "(0 :: SimTime) < 100 * kMsec" "400 * kMsec \<le> (2 ^ 62 :: SimTime)"
  by (simp_all add: kMsec_def)

lemma drop_spike_step:
  assumes "inject_drop_spike w = Some (Inr w')" "calm w"
  shows "calm w' \<and> same_books w w'"
proof -
  let ?w = "w_set_net (set_drop_prob (min (dadd (nc_drop_prob (nw_cfg (se_net (w_env w)))) (dbl (3 / 10))) (dbl (6 / 10)))) w"
  have "calm w' \<and> env_only ?w w'"
    using assms(1) calm_net(3) [OF assms(2)] spike_bounds unfolding inject_drop_spike_def Let_def
    by (rule fault_ends) simp
  then show ?thesis using env_only_books [OF env_only_trans [OF calm_set_net_books]] by blast
qed

lemma dup_spike_step:
  assumes "inject_dup_spike w = Some (Inr w')" "calm w"
  shows "calm w' \<and> same_books w w'"
proof -
  let ?w = "w_set_net (set_dup_prob (min (dadd (nc_dup_prob (nw_cfg (se_net (w_env w)))) (dbl (2 / 10))) (dbl (4 / 10)))) w"
  have "calm w' \<and> env_only ?w w'"
    using assms(1) calm_net(4) [OF assms(2)] spike_bounds unfolding inject_dup_spike_def Let_def
    by (rule fault_ends) simp
  then show ?thesis using env_only_books [OF env_only_trans [OF calm_set_net_books]] by blast
qed

lemma duration_bounds:
  assumes "fault_cfg_ok f"
  shows "0 < fc_partition_duration f div 2" "fc_partition_duration f * 2 \<le> 2 ^ 62"
proof -
  have d: "1 < fc_partition_duration f" "fc_partition_duration f < 2 ^ 61" using assms by (simp_all add: fault_cfg_ok_def)
  then have n: "1 < unat (fc_partition_duration f)" "unat (fc_partition_duration f) < 2 ^ 61"
    by (simp_all add: word_less_nat_alt)
  then show "0 < fc_partition_duration f div 2" by (simp add: word_less_nat_alt unat_div)
  have "unat (fc_partition_duration f * 2) = unat (fc_partition_duration f) * 2"
    using n by (simp add: unat_word_ariths)
  then show "fc_partition_duration f * 2 \<le> 2 ^ 62" using n by (simp add: word_le_nat_alt)
qed

lemma partition_step:
  assumes "inject_partition w = Some (Inr w')" "calm w" "cfgs_ok c w"
  shows "calm w' \<and> same_books w w'"
proof (cases "length (w_nodes w) < 2")
  case False
  define cont where "cont split ids w1 = (let w2 = w_set_net (net_partition [take (unat split) ids, drop (unat split) ids]) w1;
      d = fc_partition_duration (fi_cfg (w_fault w2))
    in bindX (w_range (d div 2) (d * 2) w2) (\<lambda>(dur, w). Some (Inr (snd (w_schedule dur HealNetwork w)))))"
    for split :: SimTime and ids w1
  from False assms(1) obtain ids w0 where w0: "w_shuffle (map nd_id (w_nodes w)) w = Some (Inr (ids, w0))"
    and r: "bindX (w_range 1 (of_nat (length ids)) w0) (\<lambda>(split, w). cont split ids w) = Some (Inr w')"
    by (auto simp: inject_partition_def bindX_eq_ret cont_def Let_def)
  from r calm_shuffle [OF w0 assms(2)] obtain split w1 where w1: "calm w1" "env_only w0 w1"
    and e: "cont split ids w1 = Some (Inr w')" by (rule range_then) simp
  let ?w2 = "w_set_net (net_partition [take (unat split) ids, drop (unat split) ids]) w1"
  have w2: "env_only w ?w2"
    using env_only_trans [OF env_only_trans [OF env_only_shuffle [OF w0] w1(2)] calm_set_net_books] .
  then have "fault_cfg_ok (fi_cfg (w_fault ?w2))" using assms(3) by (simp add: env_only_def cfgs_ok_def)
  from e calm_net(1) [OF w1(1)] duration_bounds [OF this] have "calm w' \<and> env_only ?w2 w'"
    unfolding cont_def Let_def by (rule fault_ends) simp
  then show ?thesis using env_only_books [OF env_only_trans [OF w2]] by blast
qed (use assms in \<open>simp add: inject_partition_def\<close>)

lemma crash_step:
  assumes "inject_crash_restart w = Some (Inr w')" "calm w" "cfgs_ok c w"
  shows "calm w' \<and> same_books w w'"
proof (cases "w_nodes w = []")
  case False
  define down where "down idx = (\<lambda>w. bindX (w_range (fc_crash_min_down (fi_cfg (w_fault w))) (fc_crash_max_down (fi_cfg (w_fault w))) w)
      (\<lambda>(down_time, w). Some (Inr (snd (w_schedule down_time (RestartNode (unat idx)) w)))))" for idx :: SimTime
  define cont where "cont idx w = (if \<not> unat idx < length (w_nodes w) then Some (Inl OutOfRange)
      else if \<not> nd_running (w_nodes w ! unat idx) then Some (Inr w)
      else bindX (on_node_at (unat idx) (nd_crash sim_iface) w) (down idx))" for idx w
  from False assms(1) have r: "bindX (w_range 0 (of_nat (length (w_nodes w))) w) (\<lambda>(idx, w). cont idx w) = Some (Inr w')"
    unfolding inject_crash_restart_def cont_def down_def by simp
  from r assms(2) obtain idx w1 where w1: "calm w1" "env_only w w1" and e: "cont idx w1 = Some (Inr w')"
    by (rule range_then) simp
  have b1: "same_books w w1" using env_only_books [OF w1(2)] .
  from e consider "w' = w1" | w2 where "on_node_at (unat idx) (nd_crash sim_iface) w1 = Some (Inr w2)" "down idx w2 = Some (Inr w')"
    by (auto simp: cont_def bindX_eq_ret split: if_splits)
  then show ?thesis
  proof cases
    case 2
    have w2: "calm w2" "same_books w1 w2" using node_steps(5) [OF 2(1) w1(1)] assms(3) cfgs_ok_books [OF b1] by blast+
    then have "fault_cfg_ok (fi_cfg (w_fault w2))" using assms(3) b1 by (simp add: same_books_def cfgs_ok_def)
    then have "0 < fc_crash_min_down (fi_cfg (w_fault w2))" "fc_crash_max_down (fi_cfg (w_fault w2)) \<le> 2 ^ 62"
      by (auto simp: fault_cfg_ok_def)
    from 2(2) [unfolded down_def] w2(1) this have "calm w' \<and> env_only w2 w'" by (rule fault_ends) simp
    then show ?thesis using b1 w2(2) env_only_books same_books_trans by blast
  qed (use w1 b1 in simp)
qed (use assms in \<open>simp add: inject_crash_restart_def\<close>)

lemma inject_fault_step:
  assumes "inject_fault r w = Some (Inr w')" "calm w" "cfgs_ok c w"
  shows "calm w' \<and> same_books w w'"
  using assms partition_step drop_spike_step dup_spike_step crash_step
  unfolding inject_fault_def Let_def by (auto split: if_splits)

lemma tick_step:
  assumes "tick w = Some (Inr w')" "calm w" "cfgs_ok c w"
  shows "calm w' \<and> same_books w w'"
proof (cases "fi_running (w_fault w)")
  case True
  let ?b = "fst (w_bernoulli (fc_fault_rate (fi_cfg (w_fault w))) w)"
  let ?w1 = "snd (w_bernoulli (fc_fault_rate (fi_cfg (w_fault w))) w)"
  from True assms(1) obtain w2 where
    w2: "(if ?b then inject_fault (fst (w_unit ?w1)) (snd (w_unit ?w1)) else Some (Inr ?w1)) = Some (Inr w2)"
    and w': "w' = schedule_tick w2"
    by (cases ?b) (auto simp: tick_def Let_def split_def bindX_eq_ret)
  have w1: "calm ?w1" "same_books w ?w1" using assms(2) calm_bernoulli env_only_books [OF env_only_calls(4)] by blast+
  have u: "calm (snd (w_unit ?w1))" "same_books w (snd (w_unit ?w1))"
    using calm_unit [OF w1(1)] same_books_trans [OF w1(2) env_only_books [OF env_only_calls(3)]] by blast+
  have "calm w2 \<and> same_books w w2"
  proof (cases ?b)
    case True
    then have "calm w2 \<and> same_books (snd (w_unit ?w1)) w2"
      using w2 inject_fault_step [OF _ u(1)] assms(3) cfgs_ok_books [OF u(2)] by simp
    then show ?thesis using same_books_trans [OF u(2)] by blast
  qed (use w1 w2 in simp)
  then show ?thesis
    unfolding w' using schedule_tick_step [of w2] assms(3) cfgs_ok_books same_books_trans by blast
qed (use assms in \<open>simp add: tick_def\<close>)

section \<open>Every event keeps the predicate\<close>

lemma exec_step:
  assumes "exec a w = Some (Inr w')" "calm w" "cfgs_ok c w"
  shows "calm w' \<and> books_moved w w'"
proof (cases a)
  case (Deliver h f dst p)
  then show ?thesis
    using assms node_steps(1) calm_on_reply [OF _ assms(2) cfgs_ok_load [OF assms(3)]] moved_intros(2) [OF on_reply_effect]
    by (cases h) (auto simp: on_node_def moved_intros(3))
next
  case (NodeTimer tm)
  then show ?thesis using assms node_steps(2) by (auto simp: on_node_def books_moved_def)
next
  case (IssueOp ci)
  then show ?thesis using assms calm_issue_op moved_intros(1) [OF issue_op_effect] by simp
next
  case (OpTimeout ci)
  then show ?thesis
    using assms calm_on_timeout [OF _ assms(2) cfgs_ok_load [OF assms(3)]] moved_intros(2) [OF on_timeout_effect] by simp
next
  case FaultTick
  then show ?thesis using assms tick_step by (auto simp: books_moved_def)
next
  case (RestartNode idx)
  then show ?thesis using assms node_steps(4) by (auto simp: books_moved_def)
next
  case HealNetwork
  then show ?thesis using assms calm_net env_only_books [OF calm_set_net_books] by (auto simp: books_moved_def)
next
  case (RestoreDrop d)
  then show ?thesis using assms calm_net env_only_books [OF calm_set_net_books] by (auto simp: books_moved_def)
next
  case (RestoreDup d)
  then show ?thesis using assms calm_net env_only_books [OF calm_set_net_books] by (auto simp: books_moved_def)
qed

end

section \<open>Time moves on\<close>

text \<open>
  \<open>timing T H\<close>: the clock shows \<open>T\<close>, the queue is sorted and holds the events \<open>H\<close> and, besides
  them, only events later than \<open>T\<close>. No call of a node or of the harness breaks it: what an event
  schedules lies strictly in its future.
\<close>

definition latency_ok :: "NetworkConfig \<Rightarrow> bool" where
  "latency_ok c \<longleftrightarrow> 0 < nc_min_latency c \<and> nc_min_latency c \<le> nc_max_latency c \<and> nc_max_latency c < 2 ^ 62"

definition timing :: "SimTime \<Rightarrow> action Event multiset \<Rightarrow> sim_env \<Rightarrow> bool" where
  "timing T H e \<longleftrightarrow> sm_clock (se_sim e) = T \<and> T < 2 ^ 62 \<and> heap_sorted (eq_heap (sm_queue (se_sim e)))
     \<and> latency_ok (nw_cfg (se_net e))
     \<and> (\<exists>N. mset (eq_heap (sm_queue (se_sim e))) = N + H \<and> (\<forall>ev \<in># N. T < ev_time ev))"

lemma later: "T < 2 ^ 62 \<Longrightarrow> short d \<Longrightarrow> T < (T + d :: SimTime)"
proof -
  assume a: "T < 2 ^ 62" "short d"
  then have "unat T < 2 ^ 62" "unat d < 2 ^ 62" "0 < unat d" by (simp_all add: short_def word_less_nat_alt unat_gt_0)
  then show ?thesis by (simp add: word_less_nat_alt unat_word_ariths)
qed

lemma timing_schedule: "timing T H e \<Longrightarrow> short d \<Longrightarrow> timing T H (snd (env_schedule d a e))"
proof -
  assume t: "timing T H e" and d: "short d"
  let ?s = "se_sim e"
  let ?ev = "\<lparr>ev_time = T + d, ev_seq = sm_next_seq ?s, ev_action = a, ev_cancelled = False\<rparr>"
  from t obtain N where N: "mset (eq_heap (sm_queue ?s)) = N + H" "\<forall>ev \<in># N. T < ev_time ev"
    and T: "sm_clock ?s = T" "T < 2 ^ 62" and rest: "heap_sorted (eq_heap (sm_queue ?s))" "latency_ok (nw_cfg (se_net e))"
    by (auto simp: timing_def)
  have "mset (eq_heap (sm_queue (snd (sim_schedule d a ?s)))) = add_mset ?ev N + H"
    using N(1) T(1) by (simp add: sim_schedule_def)
  moreover have "\<forall>ev \<in># add_mset ?ev N. T < ev_time ev" using N(2) later [OF T(2) d] by auto
  ultimately show ?thesis
    using T rest by (auto simp: timing_def env_schedule_def Let_def split_def sim_schedule_def heap_push_sorted
        intro!: exI [of _ "add_mset ?ev N"])
qed

lemma timing_cancel: "timing T H e \<Longrightarrow> timing T H (e\<lparr>se_sim := sim_cancel i (se_sim e)\<rparr>)"
  by (simp add: timing_def)

lemma timing_draw: "timing T H e \<Longrightarrow> timing T H (e\<lparr>se_sim := (se_sim e)\<lparr>sm_prng := pg\<rparr>\<rparr>)"
  by (simp add: timing_def)

lemma timing_net: "latency_ok (nw_cfg (f (se_net e))) = latency_ok (nw_cfg (se_net e)) \<Longrightarrow>
    timing T H e \<Longrightarrow> timing T H (e\<lparr>se_net := f (se_net e)\<rparr>)"
  by (simp add: timing_def)

lemma timing_trace: "timing T H (e\<lparr>se_trace := tr\<rparr>) = timing T H e" "timing T H (e\<lparr>se_halted := b\<rparr>) = timing T H e"
  by (simp_all add: timing_def)

lemma timing_send:
  assumes t: "timing T H e" and s: "net_send Deliver (se_net e) sender dest p (se_sim e) = Some (Inr s)"
  shows "timing T H (e\<lparr>se_sim := s\<rparr>)"
proof -
  from t obtain N where N: "mset (eq_heap (sm_queue (se_sim e))) = N + H" "\<forall>ev \<in># N. T < ev_time ev"
    and T: "sm_clock (se_sim e) = T" "T < 2 ^ 62" and rest: "heap_sorted (eq_heap (sm_queue (se_sim e)))"
    "latency_ok (nw_cfg (se_net e))" by (auto simp: timing_def)
  from net_send_queues [OF s] obtain evs where q: "queues (se_sim e) evs s"
    and d: "\<forall>ev \<in> set evs. delivery Deliver (se_net e) sender dest p (sm_clock (se_sim e)) ev" by blast
  have "T < ev_time ev" if "ev \<in> set evs" for ev
  proof -
    from d that obtain lat where lat: "nc_min_latency (nw_cfg (se_net e)) \<le> lat" "lat \<le> nc_max_latency (nw_cfg (se_net e))"
      and ev: "ev_time ev = T + lat" using T(1) by (auto simp: delivery_def)
    have "short lat" using lat rest(2) by (auto simp: short_def latency_ok_def)
    then show ?thesis unfolding ev by (rule later [OF T(2)])
  qed
  with N q T rest show ?thesis
    by (auto simp: timing_def queues_def intro!: exI [of _ "mset evs + N"])
qed

lemma halted_calls:
  "se_halted e \<Longrightarrow> se_halted (snd (env_schedule d a e))" "se_halted e \<Longrightarrow> se_halted (snd (env_range lo hi e))"
  "se_halted e \<Longrightarrow> se_halted (env_send f dst p e)"
  by (auto simp: env_schedule_def env_range_def env_send_def Let_def split: prod.splits option.splits sum.splits)

lemma timing_env_send: "timing T H e \<Longrightarrow> se_halted (env_send f dst p e) \<or> timing T H (env_send f dst p e)"
  by (auto simp: env_send_def timing_send split: option.splits sum.splits)

lemma timing_env_range:
  "timing T H e \<Longrightarrow> se_halted (snd (env_range lo hi e))
     \<or> timing T H (snd (env_range lo hi e)) \<and> lo \<le> fst (env_range lo hi e) \<and> fst (env_range lo hi e) < hi"
  by (auto simp: env_range_def sim_random_range_def bindX_eq_ret timing_draw dest: prng_range_bounds
      split: option.splits sum.splits)

lemma node_delays:
  "cfg_election_timeout_lo (node_config cfg) = 150000" "short (cfg_heartbeat_interval (node_config cfg))"
  "short (cfg_read_timeout (node_config cfg))"
  by (simp_all add: node_config_def default_config_def short_def)

lemma short_election: "150000 \<le> v \<Longrightarrow> v < 300001 \<Longrightarrow> short v"
  by (simp add: short_def word_less_nat_alt word_le_nat_alt)

interpretation node_timing: env_frame sim_iface i "node_config cfg" "\<lambda>e. se_halted e \<or> timing T H e" for i cfg T H
proof (unfold_locales, goal_cases)
  case (3 e g)
  let ?r = "env_range 150000 (2 * 150000 + 1) e"
  have "se_halted (snd ?r) \<or> timing T H (snd ?r) \<and> short (fst ?r)"
    using 3 halted_calls(2) timing_env_range [of T H e 150000 "2 * 150000 + 1"] by (auto simp: short_election)
  then show ?case using halted_calls(1) timing_schedule unfolding node_delays(1) by (auto simp: sim_iface_def)
qed (auto simp: sim_iface_def env_record_def timing_trace timing_schedule node_delays timing_cancel halted_calls
    net_set_handler_def net_remove_handler_def timing_env_send intro!: timing_net dest: timing_env_send)

interpretation world_timing: world_frame "node_config cfg" "timing T H" for cfg T H
  by unfold_locales
    (auto simp: timing_schedule timing_cancel timing_draw timing_send net_partition_def net_heal_def
      set_drop_prob_def set_dup_prob_def latency_ok_def intro!: timing_net)

section \<open>One stream of random numbers\<close>

text \<open>Nothing in a run touches the generator but by drawing from it.\<close>

definition drawn :: "Prng \<Rightarrow> sim_env \<Rightarrow> bool" where
  "drawn g e \<longleftrightarrow> draws g (sm_prng (se_sim e))"

lemma drawn_frame [simp]:
  "drawn g (e\<lparr>se_trace := tr\<rparr>) = drawn g e" "drawn g (e\<lparr>se_net := n\<rparr>) = drawn g e" "drawn g (e\<lparr>se_halted := b\<rparr>) = drawn g e"
  "drawn g (snd (env_schedule d a e)) = drawn g e"
  by (simp_all add: drawn_def env_schedule_def Let_def split_def)

lemma drawn_cancel [simp]: "drawn g (e\<lparr>se_sim := sim_cancel i (se_sim e)\<rparr>) = drawn g e"
  by (simp add: drawn_def sim_cancel_def)

lemma drawn_send: "drawn g e \<Longrightarrow> drawn g (env_send f dst p e)"
  by (auto simp: env_send_def drawn_def split: option.splits sum.splits intro: draws_trans draws_send)

lemma drawn_range: "drawn g e \<Longrightarrow> drawn g (snd (env_range lo hi e))"
  by (auto simp: env_range_def drawn_def split: option.splits sum.splits intro: draws_trans draws_sim(2))

interpretation node_draws: env_frame sim_iface i "node_config cfg" "\<lambda>e. se_halted e \<or> drawn g e" for i cfg g
  by unfold_locales (auto simp: sim_iface_def env_record_def halted_calls drawn_send drawn_range)

interpretation world_draws: world_frame "node_config cfg" "drawn g" for cfg g
  by unfold_locales (auto simp: drawn_def drawn_frame(4) [unfolded drawn_def] intro: draws_trans draws_send)

end
