(* ===== verification/Test_Run.thy ===== *)
theory Test_Run
  imports Harness
begin

text \<open>
  Runs of the test harness: the invariant of the world between two events, and what it gives for
  \<open>run_once\<close>. The history is well formed, its counters are right, and a run only fails to return if a
  single event does.
\<close>

section \<open>The world between two events\<close>

definition clock_ok :: "sim_env \<Rightarrow> bool" where
  "clock_ok e \<longleftrightarrow> sm_clock (se_sim e) < 2 ^ 62 \<and> heap_sorted (eq_heap (sm_queue (se_sim e)))
     \<and> latency_ok (nw_cfg (se_net e))
     \<and> (\<forall>ev \<in> set (eq_heap (sm_queue (se_sim e))). sm_clock (se_sim e) \<le> ev_time ev)"

definition load_config :: "RunConfig \<Rightarrow> WorkloadConfig" where
  "load_config cfg = (rc_workload_cfg cfg)\<lparr>wc_total_ops := rc_total_ops cfg\<rparr>"

definition load_of :: "RunConfig \<Rightarrow> Workload \<Rightarrow> bool" where
  "load_of cfg l \<longleftrightarrow> wl_cfg l = load_config cfg \<and> length (wl_clients l) = wc_num_clients (rc_workload_cfg cfg)"

text \<open>The generator a run starts with.\<close>

definition run_gen :: "RunConfig \<Rightarrow> Prng" where
  "run_gen cfg = prng_init (rc_seed cfg)"

definition world_ok :: "RunConfig \<Rightarrow> world \<Rightarrow> bool" where
  "world_ok cfg w \<longleftrightarrow> clock_ok (w_env w) \<and> \<not> se_halted (w_env w) \<and> cfgs_ok (node_config cfg) w \<and> books_ok w
     \<and> load_of cfg (w_load w) \<and> drawn (run_gen cfg) (w_env w)"

abbreviation w_step :: "world \<Rightarrow> world run" where
  "w_step \<equiv> process_one w_sim w_set_sim exec"

abbreviation w_events :: "world \<Rightarrow> action Event multiset" where
  "w_events w \<equiv> mset (eq_heap (sm_queue (w_sim w)))"

text \<open>One event is replaced by events that are strictly later.\<close>

definition advances :: "SimTime \<Rightarrow> world \<Rightarrow> world \<Rightarrow> bool" where
  "advances t w w' \<longleftrightarrow> (\<exists>ev H N. w_events w = add_mset ev H \<and> ev_time ev = t \<and> w_events w' = N + H
     \<and> (\<forall>x \<in># N. t < ev_time x))"

lemma sim_step_head:
  assumes "sim_step s = Inr (a, s')"
  obtains e rest where "eq_heap (sm_queue s) = e # rest" "sm_clock s' = ev_time e" "eq_heap (sm_queue s') = rest"
    "sm_prng s' = sm_prng s"
  using assms by (auto simp: sim_step_def eq_pop_min_def Let_def split: list.splits if_splits)

lemma timing_clock_ok:
  assumes "timing T H e" "\<forall>ev \<in># H. T \<le> ev_time ev"
  shows "clock_ok e"
proof -
  from assms(1) obtain N where N: "mset (eq_heap (sm_queue (se_sim e))) = N + H" "\<forall>ev \<in># N. T < ev_time ev"
    by (auto simp: timing_def)
  have "T \<le> ev_time ev" if "ev \<in> set (eq_heap (sm_queue (se_sim e)))" for ev
  proof -
    have "ev \<in># N + H" using that N(1) by (metis set_mset_mset)
    with N(2) assms(2) show ?thesis by fastforce
  qed
  with assms(1) show ?thesis by (auto simp: timing_def clock_ok_def)
qed

lemma books_ok_moved:
  assumes "books_moved w w'" "w_now w' = w_now w" "books_ok w"
  shows "books_ok w'"
  using assms(1) unfolding books_moved_def
proof (elim disjE exE)
  assume "same_books w w'"
  then show ?thesis using assms(2,3) by (simp add: same_books_def books_ok_def)
qed (use assms(3) invoked_books returned_books in blast)+

lemma load_of_moved:
  assumes "books_moved w w'"
  shows "load_of cfg (w_load w') = load_of cfg (w_load w)"
  using assms unfolding books_moved_def
proof (elim disjE exE)
  fix ci assume "op_invoked ci w w'"
  then show ?thesis by (auto simp: op_invoked_def load_of_def Let_def)
next
  fix ci assume "op_returned ci w w'"
  then show ?thesis by (auto simp: op_returned_def load_of_def Let_def)
qed (simp add: same_books_def)

text \<open>The world when an event has been taken from the queue and its action is about to run.\<close>

lemma popped:
  assumes s: "sim_step (w_sim w) = Inr (a, s)" and ok: "world_ok cfg w" and d: "due D (w_sim w)" "D < 2 ^ 62"
  obtains ev H where "w_events w = add_mset ev H" "w_now w \<le> ev_time ev" "ev_time ev \<le> D"
    "\<forall>x \<in># H. ev_time ev \<le> ev_time x" "world_timing.calm (ev_time ev) H (w_set_sim s w)"
    "cfgs_ok (node_config cfg) (w_set_sim s w)" "w_now (w_set_sim s w) = ev_time ev" "books_ok (w_set_sim s w)"
    "world_draws.calm (run_gen cfg) (w_set_sim s w)"
proof -
  from s obtain e rest where heap: "eq_heap (sm_queue (w_sim w)) = e # rest" and clock: "sm_clock s = ev_time e"
    and rest: "eq_heap (sm_queue s) = rest" and prng: "sm_prng s = sm_prng (w_sim w)" by (rule sim_step_head)
  let ?w = "w_set_sim s w" and ?T = "ev_time e" and ?H = "mset rest"
  have T: "w_now w \<le> ?T" "?T \<le> D" "\<forall>x \<in># ?H. ?T \<le> ev_time x" "heap_sorted rest"
    using ok d(1) heap by (auto simp: world_ok_def clock_ok_def w_now_def w_sim_def heap_sorted_def ev_before_key word_le_nat_alt
        due_def eq_peek_time_def)
  have "?T < 2 ^ 62" using T(2) d(2) by order
  then have "timing ?T ?H (w_env ?w)"
    using ok T clock rest by (auto simp: timing_def world_ok_def clock_ok_def w_set_sim_def intro!: exI [of _ "{#}"])
  then have "world_timing.calm ?T ?H ?w" "cfgs_ok (node_config cfg) ?w" and now: "w_now ?w = ?T"
    using ok clock unfolding world_timing.calm_def by (auto simp: world_ok_def w_set_sim_def cfgs_ok_def w_now_def w_sim_def)
  moreover have "books_ok ?w"
    using ok T(1) now by (auto simp: world_ok_def books_ok_def w_set_sim_def intro: hist_ok_later)
  moreover have "world_draws.calm (run_gen cfg) ?w"
    using ok prng unfolding world_draws.calm_def by (simp add: world_ok_def drawn_def w_set_sim_def w_sim_def)
  ultimately show ?thesis using that [of e ?H] T heap by simp
qed

lemma step_ok:
  assumes step: "w_step w = Some (Inr w')" and ok: "world_ok cfg w" and d: "due D (w_sim w)" "D < 2 ^ 62"
  shows "world_ok cfg w' \<and> w_now w \<le> w_now w' \<and> w_now w' \<le> D \<and> advances (w_now w') w w'"
proof -
  from step obtain a s where s: "sim_step (w_sim w) = Inr (a, s)"
    and w': "(case a of None \<Rightarrow> Some (Inr (w_set_sim s w)) | Some act \<Rightarrow> exec act (w_set_sim s w)) = Some (Inr w')"
    by (auto simp: process_one_def split: sum.splits)
  let ?w = "w_set_sim s w"
  from s ok d obtain e H where heap: "w_events w = add_mset e H" and T: "w_now w \<le> ev_time e" "ev_time e \<le> D"
    and H: "\<forall>x \<in># H. ev_time e \<le> ev_time x" and calm: "world_timing.calm (ev_time e) H ?w"
    and cfgs: "cfgs_ok (node_config cfg) ?w" and now: "w_now ?w = ev_time e" and books: "books_ok ?w"
    and drawn: "world_draws.calm (run_gen cfg) ?w" by (rule popped)
  have "world_timing.calm (ev_time e) H w' \<and> books_moved ?w w'"
    using w' world_timing.exec_step [OF _ calm cfgs] calm by (auto simp: books_moved_def split: option.splits)
  then have t': "timing (ev_time e) H (w_env w')" "\<not> se_halted (w_env w')" and moved: "books_moved ?w w'"
    unfolding world_timing.calm_def by simp_all
  have now': "w_now w' = ev_time e" using t'(1) by (simp add: timing_def w_now_def w_sim_def)
  have "load_of cfg (w_load w')" using load_of_moved [OF moved] ok by (simp add: world_ok_def w_set_sim_def)
  moreover have "world_draws.calm (run_gen cfg) w'"
    using w' world_draws.exec_step [OF _ drawn cfgs] drawn by (auto split: option.splits)
  then have "drawn (run_gen cfg) (w_env w')" unfolding world_draws.calm_def by simp
  ultimately have "world_ok cfg w'"
    using timing_clock_ok [OF t'(1) H] t'(2) books_moved_cfgs [OF moved] cfgs books_ok_moved [OF moved _ books] now now'
    by (simp add: world_ok_def)
  moreover have "advances (ev_time e) w w'"
    using heap t'(1) by (auto simp: advances_def timing_def w_sim_def)
  ultimately show ?thesis using T now' by simp
qed

section \<open>The loops\<close>

lemma not_due:
  assumes "\<not> due D s" "heap_sorted (eq_heap (sm_queue s))" "ev \<in> set (eq_heap (sm_queue s))"
  shows "D < ev_time ev"
proof (cases "eq_heap (sm_queue s)")
  case (Cons e rest)
  then have "D < ev_time e" using assms(1) by (auto simp: due_def eq_peek_time_def eq_empty_def)
  moreover have "ev_time e \<le> ev_time ev"
    using assms(2,3) Cons by (auto simp: heap_sorted_def ev_before_key word_le_nat_alt)
  ultimately show ?thesis by order
qed (use assms in simp)

lemma run_for_ok:
  assumes run: "w_run_for dur w = Some (Inr w')" and ok: "world_ok cfg w"
    and d: "w_now w \<le> w_now w + dur" "w_now w + dur < 2 ^ 62"
  shows "world_ok cfg w' \<and> w_now w' = w_now w + dur"
proof -
  let ?D = "w_now w + dur"
  have D: "sm_clock (w_sim w) + dur = ?D" by (simp add: w_now_def)
  define Q where "Q v \<longleftrightarrow> world_ok cfg v \<and> w_now v \<le> ?D" for v
  have "Q w'"
  proof (rule tw.run_for_invariant [where Q = Q, OF run], unfold D)
    show "Q w" using ok d by (simp add: Q_def)
  next
    fix v v' assume "Q v" "due ?D (w_sim v)" "w_step v = Some (Inr v')"
    then show "Q v'" using step_ok d(2) unfolding Q_def by blast
  next
    fix v assume v: "Q v" "\<not> due ?D (w_sim v)"
    then have sorted: "heap_sorted (eq_heap (sm_queue (w_sim v)))" by (simp add: Q_def world_ok_def clock_ok_def w_sim_def)
    have "\<forall>ev \<in> set (eq_heap (sm_queue (w_sim v))). ?D \<le> ev_time ev"
      using not_due [OF v(2) sorted] by (auto intro: less_imp_le)
    with v(1) d(2) have "clock_ok (w_env (w_set_sim ((w_sim v)\<lparr>sm_clock := ?D\<rparr>) v))"
      by (auto simp: Q_def world_ok_def clock_ok_def w_sim_def w_set_sim_def)
    with v(1) show "Q (w_set_sim ((w_sim v)\<lparr>sm_clock := ?D\<rparr>) v)"
      by (auto simp: Q_def world_ok_def books_ok_def cfgs_ok_def w_set_sim_def w_now_def w_sim_def drawn_def intro: hist_ok_later)
  qed
  moreover have "w_now w' = ?D" using tw.run_for_clock [OF run] by (simp add: w_now_def)
  ultimately show ?thesis by (simp add: Q_def)
qed

lemma run_slices_invariant:
  assumes "run_slices D w = Some (Inr w')" "Q w"
    and "\<And>v v'. Q v \<Longrightarrow> \<not> wl_done (w_load v) \<Longrightarrow> w_now v < D \<Longrightarrow> w_run_for (100 * kMsec) v = Some (Inr v') \<Longrightarrow> Q v'"
  shows "Q w' \<and> (wl_done (w_load w') \<or> \<not> w_now w' < D)"
proof -
  define S where "S d v r \<longleftrightarrow> (d = D \<longrightarrow> Q v \<longrightarrow> (\<forall>u. r = Inr u \<longrightarrow> Q u \<and> (wl_done (w_load u) \<or> \<not> w_now u < D)))"
    for d v and r :: "exn + world"
  have "S D w (Inr w')"
  proof (rule run_slices.raw_induct [OF _ assms(1)])
    fix rs d v r
    assume IH: "\<And>d v r. rs d v = Some r \<Longrightarrow> S d v r"
      and body: "(if \<not> wl_done (w_load v) \<and> w_now v < d then case w_run_for (100 * kMsec) v of None \<Rightarrow> None
          | Some (Inl e) \<Rightarrow> Some (Inl e) | Some (Inr w) \<Rightarrow> rs d w else Some (Inr v)) = Some r"
    show "S d v r"
    proof (cases "\<not> wl_done (w_load v) \<and> w_now v < d")
      case True
      with body consider e where "r = Inl e" | u where "w_run_for (100 * kMsec) v = Some (Inr u)" "rs d u = Some r"
        by (auto split: option.splits sum.splits)
      then show ?thesis
      proof cases
        case 2
        from IH [OF 2(2)] show ?thesis using assms(3) [OF _ _ _ 2(1)] True unfolding S_def by blast
      qed (simp add: S_def)
    next
      case False
      with body have "r = Inr v" by simp
      with False show ?thesis by (auto simp: S_def)
    qed
  qed
  with assms(2) show ?thesis unfolding S_def by blast
qed

lemma slice_bounds:
  assumes "w_now v < D" "D < 2 ^ 61"
  shows "w_now v \<le> w_now v + 100 * kMsec" "w_now v + 100 * kMsec < 2 ^ 62" "w_now v < w_now v + 100 * kMsec"
proof -
  have "unat (w_now v) < 2 ^ 61" using assms by (simp add: word_less_nat_alt)
  then show "w_now v \<le> w_now v + 100 * kMsec" "w_now v + 100 * kMsec < 2 ^ 62" "w_now v < w_now v + 100 * kMsec"
    by (simp_all add: kMsec_def word_less_nat_alt word_le_nat_alt unat_word_ariths)
qed

lemma run_slices_ok:
  assumes run: "run_slices D w = Some (Inr w')" and ok: "world_ok cfg w" and D: "D < 2 ^ 61"
  shows "world_ok cfg w' \<and> (wl_done (w_load w') \<or> D \<le> w_now w')"
proof -
  have "world_ok cfg v'" if "world_ok cfg v" "w_now v < D" "w_run_for (100 * kMsec) v = Some (Inr v')" for v v'
    using run_for_ok [OF that(3,1)] slice_bounds [OF that(2) D] by blast
  then show ?thesis using run_slices_invariant [where Q = "world_ok cfg", OF run ok] by (auto simp: not_less)
qed

section \<open>A whole run\<close>

text \<open>
  Configurations for which times stay in range: latencies, think times and fault durations are positive and
  below \<open>2^62\<close> microseconds, and so is the start of the last client.
\<close>

definition run_cfg_ok :: "RunConfig \<Rightarrow> bool" where
  "run_cfg_ok cfg \<longleftrightarrow> latency_ok (rc_net_cfg cfg) \<and> load_cfg_ok (rc_workload_cfg cfg) \<and> fault_cfg_ok (rc_fault_cfg cfg)
     \<and> wc_num_clients (rc_workload_cfg cfg) * unat (wc_think_time (rc_workload_cfg cfg)) < 2 ^ 62"

lemma clock_ok_schedule:
  assumes "clock_ok e" "d < 2 ^ 62"
  shows "clock_ok (snd (env_schedule d a e))"
proof -
  let ?t = "sm_clock (se_sim e)"
  have "unat ?t < 2 ^ 62" "unat d < 2 ^ 62" using assms by (simp_all add: clock_ok_def word_less_nat_alt)
  then have "?t \<le> ?t + d" by (simp add: word_le_nat_alt unat_word_ariths)
  with assms(1) show ?thesis
    by (auto simp: clock_ok_def env_schedule_def Let_def split_def sim_schedule_def heap_push_sorted)
qed

lemma world_ok_frame:
  assumes "world_ok cfg w" "same_books w w'" "w_now w' = w_now w" "clock_ok (w_env w')" "\<not> se_halted (w_env w')"
    "drawn (run_gen cfg) (w_env w')"
  shows "world_ok cfg w'"
proof -
  have "books_ok w'" "load_of cfg (w_load w')" using assms(1-3) by (simp_all add: world_ok_def same_books_def books_ok_def)
  then show ?thesis using assms cfgs_ok_books [OF assms(2)] by (simp add: world_ok_def)
qed

lemma world_ok_schedule:
  assumes "world_ok cfg w" "d < 2 ^ 62"
  shows "world_ok cfg (snd (w_schedule d a w))"
proof -
  have e: "env_only w (snd (w_schedule d a w))" by (rule env_only_calls)
  then show ?thesis
    using assms world_ok_frame [OF assms(1) env_only_books [OF e]]
    by (simp add: env_only_def world_ok_def clock_ok_schedule) (simp add: env_schedule_def Let_def split_def)
qed

lemma world_ok_net:
  assumes "world_ok cfg w" "nw_cfg (f (se_net (w_env w))) = nw_cfg (se_net (w_env w))"
  shows "world_ok cfg (w_set_net f w)"
proof -
  have e: "env_only w (w_set_net f w)" by (rule env_only_set)
  then show ?thesis
    using assms world_ok_frame [OF assms(1) env_only_books [OF e]] by (simp add: env_only_def world_ok_def clock_ok_def)
qed

lemma start_client_ok:
  assumes ok: "world_ok cfg w" and i: "unat (wc_think_time (wl_cfg (w_load w))) * i < 2 ^ 62"
  shows "world_ok cfg (start_client i w) \<and> w_load (start_client i w) = w_load w"
proof -
  let ?w = "w_set_net (net_set_handler (kClientIdBase + of_nat i) (ClientHandler i)) w"
  let ?t = "wc_think_time (wl_cfg (w_load w))"
  have w: "world_ok cfg ?w" using ok by (rule world_ok_net) (simp add: net_set_handler_def)
  have t: "0 < unat ?t" using ok by (simp add: world_ok_def cfgs_ok_def load_cfg_ok_def short_def word_less_nat_alt)
  have "i \<le> unat ?t * i" using t by (cases "unat ?t") simp_all
  then have "i < 2 ^ 62" using i by linarith
  then have "unat (?t * of_nat i) = unat ?t * i" using i by (simp add: unat_word_ariths unat_of_nat_64)
  then have "?t * of_nat i < 2 ^ 62" using i by (simp add: word_less_nat_alt)
  moreover have "w_load ?w = w_load w" by (simp add: w_set_net_def)
  ultimately show ?thesis
    using world_ok_schedule [OF w] env_only_calls(1) [of ?w] by (simp add: start_client_def Let_def env_only_def)
qed

lemma wl_start_ok:
  assumes ok: "world_ok cfg w"
    and n: "wc_num_clients (wl_cfg (w_load w)) * unat (wc_think_time (wl_cfg (w_load w))) < 2 ^ 62"
  shows "world_ok cfg (wl_start w) \<and> w_load (wl_start w) = w_load w"
proof -
  have "world_ok cfg (fold start_client js v) \<and> w_load (fold start_client js v) = w_load v"
    if "world_ok cfg v" "\<forall>j \<in> set js. unat (wc_think_time (wl_cfg (w_load v))) * j < 2 ^ 62" for js v
    using that start_client_ok by (induction js arbitrary: v) auto
  moreover have "unat (wc_think_time (wl_cfg (w_load w))) * j < 2 ^ 62" if "j < wc_num_clients (wl_cfg (w_load w))" for j
  proof -
    have "unat (wc_think_time (wl_cfg (w_load w))) * j \<le> wc_num_clients (wl_cfg (w_load w)) * unat (wc_think_time (wl_cfg (w_load w)))"
      using that by (simp add: mult.commute)
    with n show ?thesis by linarith
  qed
  ultimately show ?thesis using ok by (simp add: wl_start_def)
qed

lemma world_ok_fault:
  "fi_cfg f = fi_cfg (w_fault w) \<Longrightarrow> world_ok cfg w \<Longrightarrow> world_ok cfg (w\<lparr>w_fault := f\<rparr>)"
  by (rule world_ok_frame [of cfg w]) (simp_all add: same_books_def world_ok_def)

lemma fi_start_ok:
  assumes "world_ok cfg w"
  shows "world_ok cfg (fi_start w) \<and> w_load (fi_start w) = w_load w"
proof -
  let ?w = "w\<lparr>w_fault := (w_fault w)\<lparr>fi_running := True\<rparr>\<rparr>"
  let ?v = "snd (w_schedule (fc_check_interval (fi_cfg (w_fault ?w))) FaultTick ?w)"
  have w: "world_ok cfg ?w" by (rule world_ok_fault) (simp_all add: assms)
  then have "world_ok cfg ?v"
    by (rule world_ok_schedule) (use w in \<open>simp add: world_ok_def cfgs_ok_def fault_cfg_ok_def short_def\<close>)
  moreover have "w_load ?v = w_load w" using env_only_calls(1) [of ?w] by (simp add: env_only_def)
  ultimately show ?thesis
    by (simp add: fi_start_def schedule_tick_def Let_def split_def world_ok_fault)
qed

lemma fi_stop_ok:
  assumes "world_ok cfg w"
  shows "world_ok cfg (fi_stop w) \<and> w_load (fi_stop w) = w_load w \<and> w_history (fi_stop w) = w_history w
    \<and> w_now (fi_stop w) = w_now w"
proof -
  let ?w = "w\<lparr>w_fault := (w_fault w)\<lparr>fi_running := False\<rparr>\<rparr>"
  have w: "world_ok cfg ?w" by (rule world_ok_fault) (simp_all add: assms)
  have e: "env_only ?w (w_cancel i ?w)" for i by (rule env_only_calls)
  have "world_ok cfg (w_cancel i ?w)" for i
    using w by (rule world_ok_frame) (use w e [of i] env_only_books in \<open>auto simp: env_only_def world_ok_def clock_ok_def\<close>)
  with e show ?thesis by (simp add: fi_stop_def Let_def env_only_def)
qed

lemma wl_init_fields:
  assumes "wl_init ids c = Inr load"
  shows "wl_cfg load = c" "length (wl_clients load) = wc_num_clients c" "wl_ops_issued load = 0" "wl_ops_completed load = 0"
    "wl_pending load = 0" "\<forall>cs \<in> set (wl_clients load). \<not> cs_waiting cs \<and> cs_next_request_id cs = 0"
  using assms by (auto simp: wl_init_def split: if_splits)

lemma clients_bounded: "run_cfg_ok cfg \<Longrightarrow> wc_num_clients (rc_workload_cfg cfg) < 2 ^ 62"
proof -
  assume c: "run_cfg_ok cfg"
  let ?n = "wc_num_clients (rc_workload_cfg cfg)" and ?t = "unat (wc_think_time (rc_workload_cfg cfg))"
  have "0 < ?t" using c by (simp add: run_cfg_ok_def load_cfg_ok_def short_def word_less_nat_alt)
  then have "?n \<le> ?n * ?t" by simp
  moreover have "?n * ?t < 2 ^ 62" using c by (simp add: run_cfg_ok_def)
  ultimately show ?thesis by linarith
qed

lemma initial_books:
  assumes "wl_init ids c = Inr load" "wc_num_clients c < 2 ^ 62" "w_history w = []" "w_load w = load"
  shows "books_ok w"
proof -
  note l = wl_init_fields [OF assms(1)]
  have "\<not> cs_waiting (wl_clients load ! i)" "cs_next_request_id (wl_clients load ! i) = 0" if "i < wc_num_clients c" for i
    using that l(2,6) by simp_all
  then have "client_ok i (wl_clients load ! i) []" "i \<notin> waiting (wl_clients load)" if "i < wc_num_clients c" for i
    using that by (simp_all add: client_ok_def pend_of_def req_ids_def waiting_def)
  moreover have "waiting (wl_clients load) \<subseteq> {..<wc_num_clients c}" using l(2) by (auto simp: waiting_def)
  ultimately have "\<forall>i < wc_num_clients c. client_ok i (wl_clients load ! i) []" "waiting (wl_clients load) = {}" by auto
  then show ?thesis
    using l(1-5) assms(2-4) by (simp add: books_ok_def hist_ok_def clients_ok_def counts_ok_def)
qed

lemma initial_ok:
  assumes "wl_init (all_ids cfg) (load_config cfg) = Inr load" "run_cfg_ok cfg"
  shows "world_timing.calm 0 {#} (initial_world cfg load) \<and> world_draws.calm (run_gen cfg) (initial_world cfg load)" "cfgs_ok (node_config cfg) (initial_world cfg load)"
    "books_ok (initial_world cfg load)" "w_now (initial_world cfg load) = 0" "load_of cfg (w_load (initial_world cfg load))"
proof -
  show "load_of cfg (w_load (initial_world cfg load))"
    using wl_init_fields [OF assms(1)] by (simp add: load_of_def initial_world_def Let_def load_config_def)
  show "world_timing.calm 0 {#} (initial_world cfg load) \<and> world_draws.calm (run_gen cfg) (initial_world cfg load)"
    using assms(2) unfolding world_timing.calm_def world_draws.calm_def
    by (simp add: drawn_def run_gen_def timing_def initial_world_def sim_env_init_def sim_init_def eq_empty_queue_def heap_sorted_def
        network_init_def run_cfg_ok_def Let_def)
  show "cfgs_ok (node_config cfg) (initial_world cfg load)"
    using assms(2) wl_init_fields(1) [OF assms(1)]
    by (auto simp: cfgs_ok_def initial_world_def build_nodes_def raft_node_init_def Let_def run_cfg_ok_def fi_init_def
        load_cfg_ok_def fault_cfg_ok_def load_config_def)
  show "books_ok (initial_world cfg load)"
    using clients_bounded [OF assms(2)]
    by (intro initial_books [OF assms(1)]) (simp_all add: initial_world_def Let_def load_config_def)
  show "w_now (initial_world cfg load) = 0"
    by (simp add: initial_world_def Let_def w_now_def w_sim_def sim_env_init_def sim_init_def)
qed

lemma start_nodes_ok:
  assumes "start_nodes js w = Some (Inr w')" "world_timing.calm T H w \<and> world_draws.calm g w" "cfgs_ok (node_config cfg) w"
  shows "(world_timing.calm T H w' \<and> world_draws.calm g w') \<and> same_books w w'"
  using assms
proof (induction js arbitrary: w)
  case (Cons j js)
  from Cons.prems(1) obtain w1 where w1: "on_node_at j (nd_start sim_iface) w = Some (Inr w1)" "start_nodes js w1 = Some (Inr w')"
    by (auto simp: bindX_eq_ret)
  have "world_timing.calm T H w1 \<and> world_draws.calm g w1" "same_books w w1"
    using world_timing.node_steps(3) [OF w1(1) _ Cons.prems(3)] world_draws.node_steps(3) [OF w1(1) _ Cons.prems(3)] Cons.prems(2) by blast+
  with Cons.IH [OF w1(2)] Cons.prems(3) show ?case using cfgs_ok_books same_books_trans by blast
qed simp

lemma calm_world_ok:
  assumes "world_timing.calm T {#} w \<and> world_draws.calm (run_gen cfg) w" "cfgs_ok (node_config cfg) w" "books_ok w" "load_of cfg (w_load w)"
  shows "world_ok cfg w"
  using assms timing_clock_ok [of T "{#}" "w_env w"] unfolding world_timing.calm_def world_draws.calm_def by (simp add: world_ok_def)

lemma start_client_env_only: "env_only w (start_client i w)"
  unfolding start_client_def Let_def by (rule env_only_trans [OF env_only_set(2) env_only_calls(1)])

lemma start_now: "w_now (wl_start w) = w_now w" "w_now (fi_start w) = w_now w"
proof -
  have "w_now (fold start_client js w) = w_now w" for js
    using start_client_env_only by (induction js arbitrary: w) (auto simp: env_only_def)
  then show "w_now (wl_start w) = w_now w" by (simp add: wl_start_def)
  have "w_now (snd (w_schedule d a v)) = w_now v" for d a v using env_only_calls(1) by (simp add: env_only_def)
  then show "w_now (fi_start w) = w_now w" by (simp add: fi_start_def schedule_tick_def Let_def split_def)
qed

text \<open>The three parts of a run: the nodes start, the cluster settles for a second, the load runs.\<close>

lemma nodes_started:
  assumes "wl_init (all_ids cfg) (load_config cfg) = Inr load" "run_cfg_ok cfg"
    and "start_nodes [0..<rc_num_nodes cfg] (initial_world cfg load) = Some (Inr w)"
  shows "world_ok cfg w \<and> w_now w = 0"
proof -
  note i = initial_ok [OF assms(1,2)]
  have s: "world_timing.calm 0 {#} w \<and> world_draws.calm (run_gen cfg) w" "same_books (initial_world cfg load) w" using start_nodes_ok [OF assms(3) i(1,2)] by simp_all
  have now: "w_now w = 0" using s(1) unfolding world_timing.calm_def by (simp add: timing_def w_now_def w_sim_def)
  have "books_ok w" "load_of cfg (w_load w)" using i(3-5) s(2) now by (simp_all add: books_ok_def same_books_def)
  then have "world_ok cfg w" using s(1) cfgs_ok_books [OF s(2)] i(2) by (intro calm_world_ok [of 0]) simp_all
  with now show ?thesis by simp
qed

lemma settled:
  assumes "w_run_for (1 * kSec) w = Some (Inr v)" "world_ok cfg w" "w_now w = 0"
  shows "world_ok cfg v \<and> w_now v = 1 * kSec"
  using run_for_ok [OF assms(1,2)] by (simp add: assms(3) kSec_def)

lemma load_started:
  assumes "world_ok cfg w" "w_now w = 1 * kSec" "run_cfg_ok cfg"
  shows "world_ok cfg (fi_start (wl_start w)) \<and> w_now (fi_start (wl_start w)) + kMaxRunTime = 121 * kSec"
proof -
  have "wl_cfg (w_load w) = load_config cfg" using assms(1) by (simp add: world_ok_def load_of_def)
  then have "world_ok cfg (wl_start w)"
    using wl_start_ok [OF assms(1)] assms(3) by (simp add: run_cfg_ok_def load_config_def)
  then show ?thesis using fi_start_ok assms(2) by (simp add: start_now kMaxRunTime_def kSec_def)
qed

lemma deadline_bound: "121 * kSec < 2 ^ 61"
  by (simp add: kSec_def)

lemma run_world_ok:
  assumes run: "run_world cfg = Some (Inr w)" and c: "run_cfg_ok cfg"
  shows "world_ok cfg w \<and> (wl_done (w_load w) \<or> 121 * kSec \<le> w_now w)"
proof -
  from run obtain load w1 w2 w4 where load: "wl_init (all_ids cfg) (load_config cfg) = Inr load"
    and w1: "start_nodes [0..<rc_num_nodes cfg] (initial_world cfg load) = Some (Inr w1)"
    and w2: "w_run_for (1 * kSec) w1 = Some (Inr w2)"
    and w4: "run_slices (w_now (fi_start (wl_start w2)) + kMaxRunTime) (fi_start (wl_start w2)) = Some (Inr w4)"
    and w: "w = fi_stop w4"
    by (auto simp: run_world_def bindX_eq_ret Let_def load_config_def split: sum.splits)
  have ok1: "world_ok cfg w1" "w_now w1 = 0" using nodes_started [OF load c w1] by simp_all
  have ok2: "world_ok cfg w2" "w_now w2 = 1 * kSec" using settled [OF w2 ok1] by simp_all
  have ok3: "world_ok cfg (fi_start (wl_start w2))" "w_now (fi_start (wl_start w2)) + kMaxRunTime = 121 * kSec"
    using load_started [OF ok2 c] by simp_all
  have "world_ok cfg w4 \<and> (wl_done (w_load w4) \<or> 121 * kSec \<le> w_now w4)"
    using w4 [unfolded ok3(2)] ok3(1) deadline_bound by (rule run_slices_ok)
  then show ?thesis using fi_stop_ok [of cfg w4] by (simp add: w)
qed

section \<open>Termination\<close>

text \<open>
  The loop up to a deadline ends: each event is replaced by finitely many later ones, so the multiset of the
  distances to the deadline of the events that are due decreases in the multiset order.
\<close>

inductive w_reach :: "SimTime \<Rightarrow> world \<Rightarrow> world \<Rightarrow> bool" for D where
  refl: "w_reach D w w"
| step: "due D (w_sim w) \<Longrightarrow> w_step w = Some (Inr v) \<Longrightarrow> w_reach D v u \<Longrightarrow> w_reach D w u"

definition distances :: "SimTime \<Rightarrow> action Event multiset \<Rightarrow> nat multiset" where
  "distances D H = image_mset (\<lambda>ev. unat D - unat (ev_time ev)) (filter_mset (\<lambda>ev. ev_time ev \<le> D) H)"

lemma advances_distances:
  assumes "advances t w w'" "t \<le> D"
  shows "(distances D (w_events w'), distances D (w_events w)) \<in> mult less_than"
proof -
  from assms(1) obtain ev H N where w: "w_events w = add_mset ev H" "ev_time ev = t" and w': "w_events w' = N + H"
    and N: "\<forall>x \<in># N. t < ev_time x" by (auto simp: advances_def)
  have "distances D (w_events w) = distances D H + {#unat D - unat t#}" "distances D (w_events w') = distances D H + distances D N"
    using w w' assms(2) by (simp_all add: distances_def)
  moreover have "(distances D H + distances D N, distances D H + {#unat D - unat t#}) \<in> mult less_than"
  proof (rule one_step_implies_mult)
    show "\<forall>k \<in> set_mset (distances D N). \<exists>j \<in> set_mset {#unat D - unat t#}. (k, j) \<in> less_than"
      using N by (auto simp: distances_def word_less_nat_alt word_le_nat_alt)
  qed simp
  ultimately show ?thesis by simp
qed

lemma run_due_returns:
  assumes "world_ok cfg w" "D < 2 ^ 62" "\<forall>v. w_reach D w v \<and> due D (w_sim v) \<longrightarrow> w_step v \<noteq> None"
  shows "run_due w_sim w_set_sim exec D w \<noteq> None"
  using assms(1,3)
proof (induction "distances D (w_events w)" arbitrary: w rule: wf_induct_rule [OF wf_mult [OF wf_less_than]])
  case 1
  show ?case
  proof (cases "due D (w_sim w)")
    case True
    then have "w_step w \<noteq> None" using 1(3) w_reach.refl by blast
    then consider e where "w_step w = Some (Inl e)" | v where "w_step w = Some (Inr v)"
      by (metis not_None_eq sum.exhaust)
    then show ?thesis
    proof cases
      case (2 v)
      have v: "world_ok cfg v" "w_now v \<le> D" "advances (w_now v) w v" using step_ok [OF 2 1(2) True assms(2)] by simp_all
      have "run_due w_sim w_set_sim exec D v \<noteq> None"
        using 1(1) [OF advances_distances [OF v(3,2)] v(1)] 1(3) w_reach.step [OF True 2] by blast
      then show ?thesis using True 2 by (subst run_due.simps) simp
    qed (use True in \<open>subst run_due.simps, simp\<close>)
  qed (subst run_due.simps, simp)
qed

text \<open>
  What can keep a single event from returning: only a draw from the generator whose rejection loop
  never accepts.
\<close>

definition draw_stuck :: "Prng \<Rightarrow> bool" where
  "draw_stuck g \<longleftrightarrow> (\<exists>lo hi p. draws g p \<and> prng_range lo hi p = None)"

lemma bindX_eq_none: "bindX r f = None \<longleftrightarrow> r = None \<or> (\<exists>x. r = Some (Inr x) \<and> f x = None)"
  by (auto simp: bindX_def split: option.splits sum.splits)

lemma stuck_range:
  "draws g (sm_prng s) \<Longrightarrow> sim_random_range lo hi s = None \<Longrightarrow> draw_stuck g"
  "world_draws.calm g w \<Longrightarrow> w_range lo hi w = None \<Longrightarrow> draw_stuck g"
  unfolding world_draws.calm_def
  by (auto simp: draw_stuck_def sim_random_range_def w_range_def bindX_eq_none drawn_def w_sim_def)

lemma stuck_shuffle_loop: "shuffle_loop i v p = None \<Longrightarrow> draws g p \<Longrightarrow> draw_stuck g"
proof (induction i v p rule: shuffle_loop.induct)
  case (1 i v p)
  from "1.prems"(1) have i: "i > 1" and r: "prng_range 0 (of_nat i) p = None
      \<or> (\<exists>j q. prng_range 0 (of_nat i) p = Some (Inr (j, q)) \<and> shuffle_loop (i - 1) (list_swap (unat j) (i - 1) v) q = None)"
    unfolding shuffle_loop.simps [of i v p] by (auto simp: bindX_eq_none split: if_splits)
  from r show ?case
  proof (elim disjE exE conjE)
    fix j q assume q: "prng_range 0 (of_nat i) p = Some (Inr (j, q))" "shuffle_loop (i - 1) (list_swap (unat j) (i - 1) v) q = None"
    show ?case using "1.IH" [OF i q(2)] draws_trans [OF "1.prems"(2) draws_range [OF q(1)]] by blast
  qed (use "1.prems"(2) in \<open>auto simp: draw_stuck_def\<close>)
qed

lemma stuck_shuffle: "world_draws.calm g w \<Longrightarrow> w_shuffle ids w = None \<Longrightarrow> draw_stuck g"
  unfolding world_draws.calm_def
  by (auto simp: w_shuffle_def bindX_eq_none prng_shuffle_def drawn_def w_sim_def intro: stuck_shuffle_loop)

lemma stuck_copy: "draws g (sm_prng s) \<Longrightarrow> send_copy mk n f dst p s = None \<Longrightarrow> draw_stuck g"
  by (auto simp: send_copy_def bindX_eq_none dest: stuck_range(1) split: option.splits)

lemma stuck_send:
  assumes "draws g (sm_prng s)" "net_send mk n f dst p s = None"
  shows "draw_stuck g"
proof -
  let ?b = "sim_bernoulli (nc_drop_prob (nw_cfg n)) s"
  from assms(2) consider "send_copy mk n f dst p (snd ?b) = None"
    | s1 where "send_copy mk n f dst p (snd ?b) = Some (Inr s1)"
        "send_copy mk n f dst p (snd (sim_bernoulli (nc_dup_prob (nw_cfg n)) s1)) = None"
    by (auto simp: net_send_def Let_def split_def bindX_eq_none split: if_splits)
  then show ?thesis
  proof cases
    case 1
    then show ?thesis using stuck_copy draws_trans [OF assms(1) draws_sim(1)] by blast
  next
    case 2
    then show ?thesis
      using stuck_copy draws_trans [OF draws_trans [OF draws_trans [OF assms(1) draws_sim(1)] draws_copy [OF 2(1)]] draws_sim(1)] by blast
  qed
qed

lemma stuck_w_send: "world_draws.calm g w \<Longrightarrow> w_send f dst p w = None \<Longrightarrow> draw_stuck g"
  unfolding world_draws.calm_def
  by (auto simp: w_send_def bindX_eq_none drawn_def w_sim_def dest: stuck_send)

lemma range_ordered: "lo < hi \<Longrightarrow> sim_random_range lo hi s \<noteq> Some (Inl e)"
  by (auto simp: sim_random_range_def prng_range_def bindX_def Let_def split_def split: option.splits sum.splits if_splits)

lemma send_ordered:
  fixes s :: "'c Simulator"
  assumes "latency_ok (nw_cfg n)"
  shows "net_send mk n f dst p s \<noteq> Some (Inl e)"
proof -
  let ?lo = "nc_min_latency (nw_cfg n)" and ?hi = "nc_max_latency (nw_cfg n)"
  have "unat ?lo \<le> unat ?hi" "unat ?hi < 2 ^ 62"
    using assms by (simp_all add: latency_ok_def word_less_nat_alt word_le_nat_alt)
  then have "?lo < ?hi + 1" by (simp add: word_less_nat_alt unat_word_ariths)
  then have "send_copy mk n f dst p s \<noteq> Some (Inl e)" for s :: "'c Simulator" and e
    by (auto simp: send_copy_def bindX_def range_ordered split: option.splits sum.splits)
  then show ?thesis by (auto simp: net_send_def bindX_def Let_def split_def split: option.splits sum.splits if_splits)
qed

text \<open>The nodes' share, once more through \<open>env_frame\<close>.\<close>

definition unstuck :: "Prng \<Rightarrow> sim_env \<Rightarrow> bool" where
  "unstuck g e \<longleftrightarrow> latency_ok (nw_cfg (se_net e)) \<and> drawn g e \<and> (se_halted e \<longrightarrow> draw_stuck g)"

lemma unstuck_frame [simp]:
  "unstuck g (e\<lparr>se_trace := tr\<rparr>) = unstuck g e" "unstuck g (e\<lparr>se_sim := sim_cancel ev (se_sim e)\<rparr>) = unstuck g e"
  "unstuck g (e\<lparr>se_net := net_set_handler i h (se_net e)\<rparr>) = unstuck g e"
  "unstuck g (e\<lparr>se_net := net_remove_handler i (se_net e)\<rparr>) = unstuck g e"
  by (simp_all add: unstuck_def net_set_handler_def net_remove_handler_def)

lemma unstuck_schedule: "unstuck g e \<Longrightarrow> unstuck g (snd (env_schedule d a e))"
  by (simp add: unstuck_def) (simp add: env_schedule_def Let_def split_def)

lemma unstuck_send: "unstuck g e \<Longrightarrow> unstuck g (env_send f dst p e)"
proof (cases "net_send Deliver (se_net e) f dst p (se_sim e)")
  case None
  then show "unstuck g e \<Longrightarrow> ?thesis" by (auto simp: env_send_def unstuck_def drawn_def dest: stuck_send)
next
  case (Some r)
  assume u: "unstuck g e"
  then obtain s where "r = Inr s" using send_ordered [of "se_net e" Deliver f dst p "se_sim e"] Some by (cases r) (auto simp: unstuck_def)
  with u Some drawn_send [of g e f dst p] show ?thesis by (simp add: env_send_def unstuck_def)
qed

lemma unstuck_range:
  assumes "unstuck g e" "lo < hi"
  shows "unstuck g (snd (env_range lo hi e))"
proof (cases "sim_random_range lo hi (se_sim e)")
  case None
  then show ?thesis using assms(1) stuck_range(1) by (auto simp: env_range_def unstuck_def drawn_def)
next
  case (Some r)
  then obtain v s where "r = Inr (v, s)" using range_ordered [OF assms(2)] by (cases r) auto
  with assms(1) Some drawn_range [of g e lo hi] show ?thesis by (simp add: env_range_def unstuck_def)
qed

interpretation node_unstuck: env_frame sim_iface i "node_config cfg" "unstuck g" for i cfg g
proof (unfold_locales, goal_cases)
  case (3 e gen)
  have "unstuck g (snd (env_range 150000 (2 * 150000 + 1) e))" by (rule unstuck_range [OF 3]) simp
  then show ?case unfolding node_delays(1) by (simp add: sim_iface_def unstuck_schedule)
qed (auto simp: sim_iface_def env_record_def unstuck_schedule unstuck_send)

lemma stuck_node:
  assumes step: "on_node_at j f w = None" and w: "world_timing.calm T H w \<and> world_draws.calm g w" "cfgs_ok (node_config cfg) w"
    and f: "\<And>n. node_unstuck.holds (nd_id (w_nodes w ! j)) cfg g n \<Longrightarrow> ends (node_unstuck.holds (nd_id (w_nodes w ! j)) cfg g) (f n)"
  shows "draw_stuck g"
proof -
  let ?n = "(w_nodes w ! j)\<lparr>nd_env := w_env w\<rparr>"
  from step obtain n where j: "j < length (w_nodes w)" and n: "f ?n = Ret n \<or> (\<exists>e. f ?n = Raise e n)" "se_halted (nd_env n)"
    by (auto simp: on_node_at_def split: if_splits outcome.splits)
  have "nd_cfg (w_nodes w ! j) = node_config cfg" using w(2) j by (force simp: cfgs_ok_def)
  moreover have "unstuck g (w_env w)" using w(1) unfolding world_timing.calm_def world_draws.calm_def by (simp add: unstuck_def timing_def)
  ultimately have "ends (node_unstuck.holds (nd_id (w_nodes w ! j)) cfg g) (f ?n)"
    by (intro f) (simp add: node_unstuck.holds_def)
  then show ?thesis using n by (auto simp: node_unstuck.holds_def unstuck_def)
qed

lemma stuck_nodes:
  assumes "world_timing.calm T H w \<and> world_draws.calm g w" "cfgs_ok (node_config cfg) w"
  shows "on_node_at j (on_message sim_iface sender p) w = None \<Longrightarrow> draw_stuck g"
    "on_node_at j (fire_timer sim_iface tm) w = None \<Longrightarrow> draw_stuck g"
    "on_node_at j (nd_start sim_iface) w = None \<Longrightarrow> draw_stuck g"
    "on_node_at j (nd_restart sim_iface) w = None \<Longrightarrow> draw_stuck g"
    "on_node_at j (nd_crash sim_iface) w = None \<Longrightarrow> draw_stuck g"
  by (erule stuck_node [OF _ assms], erule node_unstuck.holds_on_message node_unstuck.holds_fire_timer
      node_unstuck.holds_start node_unstuck.holds_restart node_unstuck.holds_crash)+

lemma stuck_value: "world_draws.calm g w \<Longrightarrow> random_value w = None \<Longrightarrow> draw_stuck g"
  by (auto simp: random_value_def bindX_eq_none dest: stuck_range)

lemma stuck_command:
  "world_draws.calm g w \<Longrightarrow> random_key w = None \<Longrightarrow> draw_stuck g"
  "world_draws.calm g w \<Longrightarrow> random_command kind key w = None \<Longrightarrow> draw_stuck g"
proof -
  show "world_draws.calm g w \<Longrightarrow> random_key w = None \<Longrightarrow> draw_stuck g"
    by (auto simp: random_key_def bindX_eq_none dest: stuck_range)
  show "world_draws.calm g w \<Longrightarrow> random_command kind key w = None \<Longrightarrow> draw_stuck g"
    by (cases kind) (auto simp: random_command_def bindX_eq_none dest: stuck_value world_draws.calm_value)
qed

lemma stuck_send_op:
  assumes "world_draws.calm g w" "send_op ci kind key val ex cmd w = None"
  shows "draw_stuck g"
proof -
  from assms(2) obtain w1 dst p where "w_send (kClientIdBase + of_nat ci) dst p w1 = None" "w_env w1 = w_env w"
    by (auto simp: send_op_def Let_def bindX_eq_none split_def)
  then show ?thesis using stuck_w_send [of g w1] world_draws.calm_env [of w1 w g] assms(1) by simp
qed

lemma stuck_issue_op:
  assumes "world_draws.calm g w" "issue_op ci w = None"
  shows "draw_stuck g"
proof -
  obtain kind w1 where w1: "random_op_kind (begin_op ci w) = (kind, w1)" by fastforce
  have b: "world_draws.calm g (begin_op ci w)" using assms(1) unfolding world_draws.calm_def by (simp add: begin_op_def Let_def)
  then have c1: "world_draws.calm g w1" using world_draws.calm_op_kind [OF b] w1 by simp
  from assms(2) w1 consider "random_key w1 = None"
    | key w2 where "random_key w1 = Some (Inr (key, w2))" "random_command kind key w2 = None"
    | key w2 val ex cmd w3 where "random_key w1 = Some (Inr (key, w2))"
        "random_command kind key w2 = Some (Inr ((val, ex, cmd), w3))" "send_op ci kind key val ex cmd w3 = None"
    by (auto simp: issue_op_def bindX_eq_none split_def split: if_splits)
  then show ?thesis
  proof cases
    case 3
    show ?thesis using stuck_send_op [OF world_draws.calm_command [OF 3(2) world_draws.calm_key [OF 3(1) c1]] 3(3)] .
  qed (use stuck_command c1 world_draws.calm_key in blast)+
qed

lemma stuck_clients: "on_reply ci p w \<noteq> None" "on_timeout ci w \<noteq> None"
proof -
  have r: "w_return ci ok resp w = None \<Longrightarrow> False" for ok resp w by (simp add: w_return_def split: sum.splits)
  have "settle_reply ci reply w = None \<Longrightarrow> False" for reply w
    by (auto simp: settle_reply_def Let_def bindX_eq_none split: if_splits dest: r)
  then have "on_reply ci p w = None \<Longrightarrow> False" by (auto simp: on_reply_def bindX_eq_none split: sum.splits if_splits)
  then show "on_reply ci p w \<noteq> None" by blast
  have "on_timeout ci w = None \<Longrightarrow> False" by (auto simp: on_timeout_def bindX_eq_none split: if_splits dest: r)
  then show "on_timeout ci w \<noteq> None" by blast
qed

lemma stuck_partition:
  assumes "world_draws.calm g w" "inject_partition w = None"
  shows "draw_stuck g"
proof -
  from assms(2) consider "w_shuffle (map nd_id (w_nodes w)) w = None"
    | ids w0 where "w_shuffle (map nd_id (w_nodes w)) w = Some (Inr (ids, w0))" "w_range 1 (of_nat (length ids)) w0 = None"
    | ids w0 split w1 gs lo hi where "w_shuffle (map nd_id (w_nodes w)) w = Some (Inr (ids, w0))"
        "w_range 1 (of_nat (length ids)) w0 = Some (Inr (split, w1))" "w_range lo hi (w_set_net (net_partition gs) w1) = None"
    by (auto simp: inject_partition_def bindX_eq_none Let_def split: if_splits)
  then show ?thesis
  proof cases
    case 3
    have "world_draws.calm g (w_set_net (net_partition gs) w1)"
      using world_draws.calm_range [OF 3(2) world_draws.calm_shuffle [OF 3(1) assms(1)]] by (rule world_draws.calm_net)
    then show ?thesis using stuck_range(2) 3(3) by blast
  qed (use assms(1) stuck_shuffle stuck_range(2) world_draws.calm_shuffle in blast)+
qed

lemma stuck_spikes:
  assumes "world_draws.calm g w"
  shows "inject_drop_spike w = None \<Longrightarrow> draw_stuck g" "inject_dup_spike w = None \<Longrightarrow> draw_stuck g"
  using stuck_range(2) [OF world_draws.calm_net(3) [OF assms]] stuck_range(2) [OF world_draws.calm_net(4) [OF assms]]
  by (auto simp: inject_drop_spike_def inject_dup_spike_def bindX_eq_none Let_def)

lemma stuck_crash:
  assumes n: "inject_crash_restart w = None" and w: "world_timing.calm T H w \<and> world_draws.calm g w" "cfgs_ok (node_config cfg) w"
  shows "draw_stuck g"
proof -
  let ?r = "w_range 0 (of_nat (length (w_nodes w))) w"
  from n consider "?r = None"
    | v w1 where "?r = Some (Inr (v, w1))" "on_node_at (unat v) (nd_crash sim_iface) w1 = None"
    | v w1 w2 lo hi where "?r = Some (Inr (v, w1))" "on_node_at (unat v) (nd_crash sim_iface) w1 = Some (Inr w2)" "w_range lo hi w2 = None"
    by (auto simp: inject_crash_restart_def bindX_eq_none split: if_splits)
  then show ?thesis
  proof cases
    case 1
    then show ?thesis using stuck_range(2) w(1) by blast
  next
    case 2
    have "world_timing.calm T H w1 \<and> world_draws.calm g w1"
      using world_timing.calm_range [OF 2(1)] world_draws.calm_range [OF 2(1)] w(1) by blast
    moreover have "cfgs_ok (node_config cfg) w1" using cfgs_ok_books [OF env_only_books [OF env_only_range [OF 2(1)]]] w(2) by simp
    ultimately show ?thesis using stuck_nodes(5) 2(2) by blast
  next
    case 3
    have "world_draws.calm g w1" using world_draws.calm_range [OF 3(1)] w(1) by blast
    moreover have "cfgs_ok (node_config cfg) w1" using cfgs_ok_books [OF env_only_books [OF env_only_range [OF 3(1)]]] w(2) by simp
    ultimately show ?thesis using world_draws.node_steps(5) [OF 3(2)] stuck_range(2) 3(3) by blast
  qed
qed

lemma stuck_fault:
  assumes "inject_fault r w = None" "world_timing.calm T H w \<and> world_draws.calm g w" "cfgs_ok (node_config cfg) w"
  shows "draw_stuck g"
  using assms stuck_partition stuck_spikes stuck_crash by (auto simp: inject_fault_def Let_def split: if_splits)

lemma stuck_exec:
  assumes "exec a w = None" "world_timing.calm T H w \<and> world_draws.calm g w" "cfgs_ok (node_config cfg) w"
  shows "draw_stuck g"
proof (cases a)
  case (Deliver h f dst p)
  then show ?thesis using assms stuck_nodes(1) stuck_clients(1) by (cases h) (auto simp: on_node_def)
next
  case (NodeTimer tm)
  then show ?thesis using assms stuck_nodes(2) by (auto simp: on_node_def)
next
  case FaultTick
  let ?w = "snd (w_bernoulli (fc_fault_rate (fi_cfg (w_fault w))) w)"
  have "tick w = None" using assms(1) FaultTick by simp
  then have n: "inject_fault (fst (w_unit ?w)) (snd (w_unit ?w)) = None"
    by (auto simp: tick_def Let_def split_def bindX_eq_none split: if_splits)
  have "env_only w (snd (w_unit ?w))" using env_only_trans [OF env_only_calls(4) env_only_calls(3)] .
  then have "cfgs_ok (node_config cfg) (snd (w_unit ?w))" using cfgs_ok_books [OF env_only_books] assms(3) by blast
  moreover have "world_timing.calm T H (snd (w_unit ?w)) \<and> world_draws.calm g (snd (w_unit ?w))"
    using assms(2) world_timing.calm_unit world_timing.calm_bernoulli world_draws.calm_unit world_draws.calm_bernoulli by blast
  ultimately show ?thesis using n stuck_fault by blast
qed (use assms stuck_clients stuck_issue_op stuck_nodes(4) in auto)

lemma stuck_step:
  assumes "w_step w = None" "world_ok cfg w" "due D (w_sim w)" "D < 2 ^ 62"
  shows "draw_stuck (run_gen cfg)"
proof -
  from assms(1) obtain act s where s: "sim_step (w_sim w) = Inr (Some act, s)" and e: "exec act (w_set_sim s w) = None"
    by (auto simp: process_one_def split: sum.splits option.splits)
  from s assms(2-4) show ?thesis by (rule popped) (rule stuck_exec [OF e conjI])
qed

lemma w_reach_ok: "w_reach D w v \<Longrightarrow> world_ok cfg w \<Longrightarrow> D < 2 ^ 62 \<Longrightarrow> world_ok cfg v"
proof (induction rule: w_reach.induct)
  case (step w v u)
  have "world_ok cfg v" using step_ok [OF step(2) step.prems(1) step(1) step.prems(2)] by simp
  then show ?case using step.IH step.prems(2) by blast
qed simp

lemma stuck_run_for:
  assumes "w_run_for dur w = None" "world_ok cfg w" "w_now w + dur < 2 ^ 62"
  shows "draw_stuck (run_gen cfg)"
proof (rule ccontr)
  assume n: "\<not> draw_stuck (run_gen cfg)"
  have "w_step v \<noteq> None" if "w_reach (w_now w + dur) w v" "due (w_now w + dur) (w_sim v)" for v
    using stuck_step [OF _ w_reach_ok [OF that(1) assms(2,3)] that(2) assms(3)] n by blast
  then have "run_due w_sim w_set_sim exec (w_now w + dur) w \<noteq> None" using run_due_returns [OF assms(2,3)] by blast
  with assms(1) show False by (auto simp: run_for_def Let_def w_now_def bindX_eq_none)
qed

lemma stuck_run_slices:
  assumes "run_slices D w = None" "world_ok cfg w" "D < 2 ^ 61"
  shows "draw_stuck (run_gen cfg)"
  using assms(1,2)
proof (induction "unat D - unat (w_now w)" arbitrary: w rule: less_induct)
  case less
  from less.prems(1) have guard: "w_now w < D" and r: "w_run_for (100 * kMsec) w = None
      \<or> (\<exists>v. w_run_for (100 * kMsec) w = Some (Inr v) \<and> run_slices D v = None)"
    unfolding run_slices.simps [of D w] by (auto split: if_splits option.splits sum.splits)
  note b = slice_bounds [OF guard assms(3)]
  from r show ?case
  proof (elim disjE exE conjE)
    fix v assume v: "w_run_for (100 * kMsec) w = Some (Inr v)" "run_slices D v = None"
    have v': "world_ok cfg v" "w_now v = w_now w + 100 * kMsec" using run_for_ok [OF v(1) less.prems(2) b(1,2)] by simp_all
    have "unat D - unat (w_now v) < unat D - unat (w_now w)"
      using guard b(3) v'(2) by (simp add: word_less_nat_alt)
    then show "draw_stuck (run_gen cfg)" using less.hyps v(2) v'(1) by blast
  qed (rule stuck_run_for [OF _ less.prems(2) b(2)])
qed

lemma stuck_start_nodes:
  assumes "start_nodes js w = None" "world_timing.calm T H w \<and> world_draws.calm g w" "cfgs_ok (node_config cfg) w"
  shows "draw_stuck g"
  using assms
proof (induction js arbitrary: w)
  case (Cons j js)
  from Cons.prems(1) consider "on_node_at j (nd_start sim_iface) w = None"
    | v where "on_node_at j (nd_start sim_iface) w = Some (Inr v)" "start_nodes js v = None" by (auto simp: bindX_eq_none)
  then show ?case
  proof cases
    case 1
    then show ?thesis using stuck_nodes(3) Cons.prems(2,3) by blast
  next
    case 2
    then show ?thesis
      using Cons.IH world_timing.node_steps(3) [OF 2(1) _ Cons.prems(3)] world_draws.node_steps(3) [OF 2(1) _ Cons.prems(3)]
        cfgs_ok_books Cons.prems(2,3) by blast
  qed
qed simp

lemma stuck_run_world:
  assumes run: "run_world cfg = None" and c: "run_cfg_ok cfg"
  shows "draw_stuck (run_gen cfg)"
proof -
  let ?f = "\<lambda>w. fi_start (wl_start w)"
  from run consider load where "wl_init (all_ids cfg) (load_config cfg) = Inr load"
      "start_nodes [0..<rc_num_nodes cfg] (initial_world cfg load) = None"
    | load w1 where "wl_init (all_ids cfg) (load_config cfg) = Inr load"
      "start_nodes [0..<rc_num_nodes cfg] (initial_world cfg load) = Some (Inr w1)" "w_run_for (1 * kSec) w1 = None"
    | load w1 w2 where "wl_init (all_ids cfg) (load_config cfg) = Inr load"
      "start_nodes [0..<rc_num_nodes cfg] (initial_world cfg load) = Some (Inr w1)" "w_run_for (1 * kSec) w1 = Some (Inr w2)"
      "run_slices (w_now (?f w2) + kMaxRunTime) (?f w2) = None"
    by (auto simp: run_world_def bindX_eq_none Let_def load_config_def split: sum.splits)
  then show ?thesis
  proof cases
    case 1
    then show ?thesis using stuck_start_nodes initial_ok(1,2) [OF 1(1) c] by blast
  next
    case 2
    have "world_ok cfg w1" "w_now w1 = 0" using nodes_started [OF 2(1) c 2(2)] by simp_all
    then show ?thesis using stuck_run_for [OF 2(3)] by (simp add: kSec_def)
  next
    case 3
    have "world_ok cfg w1" "w_now w1 = 0" using nodes_started [OF 3(1) c 3(2)] by simp_all
    from settled [OF 3(3) this] have "world_ok cfg w2" "w_now w2 = 1 * kSec" by simp_all
    then have ok3: "world_ok cfg (?f w2)" "w_now (?f w2) + kMaxRunTime = 121 * kSec"
      using load_started c by blast+
    show ?thesis using 3(4) [unfolded ok3(2)] ok3(1) deadline_bound by (rule stuck_run_slices)
  qed
qed

text \<open>
  If every event that is due returns normally, as long as \<open>Q\<close> holds, and keeps \<open>Q\<close>, then so do the loops.
\<close>

definition goes_on :: "(world \<Rightarrow> bool) \<Rightarrow> RunConfig \<Rightarrow> bool" where
  "goes_on Q cfg \<longleftrightarrow>
     (\<forall>v D. world_ok cfg v \<longrightarrow> Q v \<longrightarrow> D < 2 ^ 62 \<longrightarrow> due D (w_sim v) \<longrightarrow> (\<exists>v'. w_step v = Some (Inr v') \<and> Q v'))
     \<and> (\<forall>v t. Q v \<longrightarrow> Q (w_set_sim ((w_sim v)\<lparr>sm_clock := t\<rparr>) v))"

lemma run_due_total:
  assumes "world_ok cfg w" "Q w" "D < 2 ^ 62" "goes_on Q cfg"
  shows "\<exists>v. run_due w_sim w_set_sim exec D w = Some (Inr v) \<and> Q v"
  using assms(1,2)
proof (induction "distances D (w_events w)" arbitrary: w rule: wf_induct_rule [OF wf_mult [OF wf_less_than]])
  case 1
  show ?case
  proof (cases "due D (w_sim w)")
    case True
    then obtain v where v: "w_step w = Some (Inr v)" "Q v" using assms(3,4) 1(2,3) unfolding goes_on_def by blast
    have ok: "world_ok cfg v" "w_now v \<le> D" "advances (w_now v) w v" using step_ok [OF v(1) 1(2) True assms(3)] by simp_all
    show ?thesis using 1(1) [OF advances_distances [OF ok(3,2)] ok(1) v(2)] True v(1) by (subst run_due.simps) simp
  next
    case False
    then show ?thesis using 1(3) by (subst run_due.simps) simp
  qed
qed

lemma run_for_total:
  assumes "world_ok cfg w" "Q w" "w_now w + d < 2 ^ 62" "goes_on Q cfg"
  shows "\<exists>v. w_run_for d w = Some (Inr v) \<and> Q v"
proof -
  from run_due_total [OF assms] obtain v where "run_due w_sim w_set_sim exec (w_now w + d) w = Some (Inr v)" "Q v" by blast
  with assms(4) show ?thesis unfolding goes_on_def by (simp add: run_for_def Let_def w_now_def)
qed

lemma run_slices_total:
  assumes "world_ok cfg w" "Q w" "D < 2 ^ 61" "goes_on Q cfg"
  shows "\<exists>v. run_slices D w = Some (Inr v) \<and> Q v"
  using assms(1,2)
proof (induction "unat D - unat (w_now w)" arbitrary: w rule: less_induct)
  case less
  show ?case
  proof (cases "\<not> wl_done (w_load w) \<and> w_now w < D")
    case True
    then have guard: "w_now w < D" by simp
    note b = slice_bounds [OF guard assms(3)]
    from run_for_total [OF less.prems b(2) assms(4)] obtain v where v: "w_run_for (100 * kMsec) w = Some (Inr v)" "Q v" by blast
    have v': "world_ok cfg v" "w_now v = w_now w + 100 * kMsec" using run_for_ok [OF v(1) less.prems(1) b(1,2)] by simp_all
    have "unat D - unat (w_now v) < unat D - unat (w_now w)" using guard b(3) v'(2) by (simp add: word_less_nat_alt)
    then show ?thesis using less.hyps [of v] v v'(1) True by (subst run_slices.simps) simp
  next
    case False
    then show ?thesis using less.prems(2) by (subst run_slices.simps) auto
  qed
qed

end
