(* ===== verification/Sample_Run.thy ===== *)
theory Sample_Run
  imports Test_Run
begin

text \<open>
  A test run in full: one node and one client with one operation, on a network that loses every message.
  The node elects itself, the client's request is lost and times out. The theory shows that
  \<open>run_once\<close> returns for this configuration; the general theorems on runs are applied to it.
\<close>

definition sample_config :: RunConfig where
  "sample_config = default_run_config
     \<lparr>rc_num_nodes := 1, rc_total_ops := 1, rc_fault_rate := 0,
      rc_net_cfg := \<lparr>nc_min_latency = 1000, nc_max_latency = 1000, nc_drop_prob = 1, nc_dup_prob = 0\<rparr>,
      rc_workload_cfg := default_workload_config\<lparr>wc_num_clients := 1, wc_put_prob := 0, wc_get_prob := 1\<rparr>\<rparr>"

lemma sample_cfg_ok: "run_cfg_ok sample_config"
  by (simp add: run_cfg_ok_def sample_config_def default_run_config_def latency_ok_def load_cfg_ok_def fault_cfg_ok_def
      default_workload_config_def default_fault_config_def short_def kMsec_def kSec_def)

section \<open>The leader and its environment\<close>

definition lead :: "sim_env RaftNode \<Rightarrow> bool" where
  "lead n \<longleftrightarrow> nd_id n = 1 \<and> nd_peers n = [] \<and> nd_running n \<and> nd_role n = Leader"

fun sample_action :: "action \<Rightarrow> bool" where
  "sample_action (NodeTimer (HeartbeatTimer i)) = (i = 1)"
| "sample_action (NodeTimer (ElectionTimer i g)) = (i = 1)"
| "sample_action (IssueOp ci) = (ci = 0)"
| "sample_action (OpTimeout ci) = (ci = 0)"
| "sample_action FaultTick = True"
| "sample_action a = False"

definition sample_env :: "sim_env \<Rightarrow> bool" where
  "sample_env e \<longleftrightarrow> (\<forall>ev \<in> set (eq_heap (sm_queue (se_sim e))). sample_action (ev_action ev))
     \<and> \<not> nw_partitioned (se_net e) \<and> nc_drop_prob (nw_cfg (se_net e)) = 1 \<and> \<not> se_halted e"

definition sampled :: "world \<Rightarrow> bool" where
  "sampled w \<longleftrightarrow> (\<exists>n. w_nodes w = [n] \<and> lead n) \<and> sample_env (w_env w) \<and> fc_fault_rate (fi_cfg (w_fault w)) = 0"

lemma sample_env_schedule: "sample_env e \<Longrightarrow> sample_action a \<Longrightarrow> sample_env (snd (env_schedule d a e))"
  by (auto simp: sample_env_def env_schedule_def Let_def split_def sim_schedule_def)

lemma sample_env_sim:
  "sample_env e \<Longrightarrow> sample_env (e\<lparr>se_sim := (se_sim e)\<lparr>sm_prng := p\<rparr>\<rparr>)"
  "sample_env e \<Longrightarrow> sample_env (e\<lparr>se_sim := (se_sim e)\<lparr>sm_clock := t\<rparr>\<rparr>)"
  "sample_env e \<Longrightarrow> sample_env (e\<lparr>se_sim := sim_cancel i (se_sim e)\<rparr>)"
  by (simp_all add: sample_env_def)

lemma sampled_env: "env_only w w' \<Longrightarrow> sampled w \<Longrightarrow> sample_env (w_env w') \<Longrightarrow> sampled w'"
  by (simp add: sampled_def env_only_def)

lemma sampled_load: "sampled (w\<lparr>w_load := l\<rparr>) = sampled w" "sampled (w\<lparr>w_history := h\<rparr>) = sampled w"
  "sampled (upd_client ci f w) = sampled w"
  by (simp_all add: sampled_def)

lemma sampled_schedule: "sampled w \<Longrightarrow> sample_action a \<Longrightarrow> sampled (snd (w_schedule d a w))"
  by (rule sampled_env [OF env_only_calls(1)]) (simp_all add: sampled_def sample_env_schedule)

text \<open>Timers of the leader.\<close>

lemma lead_heartbeat:
  assumes "lead n"
  shows "\<exists>s. fire_timer sim_iface (HeartbeatTimer i) n = Ret s \<and> lead s
    \<and> nd_env s = snd (env_schedule (cfg_heartbeat_interval (nd_cfg n)) (NodeTimer (HeartbeatTimer 1)) (nd_env n))"
  using assms by (simp add: lead_def on_heartbeat_def replicate_all_def schedule_heartbeat_def Let_def sim_iface_def)

lemma lead_election:
  assumes "lead n"
  shows "\<exists>s. fire_timer sim_iface (ElectionTimer i g) n = Ret s \<and> lead s \<and> nd_env s = nd_env n"
  using assms by (auto simp: lead_def on_election_timeout_def Let_def)

lemma sampled_node:
  assumes "sampled w" "\<And>n. lead n \<Longrightarrow> \<exists>s. f n = Ret s \<and> lead s \<and> (sample_env (nd_env n) \<longrightarrow> sample_env (nd_env s))"
  shows "\<exists>w'. on_node 1 f w = Some (Inr w') \<and> sampled w'"
proof -
  from assms(1) obtain n where n: "w_nodes w = [n]" "lead n" and e: "sample_env (w_env w)" by (auto simp: sampled_def)
  have "lead (n\<lparr>nd_env := w_env w\<rparr>)" using n(2) by (simp add: lead_def)
  then obtain s where s: "f (n\<lparr>nd_env := w_env w\<rparr>) = Ret s" "lead s" "sample_env (nd_env s)"
    using assms(2) [of "n\<lparr>nd_env := w_env w\<rparr>"] e by auto
  have "node_pos 1 w = 0" using n by (simp add: node_pos_def lead_def)
  with s n assms(1) show ?thesis by (auto simp: on_node_def on_node_at_def sampled_def sample_env_def)
qed

section \<open>The client and the fault injector\<close>

lemma range_even:
  assumes "lo < hi" "(- (hi - lo)) mod (hi - lo) = 0"
  shows "\<exists>v q. prng_range lo hi p = Some (Inr (v, q))"
  using assms by (auto simp: prng_range_def Let_def split_def range_retry.simps)

lemma sampled_range:
  assumes "sampled w" "lo < hi" "(- (hi - lo)) mod (hi - lo) = 0"
  shows "\<exists>v w'. w_range lo hi w = Some (Inr (v, w')) \<and> sampled w' \<and> env_only w w'"
proof -
  from range_even [OF assms(2,3)] obtain v q where "prng_range lo hi (sm_prng (w_sim w)) = Some (Inr (v, q))" by blast
  then have r: "w_range lo hi w = Some (Inr (v, w_set_sim ((w_sim w)\<lparr>sm_prng := q\<rparr>) w))"
    by (simp add: w_range_def sim_random_range_def)
  moreover have "sampled (w_set_sim ((w_sim w)\<lparr>sm_prng := q\<rparr>) w)"
    using assms(1) by (simp add: sampled_def w_set_sim_def w_sim_def sample_env_sim)
  ultimately show ?thesis using env_only_range [OF r] by blast
qed

lemma floorlog_pow: "floorlog 2 (2 ^ n) = n + 1"
  using floorlog_power [of 1 2 n] by (simp add: floorlog_def)

lemma dbl_one: "dbl 1 = 1"
proof -
  have "nat \<lfloor>\<bar>1 :: rat\<bar> * 2 ^ 1074\<rfloor> = 2 ^ 1074"
    using floor_of_int [of "2 ^ 1074", where ?'a = rat] by (simp del: floor_of_int)
  moreover have "floorlog 2 (2 ^ 1074) = 1075" by (rule trans [OF floorlog_pow]) simp
  ultimately show ?thesis by (simp add: dbl_def Let_def pow2_def round_even_def)
qed

lemma unit_below_one:
  assumes "prng_unit p = (r, q)"
  shows "0 \<le> r \<and> r < 1"
proof -
  let ?k = "unat (drop_bit 11 (fst (next_u64 p)))"
  have "r = fst (prng_unit p)" using assms by simp
  then have r: "r = of_nat ?k / 2 ^ 53" unfolding prng_unit_def Let_def split_def fst_conv .
  have k: "?k < 2 ^ 53"
    using unat64_bound [of "fst (next_u64 p)"] by (simp add: drop_bit_eq_div unat_div) (simp add: div_less_iff_less_mult)
  have "0 \<le> (of_nat k :: rat) / 2 ^ 53 \<and> (of_nat k :: rat) / 2 ^ 53 < 1" if "k < 2 ^ 53" for k
  proof -
    have "(of_nat k :: rat) < of_nat (2 ^ 53)" using that by (simp only: of_nat_less_iff)
    then show ?thesis by simp
  qed
  from this [OF k] show ?thesis unfolding r .
qed

lemma sample_load_cfg:
  "wc_put_prob (load_config sample_config) = 0" "wc_get_prob (load_config sample_config) = 1"
  "wc_num_keys (load_config sample_config) = 8" "wc_num_clients (rc_workload_cfg sample_config) = 1"
  by (simp_all add: load_config_def sample_config_def default_run_config_def default_workload_config_def)

lemma sampled_kind:
  assumes "sampled w" "wl_cfg (w_load w) = load_config sample_config"
  shows "\<exists>w'. random_op_kind w = (OpGet, w') \<and> sampled w' \<and> env_only w w'"
proof -
  obtain r q where u: "prng_unit (sm_prng (w_sim w)) = (r, q)" by fastforce
  have "random_op_kind w = (OpGet, w_set_sim ((w_sim w)\<lparr>sm_prng := q\<rparr>) w)"
    using unit_below_one [OF u] assms(2) by (simp add: random_op_kind_def w_unit_def u Let_def sample_load_cfg dadd_def dbl_one)
  moreover have "sampled (w_set_sim ((w_sim w)\<lparr>sm_prng := q\<rparr>) w)"
    using assms(1) by (simp add: sampled_def w_set_sim_def w_sim_def sample_env_sim)
  ultimately show ?thesis using env_only_calls(5) [of w] by simp
qed

lemma sampled_send: "sampled w \<Longrightarrow> w_send f dst p w = Some (Inr w)"
  by (simp add: w_send_def net_send_def partitioned_def sampled_def sample_env_def sim_bernoulli_def bernoulli_def
      w_set_sim_def w_sim_def)

lemma sampled_send_op:
  assumes "sampled w"
  shows "\<exists>w'. send_op 0 kind key val ex cmd w = Some (Inr w') \<and> sampled w'"
proof -
  have s: "w_send f dst p (upd_client 0 g (w\<lparr>w_history := h\<rparr>)) = Some (Inr (upd_client 0 g (w\<lparr>w_history := h\<rparr>)))"
    for f dst p g h by (rule sampled_send) (simp add: assms sampled_load)
  have "sampled (snd (w_schedule kOpTimeout (OpTimeout 0) (upd_client 0 g (w\<lparr>w_history := h\<rparr>))))" for g h
    by (rule sampled_schedule) (simp_all add: assms sampled_load)
  then show ?thesis by (simp add: send_op_def Let_def s split_def sampled_load)
qed

lemma sampled_issue:
  assumes "sampled w" "load_of sample_config (w_load w)"
  shows "\<exists>w'. issue_op 0 w = Some (Inr w') \<and> sampled w'"
proof -
  let ?b = "begin_op 0 w"
  have b: "sampled ?b" "wl_cfg (w_load ?b) = load_config sample_config"
    using assms by (simp_all add: begin_op_def Let_def sampled_load load_of_def)
  from sampled_kind [OF b] obtain w1 where w1: "random_op_kind ?b = (OpGet, w1)" "sampled w1" "env_only ?b w1" by blast
  have "wc_num_keys (wl_cfg (w_load w1)) = 8" using w1(3) b(2) by (simp add: env_only_def sample_load_cfg)
  moreover have "(- (8 - 0)) mod (8 - 0 :: u64) = 0" by simp
  ultimately obtain key w2 where w2: "random_key w1 = Some (Inr (key, w2))" "sampled w2"
    using sampled_range [OF w1(2), of 0 8] by (fastforce simp: random_key_def)
  have "random_command OpGet key w2 = Some (Inr (('''', '''', CmdGet key), w2))" by (simp add: random_command_def)
  moreover from sampled_send_op [OF w2(2), of OpGet key "''''" "''''" "CmdGet key"] obtain w3 where
    "send_op 0 OpGet key '''' '''' (CmdGet key) w2 = Some (Inr w3)" "sampled w3" by blast
  ultimately show ?thesis
    using w1 w2 assms by (auto simp: issue_op_def load_of_def sample_load_cfg)
qed

lemma sampled_timeout:
  assumes "sampled w" "load_of sample_config (w_load w)" "books_ok w"
  shows "\<exists>w'. on_timeout 0 w = Some (Inr w') \<and> sampled w'"
proof (cases "cs_waiting (wl_clients (w_load w) ! 0)")
  case True
  let ?c = "wl_clients (w_load w) ! 0"
  have len: "length (wl_clients (w_load w)) = 1" using assms(2) by (simp add: load_of_def sample_load_cfg)
  then have "client_ok 0 ?c (w_history w)" using assms(3) by (simp add: books_ok_def clients_ok_def)
  then have "cs_history_handle ?c < length (w_history w)" using True by (auto simp: client_ok_def pend_of_def)
  then obtain h where h: "w_return 0 False ''timeout'' (stop_waiting 0 w) = Some (Inr ((stop_waiting 0 w)\<lparr>w_history := h\<rparr>))"
    using len by (auto simp: w_return_def record_return_def stop_waiting_fields)
  let ?w = "rotate_leader 0 (count_completed ((stop_waiting 0 w)\<lparr>w_history := h\<rparr>))"
  have "sampled ?w"
    using assms(1) by (simp add: rotate_leader_def count_completed_def stop_waiting_def Let_def sampled_load split: option.splits)
  then have "sampled (schedule_next 0 ?w)" unfolding schedule_next_def by (rule sampled_schedule) simp
  then show ?thesis using True len h by (simp add: on_timeout_def)
next
  case False
  then show ?thesis using assms by (simp add: on_timeout_def load_of_def sample_load_cfg)
qed

lemma sampled_tick:
  assumes "sampled w"
  shows "\<exists>w'. tick w = Some (Inr w') \<and> sampled w'"
proof -
  have b: "w_bernoulli (fc_fault_rate (fi_cfg (w_fault w))) w = (False, w)"
    using assms by (simp add: w_bernoulli_def sim_bernoulli_def bernoulli_def sampled_def w_set_sim_def w_sim_def)
  have "sampled (schedule_tick w)"
    using sampled_schedule [OF assms, of FaultTick "fc_check_interval (fi_cfg (w_fault w))"] env_only_calls(1) [of w]
    by (simp add: schedule_tick_def Let_def split_def sampled_def env_only_def)
  then show ?thesis using assms b by (simp add: tick_def)
qed

section \<open>Every event returns\<close>

lemma sampled_exec:
  assumes "sampled w" "load_of sample_config (w_load w)" "books_ok w" "sample_action a"
  shows "\<exists>w'. exec a w = Some (Inr w') \<and> sampled w'"
  using assms(4)
proof (cases a rule: sample_action.cases)
  case (1 i)
  then show ?thesis
    using assms(4) lead_heartbeat sample_env_schedule
    by simp (rule sampled_node [OF assms(1)], fastforce)
next
  case (2 i g)
  then show ?thesis
    using assms(4) lead_election by simp (rule sampled_node [OF assms(1)], fastforce)
next
  case (3 ci)
  then show ?thesis using assms sampled_issue by simp
next
  case (4 ci)
  then show ?thesis using assms sampled_timeout by simp
next
  case 5
  then show ?thesis using assms sampled_tick by simp
qed simp_all

lemma sampled_step:
  assumes ok: "world_ok sample_config w" and w: "sampled w" and d: "due D (w_sim w)" "D < 2 ^ 62"
  shows "\<exists>w'. w_step w = Some (Inr w') \<and> sampled w'"
proof -
  have "\<not> eq_empty (sm_queue (w_sim w))" using d(1) by (simp add: due_def)
  then obtain a s where s: "sim_step (w_sim w) = Inr (a, s)"
    using sim_step_empty [of "w_sim w"] by (metis old.prod.exhaust sum.exhaust)
  have heap: "set (eq_heap (sm_queue s)) \<subseteq> set (eq_heap (sm_queue (w_sim w)))"
    "\<And>act. a = Some act \<Longrightarrow> \<exists>ev \<in> set (eq_heap (sm_queue (w_sim w))). ev_action ev = act"
    using s by (auto simp: sim_step_def eq_pop_min_def Let_def split: list.splits if_splits)
  have u: "sampled (w_set_sim s w)"
    using w heap(1) by (auto simp: sampled_def sample_env_def w_set_sim_def w_sim_def)
  have b: "books_ok (w_set_sim s w)" by (rule popped [OF s ok d])
  have l: "load_of sample_config (w_load (w_set_sim s w))" using ok by (simp add: world_ok_def w_set_sim_def)
  show ?thesis
  proof (cases a)
    case None
    then show ?thesis using s u by (simp add: process_one_def)
  next
    case (Some act)
    then have "sample_action act" using heap(2) w by (force simp: sampled_def sample_env_def w_sim_def)
    then show ?thesis using sampled_exec [OF u l b] s Some by (simp add: process_one_def)
  qed
qed

lemma sample_goes_on: "goes_on sampled sample_config"
  unfolding goes_on_def
proof (intro conjI allI impI)
  fix v t assume "sampled v"
  then show "sampled (w_set_sim ((w_sim v)\<lparr>sm_clock := t\<rparr>) v)"
    by (simp add: sampled_def w_set_sim_def w_sim_def sample_env_sim)
qed (rule sampled_step)

section \<open>The election\<close>

definition seeded :: Prng where
  "seeded = \<lparr>pg_s0 = 14781993660996615170, pg_s1 = 15162131492471177412, pg_s2 = 4387123674275312071,
             pg_s3 = 9390829987253819269\<rparr>"

lemma first_draw: "next_u64 (prng_init 42) = (1546998764402558742, seeded)"
  by code_simp

lemma draws_accepted:
  "\<not> low64 (wide_mul 1546998764402558742 150001) < 150001"
  "\<not> low64 (wide_mul (fst (next_u64 seeded)) 150001) < 150001"
  "high64 (wide_mul 1546998764402558742 150001) = 12579"
  by code_simp+

lemma election_draws:
  "prng_range 150000 300001 (prng_init 42) = Some (Inr (162579, seeded))"
  "\<exists>v p. prng_range 150000 300001 seeded = Some (Inr (v, p))"
  using draws_accepted by (simp_all add: prng_range_def Let_def first_draw split_def)

text \<open>The node after its start: a follower with its first election timer.\<close>

definition booted :: "world \<Rightarrow> bool" where
  "booted w \<longleftrightarrow> (\<exists>n. w_nodes w = [n] \<and> nd_id n = 1 \<and> nd_peers n = [] \<and> nd_running n \<and> nd_role n = Follower
       \<and> nd_cfg n = node_config sample_config \<and> nd_election_generation n = 1)
     \<and> (\<exists>ev. eq_heap (sm_queue (w_sim w)) = [ev] \<and> ev_time ev = 162579 \<and> ev_action ev = NodeTimer (ElectionTimer 1 1)
          \<and> \<not> ev_cancelled ev)
     \<and> eq_cancelled (sm_queue (w_sim w)) = {||}
     \<and> sm_prng (w_sim w) = seeded \<and> sample_env (w_env w) \<and> fc_fault_rate (fi_cfg (w_fault w)) = 0"

lemma sample_record: "sample_env (env_record ev e) = sample_env e"
  by (simp add: sample_env_def env_record_def)

lemma leads:
  assumes "nd_id n = 1" "nd_peers n = []" "nd_running n" "nd_role n = Candidate" "sample_env (nd_env n)"
  shows "\<exists>s. become_leader sim_iface n = Ret s \<and> lead s \<and> sample_env (nd_env s)"
proof -
  have c: "sample_env (nd_env (cancel_election_timeout sim_iface m))" if "sample_env (nd_env m)" for m
    using that by (simp add: cancel_election_timeout_def env_do_def sim_iface_def sample_env_sim)
  have h: "sample_env (nd_env (schedule_heartbeat sim_iface m)) \<and> nd_role (schedule_heartbeat sim_iface m) = nd_role m
      \<and> nd_running (schedule_heartbeat sim_iface m) = nd_running m" if "sample_env (nd_env m)" "nd_id m = 1" for m
    using that by (simp add: schedule_heartbeat_def Let_def sim_iface_def sample_env_schedule)
  show ?thesis
    using assms c h by (simp add: become_leader_def Let_def replicate_all_def lead_def env_do_def sim_iface_def sample_record)
qed

lemma elected:
  assumes n: "nd_id n = 1" "nd_peers n = []" "nd_running n" "nd_role n = Follower" "nd_cfg n = node_config sample_config"
    "\<not> nd_election_scheduled n" and e: "sample_env (nd_env n)" "sm_prng (se_sim (nd_env n)) = seeded"
  shows "\<exists>s. on_election_timeout sim_iface n = Ret s \<and> lead s \<and> sample_env (nd_env s)"
proof -
  from election_draws(2) obtain v p where d: "prng_range 150000 300001 seeded = Some (Inr (v, p))" by blast
  have r: "env_range 150000 300001 (env_record ev (nd_env n)) =
      (v, (env_record ev (nd_env n))\<lparr>se_sim := (se_sim (nd_env n))\<lparr>sm_prng := p\<rparr>\<rparr>)" for ev
    using e(2) by (simp add: env_range_def sim_random_range_def d env_record_def)
  have s: "sample_env ((env_record ev (nd_env n))\<lparr>se_sim := (se_sim (nd_env n))\<lparr>sm_prng := p\<rparr>\<rparr>)" for ev
    using e(1) by (simp add: sample_env_def env_record_def)
  show ?thesis
    unfolding on_election_timeout_def become_candidate_def Let_def
    using n leads s
    by (simp add: env_do_def persist_def quorum_def schedule_election_timeout_def cancel_election_timeout_def
        Let_def node_delays sim_iface_def r sample_env_schedule)
qed

lemma elected_fire:
  assumes "nd_id n = 1" "nd_peers n = []" "nd_running n" "nd_role n = Follower" "nd_cfg n = node_config sample_config"
    "nd_election_generation n = 1" "sample_env (nd_env n)" "sm_prng (se_sim (nd_env n)) = seeded"
  shows "\<exists>s. fire_timer sim_iface (ElectionTimer 1 1) n = Ret s \<and> lead s \<and> sample_env (nd_env s)"
  using elected [of "n\<lparr>nd_election_scheduled := False\<rparr>"] assms by (simp add: Let_def)

lemma booted_step:
  assumes w: "booted w"
  shows "\<exists>w'. w_step w = Some (Inr w') \<and> sampled w'"
proof -
  from w obtain n ev where n: "w_nodes w = [n]" "nd_id n = 1" "nd_peers n = []" "nd_running n" "nd_role n = Follower"
      "nd_cfg n = node_config sample_config" "nd_election_generation n = 1"
    and ev: "eq_heap (sm_queue (w_sim w)) = [ev]" "ev_action ev = NodeTimer (ElectionTimer 1 1)" "\<not> ev_cancelled ev"
      "eq_cancelled (sm_queue (w_sim w)) = {||}"
    and e: "sm_prng (w_sim w) = seeded" "sample_env (w_env w)" "fc_fault_rate (fi_cfg (w_fault w)) = 0"
    by (auto simp: booted_def)
  obtain s where s: "sim_step (w_sim w) = Inr (Some (NodeTimer (ElectionTimer 1 1)), s)"
    "sm_prng s = seeded" "eq_heap (sm_queue s) = []"
    using ev e(1) by (auto simp: sim_step_def eq_pop_min_def Let_def)
  let ?u = "w_set_sim s w"
  have u: "sample_env (w_env ?u)" "sm_prng (se_sim (w_env ?u)) = seeded" "w_nodes ?u = [n]"
    using e(2) s n(1) by (simp_all add: sample_env_def w_set_sim_def)
  from elected_fire [of "n\<lparr>nd_env := w_env ?u\<rparr>"] n u obtain m where
    m: "fire_timer sim_iface (ElectionTimer 1 1) (n\<lparr>nd_env := w_env ?u\<rparr>) = Ret m" "lead m" "sample_env (nd_env m)" by auto
  have "node_pos 1 ?u = 0" using n u(3) by (simp add: node_pos_def)
  then have "exec (NodeTimer (ElectionTimer 1 1)) ?u = Some (Inr (?u\<lparr>w_env := nd_env m, w_nodes := [m]\<rparr>))"
    using m u(3) by (simp add: on_node_def on_node_at_def sample_env_def del: fire_timer.simps)
  moreover have "sampled (?u\<lparr>w_env := nd_env m, w_nodes := [m]\<rparr>)"
    using m e(3) by (simp add: sampled_def w_set_sim_def)
  ultimately show ?thesis using s(1) by (simp add: process_one_def)
qed

lemma booted_goes_on: "goes_on (\<lambda>w. sampled w \<or> booted w) sample_config"
  using sample_goes_on booted_step unfolding goes_on_def
  by (auto simp: booted_def w_set_sim_def w_sim_def sample_env_sim) blast+

section \<open>The run\<close>

lemma start_fresh:
  "nd_start I (raft_node_init i ps cfg e) =
     Ret (schedule_election_timeout I ((raft_node_init i ps cfg (if_set_handler I i e))\<lparr>nd_running := True\<rparr>))"
proof -
  have "(raft_node_init i ps cfg e)\<lparr>nd_current_term := 0, nd_voted_for := None, nd_log := log_init, nd_kv := []\<rparr> =
      raft_node_init i ps cfg e" by (simp add: raft_node_init_def)
  then show ?thesis using restart_fresh [of I i ps cfg e] by (simp add: nd_restart_def)
qed

definition first_env :: sim_env where
  "first_env = (let e = sim_env_init 42 (rc_net_cfg sample_config) in e\<lparr>se_net := net_set_handler 1 (NodeHandler 1) (se_net e)\<rparr>)"

lemma first_env_facts:
  "se_sim first_env = sim_init 42" "\<not> se_halted first_env" "sample_env first_env"
  by (simp_all add: first_env_def Let_def sim_env_init_def sample_env_def network_init_def net_set_handler_def sample_config_def
      sim_init_def eq_empty_queue_def)

lemma first_range: "env_range 150000 300001 first_env = (162579, first_env\<lparr>se_sim := (sim_init 42)\<lparr>sm_prng := seeded\<rparr>\<rparr>)"
  by (simp add: env_range_def sim_random_range_def first_env_facts) (simp add: sim_init_def election_draws(1))

lemma started_node:
  obtains n where "nd_start sim_iface (raft_node_init 1 [] (node_config sample_config) (sim_env_init 42 (rc_net_cfg sample_config))) = Ret n"
    "nd_id n = 1" "nd_peers n = []" "nd_running n" "nd_role n = Follower" "nd_cfg n = node_config sample_config"
    "nd_election_generation n = 1"
    "nd_env n = snd (env_schedule 162579 (NodeTimer (ElectionTimer 1 1)) (first_env\<lparr>se_sim := (sim_init 42)\<lparr>sm_prng := seeded\<rparr>\<rparr>))"
proof -
  let ?n = "raft_node_init 1 [] (node_config sample_config) (sim_env_init 42 (rc_net_cfg sample_config))"
  let ?m = "(raft_node_init 1 [] (node_config sample_config) first_env)\<lparr>nd_running := True\<rparr>"
  have "if_set_handler sim_iface 1 (sim_env_init 42 (rc_net_cfg sample_config)) = first_env"
    by (simp add: sim_iface_def first_env_def Let_def)
  then have "nd_start sim_iface ?n = Ret (schedule_election_timeout sim_iface ?m)" by (simp add: start_fresh)
  moreover have "if_random_range sim_iface 150000 300001 first_env = (162579, first_env\<lparr>se_sim := (sim_init 42)\<lparr>sm_prng := seeded\<rparr>\<rparr>)"
    by (simp add: sim_iface_def first_range)
  ultimately show ?thesis
    by (intro that [of "schedule_election_timeout sim_iface ?m"])
      (simp_all add: schedule_election_timeout_def raft_node_init_def Let_def node_delays, simp add: sim_iface_def)
qed

lemma started_env:
  fixes a :: action
  defines "e \<equiv> snd (env_schedule 162579 a (first_env\<lparr>se_sim := (sim_init 42)\<lparr>sm_prng := seeded\<rparr>\<rparr>))"
  shows "eq_heap (sm_queue (se_sim e)) = [\<lparr>ev_time = 162579, ev_seq = 0, ev_action = a, ev_cancelled = False\<rparr>]"
    "eq_cancelled (sm_queue (se_sim e)) = {||}" "sm_prng (se_sim e) = seeded" "se_halted e = False"
    "sample_action a \<Longrightarrow> sample_env e"
proof -
  have "sample_env (first_env\<lparr>se_sim := (sim_init 42)\<lparr>sm_prng := seeded\<rparr>\<rparr>)"
    using sample_env_sim(1) [OF first_env_facts(3), of seeded] by (simp add: first_env_facts(1))
  then show "sample_action a \<Longrightarrow> sample_env e" unfolding e_def by (rule sample_env_schedule)
qed (simp_all add: e_def env_schedule_def Let_def split_def sim_schedule_def first_env_facts sim_init_def eq_empty_queue_def
    del: sim_schedule_at_fields add: sim_schedule_at_def eq_push_def)

lemma sample_booted:
  "\<exists>w. start_nodes [0..<rc_num_nodes sample_config] (initial_world sample_config load) = Some (Inr w) \<and> booted w"
proof -
  let ?w = "initial_world sample_config load"
  from started_node obtain n where n: "nd_start sim_iface (raft_node_init 1 [] (node_config sample_config) (sim_env_init 42 (rc_net_cfg sample_config))) = Ret n"
    "nd_id n = 1" "nd_peers n = []" "nd_running n" "nd_role n = Follower" "nd_cfg n = node_config sample_config"
    "nd_election_generation n = 1"
    "nd_env n = snd (env_schedule 162579 (NodeTimer (ElectionTimer 1 1)) (first_env\<lparr>se_sim := (sim_init 42)\<lparr>sm_prng := seeded\<rparr>\<rparr>))"
    by blast
  have cfg: "rc_num_nodes sample_config = 1" "rc_seed sample_config = 42" "rc_fault_rate sample_config = 0"
    by (simp_all add: sample_config_def default_run_config_def)
  have w: "w_nodes ?w = [raft_node_init 1 [] (node_config sample_config) (sim_env_init 42 (rc_net_cfg sample_config))]"
    "w_env ?w = sim_env_init 42 (rc_net_cfg sample_config)"
    by (simp_all add: initial_world_def Let_def build_nodes_def all_ids_def cfg)
  have "on_node_at 0 (nd_start sim_iface) ?w = Some (Inr (?w\<lparr>w_env := nd_env n, w_nodes := [n]\<rparr>))"
  proof -
    have "(w_nodes ?w ! 0)\<lparr>nd_env := w_env ?w\<rparr> = raft_node_init 1 [] (node_config sample_config) (sim_env_init 42 (rc_net_cfg sample_config))"
      by (simp add: w raft_node_init_def)
    then show ?thesis using n(1,8) started_env(4) by (simp add: on_node_at_def w)
  qed
  moreover have "booted (?w\<lparr>w_env := nd_env n, w_nodes := [n]\<rparr>)"
    using n started_env by (simp add: booted_def w_sim_def initial_world_def Let_def fi_init_def cfg)
  ultimately show ?thesis by (simp add: cfg)
qed

lemma sample_elected:
  assumes "world_ok sample_config w" "booted w" "w_now w = 0"
  shows "\<exists>v. w_run_for (1 * kSec) w = Some (Inr v) \<and> sampled v"
proof -
  have "sampled w \<or> booted w" "w_now w + 1 * kSec < 2 ^ 62" using assms(2,3) by (simp_all add: kSec_def)
  from run_for_total [OF assms(1) this booted_goes_on] obtain v where
    v: "w_run_for (1 * kSec) w = Some (Inr v)" "sampled v \<or> booted v" by blast
  have "\<not> due 1000000 (w_sim v)" using tw.run_for_done [OF v(1)] assms(3) by (simp add: w_now_def kSec_def)
  then have "\<not> booted v" by (auto simp: booted_def due_def eq_empty_def eq_peek_time_def)
  with v show ?thesis by blast
qed

lemma sample_load_started:
  assumes "sampled w" "load_of sample_config (w_load w)"
  shows "sampled (fi_start (wl_start w))"
proof -
  have "sampled (w_set_net (net_set_handler i h) w)" for i h
    using assms(1) by (simp add: sampled_def sample_env_def w_set_net_def net_set_handler_def)
  then have "sampled (start_client 0 w)" unfolding start_client_def Let_def by (rule sampled_schedule) simp
  moreover have "wc_num_clients (wl_cfg (w_load w)) = 1" using assms(2) by (simp add: load_of_def load_config_def sample_load_cfg)
  ultimately have s: "sampled (wl_start w)" by (simp add: wl_start_def)
  let ?w = "(wl_start w)\<lparr>w_fault := (w_fault (wl_start w))\<lparr>fi_running := True\<rparr>\<rparr>"
  have "sampled ?w" using s by (simp add: sampled_def)
  then have "sampled (snd (w_schedule (fc_check_interval (fi_cfg (w_fault ?w))) FaultTick ?w))" by (rule sampled_schedule) simp
  then show ?thesis by (simp add: fi_start_def schedule_tick_def Let_def split_def sampled_def)
qed

lemma sample_run: "\<exists>w. run_world sample_config = Some (Inr w)"
proof -
  obtain load where load: "wl_init (all_ids sample_config) (load_config sample_config) = Inr load"
    by (auto simp: wl_init_def all_ids_def sample_config_def default_run_config_def)
  from sample_booted obtain w1 where w1: "start_nodes [0..<rc_num_nodes sample_config] (initial_world sample_config load) = Some (Inr w1)"
    "booted w1" by blast
  have ok1: "world_ok sample_config w1" "w_now w1 = 0" using nodes_started [OF load sample_cfg_ok w1(1)] by simp_all
  from sample_elected [OF ok1(1) w1(2) ok1(2)] obtain w2 where w2: "w_run_for (1 * kSec) w1 = Some (Inr w2)" "sampled w2" by blast
  have ok2: "world_ok sample_config w2" "w_now w2 = 1 * kSec" using settled [OF w2(1) ok1] by simp_all
  have s3: "sampled (fi_start (wl_start w2))"
    using sample_load_started [OF w2(2)] ok2(1) by (simp add: world_ok_def)
  have ok3: "world_ok sample_config (fi_start (wl_start w2))" "w_now (fi_start (wl_start w2)) + kMaxRunTime = 121 * kSec"
    using load_started [OF ok2 sample_cfg_ok] by simp_all
  from run_slices_total [OF ok3(1) s3 deadline_bound sample_goes_on] obtain w4 where
    "run_slices (121 * kSec) (fi_start (wl_start w2)) = Some (Inr w4)" by blast
  with load w1(1) w2(1) ok3(2) show ?thesis by (simp add: run_world_def load_config_def Let_def)
qed

end

