(* ===== verification/Node_Recovery.thy ===== *)
theory Node_Recovery
  imports Node_Contracts
begin

text \<open>
  What a node gets back from its durable stores: \<open>persist\<close>, \<open>take_snapshot\<close>, \<open>crash\<close> and \<open>restart\<close> of \<open>src/raft/node.cpp\<close>
  together. A crash loses what was not flushed and everything in memory.
\<close>

section \<open>The bytes of a snapshot\<close>

definition pair_bytes :: "string \<times> string \<Rightarrow> byte list" where
  "pair_bytes p = enc_str (fst p) @ enc_str (snd p)"

definition wf_pair :: "string \<times> string \<Rightarrow> bool" where
  "wf_pair p \<longleftrightarrow> length (fst p) < 2 ^ 32 \<and> length (snd p) < 2 ^ 32"

interpretation kv_pair: wire_format pair_bytes dec_kv_pair wf_pair
  by unfold_locales (auto simp: pair_bytes_def dec_kv_pair_def wf_pair_def)

text \<open>A store that fits the 32-bit counts of its encoding.\<close>

definition kv_encodable :: "KvStore \<Rightarrow> bool" where
  "kv_encodable kv \<longleftrightarrow> om_sorted kv \<and> length kv < 2 ^ 32 \<and> list_all wf_pair kv \<and> length (kv_bytes kv) < 2 ^ 32"

lemma om_put_last: "\<forall>k' \<in> fst ` set m. k' < k \<Longrightarrow> om_put k v m = m @ [(k, v)]"
  by (induction m) (auto split: prod.splits)

lemma refill_sorted: "om_sorted (m @ kvs) \<Longrightarrow> fold (\<lambda>(k, v). om_put k v) kvs m = m @ kvs"
proof (induction kvs arbitrary: m)
  case (Cons p kvs)
  obtain k v where p: "p = (k, v)" by (cases p)
  have "\<forall>k' \<in> fst ` set m. k' < k" using Cons.prems by (auto simp: p om_sorted_def sorted_wrt_append)
  then show ?case using Cons.IH [of "m @ [p]"] Cons.prems by (simp add: p om_put_last)
qed simp

lemma decode_kv_bytes:
  assumes "kv_encodable kv" shows "decode_kv (kv_bytes kv) = Inr kv"
proof -
  have b: "kv_bytes kv = enc_u32 (of_nat (length kv)) @ concat (map pair_bytes kv)"
    by (simp add: kv_bytes_def pair_bytes_def [abs_def] split_def)
  have "dec_n dec_kv_pair (length kv) (concat (map pair_bytes kv)) = Inr (kv, [])"
    using kv_pair.dec_n_enc [of kv "[]"] assms by (simp add: kv_encodable_def)
  then show ?thesis
    using assms refill_sorted [of "[]" kv] unfolding b by (simp add: decode_kv_def kv_encodable_def unat_of_nat_32)
qed

lemma dec_bytes: "dec_n dec_u8 (length d) d = Inr (d, [])"
proof (induction d)
  case (Cons b d)
  then show ?case by (simp add: dec_u8_def)
qed simp

section \<open>Saved nodes\<close>

text \<open>The snapshot store holds the snapshot fields, and they decode to \<open>kv\<close>; without a snapshot \<open>kv\<close> is empty.\<close>

definition snapshot_saved :: "KvStore \<Rightarrow> 'e RaftNode \<Rightarrow> bool" where
  "snapshot_saved kv n \<longleftrightarrow> ds_inv (nd_snapshot_store n) \<and>
     (ds_read_durable (nd_snapshot_store n) = [] \<and> nd_snap_last_index n = 0 \<and> nd_snap_data n = [] \<and> kv = []
      \<or> ds_read_durable (nd_snapshot_store n) = snapshot_bytes (nd_snap_last_index n) (nd_snap_last_term n) (nd_snap_data n)
        \<and> nd_snap_data n \<noteq> [] \<and> length (nd_snap_data n) < 2 ^ 32 \<and> decode_kv (nd_snap_data n) = Inr kv)"

definition node_saved :: "KvStore \<Rightarrow> 'e RaftNode \<Rightarrow> bool" where
  "node_saved kv n \<longleftrightarrow> meta_synced n \<and> snapshot_saved kv n \<and> log_encodable (nd_log n) \<and> ds_inv (nd_log_store n)
     \<and> ds_read_durable (nd_log_store n) = log_bytes (nd_log n)"

lemma persist_saves:
  assumes "ds_inv (nd_meta_store n)" "ds_inv (nd_log_store n)" "log_encodable (nd_log n)" "snapshot_saved kv n"
  shows "node_saved kv (persist n)"
proof -
  have "meta_synced (persist n)" by (rule persist_meta_synced [OF assms(1)])
  moreover have "nd_log_store (persist n) = ds.rewrite (log_bytes (nd_log n)) (nd_log_store n)"
    by (simp add: persist_def ds.rewrite_def log_save_to_def)
  moreover have "snapshot_saved kv (persist n)" "nd_log (persist n) = nd_log n"
    using assms(4) by (simp_all add: persist_def snapshot_saved_def)
  ultimately show ?thesis
    using assms(2,3) by (simp add: node_saved_def ds.rewrite_durable ds.rewrite_invar)
qed

lemma take_snapshot_saves:
  assumes s: "take_snapshot n = Ret n'" and lt: "nd_snap_last_index n < nd_last_applied n" and kv: "kv_encodable (nd_kv n)"
    and inv: "ds_inv (nd_meta_store n)" "ds_inv (nd_log_store n)" "ds_inv (nd_snapshot_store n)" and l: "log_encodable (nd_log n')"
  shows "node_saved (nd_kv n) n' \<and> nd_snap_last_index n' = nd_last_applied n"
proof -
  have nle: "\<not> nd_last_applied n \<le> nd_snap_last_index n" using lt by simp
  from s nle obtain t where t: "log_term_at (nd_last_applied n) (nd_log n) = Inr t"
    by (cases "log_term_at (nd_last_applied n) (nd_log n)") (simp_all add: take_snapshot_def)
  define a where "a = n\<lparr>nd_snap_data := kv_bytes (nd_kv n), nd_snap_last_index := nd_last_applied n, nd_snap_last_term := t,
    nd_log := log_set_snapshot (nd_last_applied n) t (nd_log n)\<rparr>"
  have n': "n' = persist (save_snapshot a)" using s nle t by (simp add: take_snapshot_def a_def Let_def)
  have st: "nd_snapshot_store (save_snapshot a) = ds.rewrite (snapshot_bytes (nd_last_applied n) t (kv_bytes (nd_kv n))) (nd_snapshot_store n)"
    by (simp add: save_snapshot_def ds.rewrite_def a_def)
  have fields: "nd_snap_data (save_snapshot a) = kv_bytes (nd_kv n)" "nd_snap_last_index (save_snapshot a) = nd_last_applied n"
    "nd_snap_last_term (save_snapshot a) = t" "nd_log (save_snapshot a) = nd_log n'"
    "nd_meta_store (save_snapshot a) = nd_meta_store n" "nd_log_store (save_snapshot a) = nd_log_store n"
    by (simp_all add: n' save_snapshot_def a_def persist_def)
  have ne: "kv_bytes (nd_kv n) \<noteq> []" by (simp add: kv_bytes_def)
  have "snapshot_saved (nd_kv n) (save_snapshot a)"
    using inv(3) kv ne decode_kv_bytes [OF kv]
    by (simp add: snapshot_saved_def st fields ds.rewrite_durable ds.rewrite_invar kv_encodable_def)
  then have "node_saved (nd_kv n) n'" unfolding n' using inv(1,2) l by (intro persist_saves) (simp_all add: fields)
  moreover have "nd_snap_last_index n' = nd_last_applied n" by (simp add: n' persist_def fields(2))
  ultimately show ?thesis by simp
qed

section \<open>Crash and restart\<close>

lemma reply_env_only: "\<exists>e. reply_to_client I cb r n = n\<lparr>nd_env := e\<rparr>"
  by (auto simp: reply_to_client_def nd_send_def env_do_def split: client_cb.splits)

lemma replies_env_only: "\<exists>e. fold (\<lambda>(idx, cb, _). reply_to_client I cb r) pcs n = n\<lparr>nd_env := e\<rparr>"
proof (induction pcs arbitrary: n)
  case Nil
  show ?case by (rule exI [of _ "nd_env n"]) simp
next
  case (Cons p pcs)
  obtain idx cb d where p: "p = (idx, cb, d)" by (cases p)
  obtain e where e: "reply_to_client I cb r n = n\<lparr>nd_env := e\<rparr>" using reply_env_only [of I cb r n] by blast
  from Cons [of "n\<lparr>nd_env := e\<rparr>"] show ?case by (simp add: p e)
qed


text \<open>What matters of a node after a crash.\<close>

definition after_crash :: "'e RaftNode \<Rightarrow> 'e RaftNode \<Rightarrow> bool" where
  "after_crash n m \<longleftrightarrow> nd_meta_store m = ds_crash (nd_meta_store n) \<and> nd_log_store m = ds_crash (nd_log_store n)
     \<and> nd_snapshot_store m = ds_crash (nd_snapshot_store n) \<and> nd_snap_last_index m = nd_snap_last_index n
     \<and> nd_snap_last_term m = nd_snap_last_term n \<and> nd_snap_data m = nd_snap_data n
     \<and> nd_commit_index m = nd_snap_last_index n \<and> nd_last_applied m = nd_snap_last_index n
     \<and> nd_pending_reads m = [] \<and> nd_role m = Follower"

lemma crash_saved:
  assumes "snapshot_saved kv n" shows "\<exists>m. nd_crash I n = Ret m \<and> after_crash n m"
proof -
  define a where "a = (env_do (if_remove_handler I (nd_id n)) (n\<lparr>nd_running := False\<rparr>))\<lparr>nd_election_scheduled := False,
    nd_heartbeat_scheduled := False, nd_meta_store := ds_crash (nd_meta_store n), nd_log_store := ds_crash (nd_log_store n),
    nd_snapshot_store := ds_crash (nd_snapshot_store n), nd_role := Follower, nd_commit_index := nd_snap_last_index n,
    nd_last_applied := nd_snap_last_index n, nd_leader_id := None, nd_votes_received := {||}, nd_next_index := [],
    nd_match_index := [], nd_vote_count := 0, nd_election_term := 0, nd_config_change_pending := False, nd_kv := []\<rparr>"
  define tail where "tail n = (let n = fold (\<lambda>(idx, cb, _). reply_to_client I cb
        \<lparr>res_ok = False, res_value = [], res_error = ''node_crashed''\<rparr>) (nd_pending_clients n) n;
      n = n\<lparr>nd_pending_clients := []\<rparr>;
      n = env_do (fold (\<lambda>pr. if_cancel I (pr_timeout_id pr)) (nd_pending_reads n)) n
    in Ret (n\<lparr>nd_pending_reads := []\<rparr>))" for n
  have c: "nd_crash I n = thenO (if nd_snap_data a \<noteq> [] then liftO (decode_kv (nd_snap_data a)) a (\<lambda>kv. Ret (a\<lparr>nd_kv := kv\<rparr>)) else Ret a) tail"
    unfolding nd_crash_def tail_def a_def env_do_def Let_def by simp
  have a: "nd_snap_data a = nd_snap_data n" by (simp add: a_def env_do_def)
  have t: "\<exists>m. tail (a\<lparr>nd_kv := k\<rparr>) = Ret m \<and> after_crash n m" for k
  proof -
    obtain e where e: "fold (\<lambda>(idx, cb, _). reply_to_client I cb \<lparr>res_ok = False, res_value = [], res_error = ''node_crashed''\<rparr>)
        (nd_pending_clients (a\<lparr>nd_kv := k\<rparr>)) (a\<lparr>nd_kv := k\<rparr>) = a\<lparr>nd_kv := k, nd_env := e\<rparr>"
      using replies_env_only [of I _ "nd_pending_clients (a\<lparr>nd_kv := k\<rparr>)" "a\<lparr>nd_kv := k\<rparr>"] by blast
    show ?thesis unfolding tail_def e Let_def by (simp add: env_do_def after_crash_def a_def)
  qed
  have "a\<lparr>nd_kv := []\<rparr> = a" by (simp add: a_def)
  then have "\<exists>m. tail a = Ret m \<and> after_crash n m" using t [of "[]"] by simp
  moreover have "nd_snap_data n \<noteq> [] \<Longrightarrow> decode_kv (nd_snap_data n) = Inr kv" using assms by (auto simp: snapshot_saved_def)
  ultimately show ?thesis unfolding c a using t [of kv] by (cases "nd_snap_data n = []") simp_all
qed

lemma load_snapshot_saved:
  assumes s: "snapshot_saved kv n" and c: "nd_snapshot_store m = ds_crash (nd_snapshot_store n)"
    "nd_commit_index m = nd_snap_last_index n" "nd_last_applied m = nd_snap_last_index n" "nd_snap_last_index m = nd_snap_last_index n"
    "nd_snap_last_term m = nd_snap_last_term n" "nd_snap_data m = nd_snap_data n" "nd_kv m = []"
  shows "\<exists>l. load_snapshot m = Ret (m\<lparr>nd_kv := kv, nd_log := l\<rparr>)"
proof -
  have inv: "ds_inv (nd_snapshot_store n)" using s by (simp add: snapshot_saved_def)
  have d: "ds_read_durable (nd_snapshot_store m) = ds_read_durable (nd_snapshot_store n)" "ds_inv (nd_snapshot_store m)"
    using inv by (simp_all add: c ds.durable_crash ds.invar_crash)
  from s consider "ds_read_durable (nd_snapshot_store m) = []" "kv = []"
    | "ds_read_durable (nd_snapshot_store m) = snapshot_bytes (nd_snap_last_index n) (nd_snap_last_term n) (nd_snap_data n)"
      "length (nd_snap_data n) < 2 ^ 32" "decode_kv (nd_snap_data n) = Inr kv"
    by (auto simp: snapshot_saved_def d)
  then show ?thesis
  proof cases
    case 1
    then have "load_snapshot m = Ret m" using d(2) by (simp add: load_snapshot_def ds_durable_size_read)
    then show ?thesis using 1 c by (intro exI [of _ "nd_log m"]) simp
  next
    case 2
    have b: "enc_blob (nd_snap_data n) = enc_u32 (of_nat (length (nd_snap_data n))) @ nd_snap_data n"
      by (induction "nd_snap_data n") (simp_all add: enc_blob_def enc_u8_def)
    have "ds_durable_size (nd_snapshot_store m) \<noteq> 0" using d(2) 2(1) by (simp add: ds_durable_size_read snapshot_bytes_def)
    then show ?thesis
      using 2(2,3) c unfolding load_snapshot_def 2(1) snapshot_bytes_def b
      by (simp add: unat_of_nat_32 dec_bytes)
        (rule exI [of _ "log_set_snapshot (nd_snap_last_index n) (nd_snap_last_term n) (nd_log m)"], cases m, simp)
  qed
qed

lemma load_meta_saved:
  assumes "meta_synced n" "nd_meta_store m = ds_crash (nd_meta_store n)" "nd_current_term m = 0" "nd_voted_for m = None"
  shows "load_meta m = Ret (m\<lparr>nd_current_term := nd_current_term n, nd_voted_for := nd_voted_for n\<rparr>)"
proof -
  let ?s = "nd_meta_store n"
  have inv: "ds_inv ?s" and d: "durable_meta ?s = Inr (nd_current_term n, nd_voted_for n)" using assms(1) by (simp_all add: meta_synced_def)
  have r: "ds_read_durable (nd_meta_store m) = ds_read_durable ?s" "ds_durable_size (nd_meta_store m) = ds_durable_size ?s"
    using inv by (simp_all add: assms(2) ds.durable_crash) (simp add: ds_crash_def ds_durable_size_def)
  show ?thesis
  proof (cases "ds_durable_size ?s > 0")
    case True
    with d show ?thesis unfolding load_meta_def r durable_meta_def assms(4) by simp
  next
    case False
    with d have "nd_current_term n = 0" "nd_voted_for n = None" by (simp_all add: durable_meta_def)
    with False assms(3,4) show ?thesis by (simp add: load_meta_def r)
  qed
qed

lemma load_log_saved:
  assumes "node_saved kv n" "nd_log_store m = ds_crash (nd_log_store n)"
  shows "load_log m = Ret (m\<lparr>nd_log := nd_log n\<rparr>)"
proof -
  have inv: "ds_inv (nd_log_store n)" and r: "ds_read_durable (nd_log_store n) = log_bytes (nd_log n)" and l: "log_encodable (nd_log n)"
    using assms(1) by (simp_all add: node_saved_def)
  have d: "ds_read_durable (nd_log_store m) = log_bytes (nd_log n)" "ds_inv (nd_log_store m)"
    using inv r by (simp_all add: assms(2) ds.durable_crash ds.invar_crash)
  then have "ds_durable_size (nd_log_store m) > 0" by (simp add: ds_durable_size_read)
  then show ?thesis using log_load_bytes [OF l d(1)] by (simp add: load_log_def)
qed

lemma nothing_to_apply:
  assumes "nd_last_applied m = nd_commit_index m" "nd_last_applied m = nd_snap_last_index m" "nd_pending_reads m = []"
  shows "apply_committed_entries I m = Ret m"
proof -
  have "apply_loop I m = Ret m" using assms(1) by (simp add: apply_loop.simps)
  moreover have "drain_pending_reads I m = m" using assms(3) by (simp add: drain_pending_reads_def env_do_def)
  moreover have "take_snapshot m = Ret m" using assms(2) by (simp add: take_snapshot_def)
  ultimately show ?thesis by (simp add: apply_committed_entries_def Let_def)
qed

lemma arm_fields:
  "nd_current_term (schedule_election_timeout I m) = nd_current_term m" "nd_voted_for (schedule_election_timeout I m) = nd_voted_for m"
  "nd_log (schedule_election_timeout I m) = nd_log m" "nd_kv (schedule_election_timeout I m) = nd_kv m"
  "nd_commit_index (schedule_election_timeout I m) = nd_commit_index m" "nd_last_applied (schedule_election_timeout I m) = nd_last_applied m"
  "nd_role (schedule_election_timeout I m) = nd_role m" "nd_running (schedule_election_timeout I m) = nd_running m"
  by (simp_all add: schedule_election_timeout_def Let_def)

definition recovered :: "KvStore \<Rightarrow> 'e RaftNode \<Rightarrow> 'e RaftNode \<Rightarrow> bool" where
  "recovered kv n n' \<longleftrightarrow> nd_current_term n' = nd_current_term n \<and> nd_voted_for n' = nd_voted_for n \<and> nd_log n' = nd_log n
     \<and> nd_kv n' = kv \<and> nd_commit_index n' = nd_snap_last_index n \<and> nd_last_applied n' = nd_snap_last_index n
     \<and> nd_role n' = Follower \<and> nd_running n'"

lemma restart_saved:
  assumes s: "node_saved kv n" and c: "after_crash n m"
  shows "\<exists>n'. nd_restart I m = Ret n' \<and> recovered kv n n'"
proof -
  define a where "a = env_do (if_set_handler I (nd_id m)) (m\<lparr>nd_current_term := 0, nd_voted_for := None, nd_log := log_init, nd_kv := [], nd_running := True\<rparr>)"
  have r: "nd_restart I m = thenO (load_snapshot a) (\<lambda>n. thenO (load_meta n) (\<lambda>n. thenO (load_log n) (\<lambda>n.
      thenO (apply_committed_entries I n) (\<lambda>n. Ret (schedule_election_timeout I n)))))"
    by (simp add: nd_restart_def nd_start_def a_def env_do_def Let_def)
  have saved: "snapshot_saved kv n" "meta_synced n" using s by (simp_all add: node_saved_def)
  obtain l where l: "load_snapshot a = Ret (a\<lparr>nd_kv := kv, nd_log := l\<rparr>)"
    using load_snapshot_saved [OF saved(1), of a] c by (auto simp: after_crash_def a_def env_do_def)
  let ?b = "a\<lparr>nd_kv := kv, nd_log := l\<rparr>"
  let ?d = "a\<lparr>nd_kv := kv, nd_current_term := nd_current_term n, nd_voted_for := nd_voted_for n, nd_log := nd_log n\<rparr>"
  have "load_meta ?b = Ret (?b\<lparr>nd_current_term := nd_current_term n, nd_voted_for := nd_voted_for n\<rparr>)"
    by (rule load_meta_saved [OF saved(2)]) (use c in \<open>simp_all add: after_crash_def a_def env_do_def\<close>)
  moreover have "load_log (?b\<lparr>nd_current_term := nd_current_term n, nd_voted_for := nd_voted_for n\<rparr>) = Ret ?d"
    using load_log_saved [OF s, of "?b\<lparr>nd_current_term := nd_current_term n, nd_voted_for := nd_voted_for n\<rparr>"] c
    by (simp add: after_crash_def a_def env_do_def)
  moreover have "apply_committed_entries I ?d = Ret ?d"
    by (rule nothing_to_apply) (use c in \<open>simp_all add: after_crash_def a_def env_do_def\<close>)
  ultimately have "nd_restart I m = Ret (schedule_election_timeout I ?d)" unfolding r l by simp
  moreover have "recovered kv n (schedule_election_timeout I ?d)"
    using c by (simp add: recovered_def arm_fields after_crash_def a_def env_do_def)
  ultimately show ?thesis by blast
qed

section \<open>Property\<close>

text \<open>
  C6. A node comes back with everything it made durable. Take a node that has just taken a snapshot of the entries it has
  applied, or has just called \<open>persist\<close> with a snapshot saved before. After a crash and a restart it has the same
  term, vote and log, its key-value store is that of the snapshot, and it goes on as a follower from the
  index of the snapshot. Neither call fails. Sizes fit the 32-bit fields of the encodings.
\<close>

theorem crash_restart_recovers:
  assumes inv: "ds_inv (nd_meta_store n)" "ds_inv (nd_log_store n)" "ds_inv (nd_snapshot_store n)"
    and before: "take_snapshot n = Ret n1 \<and> nd_snap_last_index n < nd_last_applied n \<and> kv_encodable (nd_kv n) \<and> kv = nd_kv n
      \<or> persist n = n1 \<and> snapshot_saved kv n"
    and l: "log_encodable (nd_log n1)"
  shows "\<exists>m n2. nd_crash I n1 = Ret m \<and> nd_restart I m = Ret n2 \<and> recovered kv n1 n2"
proof -
  have s: "node_saved kv n1"
    using before
  proof (elim disjE conjE)
    assume "take_snapshot n = Ret n1" "nd_snap_last_index n < nd_last_applied n" "kv_encodable (nd_kv n)" "kv = nd_kv n"
    then show ?thesis using take_snapshot_saves [OF _ _ _ inv l] by simp
  next
    assume p: "persist n = n1" "snapshot_saved kv n"
    then have "nd_log n1 = nd_log n" by (auto simp: persist_def)
    with persist_saves [OF inv(1,2) _ p(2)] l p(1) show ?thesis by simp
  qed
  then obtain m where m: "nd_crash I n1 = Ret m" "after_crash n1 m" using crash_saved [of kv n1 I] by (auto simp: node_saved_def)
  with restart_saved [OF s m(2)] show ?thesis by blast
qed

text \<open>An environment that only records: the messages sent, and the results given to external callbacks.\<close>

type_synonym probe_env = "(NodeId \<times> NodeId \<times> payload) list \<times> (nat \<times> CmdResult) list"

definition probe :: "probe_env iface" where
  "probe =
     \<lparr>if_schedule = (\<lambda>d t e. (0, e)), if_cancel = (\<lambda>i e. e), if_random_range = (\<lambda>lo hi e. (lo, e)),
      if_send = (\<lambda>from dest p e. (fst e @ [(from, dest, p)], snd e)), if_set_handler = (\<lambda>i e. e), if_remove_handler = (\<lambda>i e. e),
      if_client_cb = (\<lambda>k r e. (fst e, snd e @ [(k, r)])), if_read_cb = (\<lambda>k b v e. e), if_state_change = (\<lambda>i r t e. e)\<rparr>"

definition fresh_node :: "NodeId \<Rightarrow> NodeId list \<Rightarrow> probe_env RaftNode" where
  "fresh_node i peers = raft_node_init i peers default_config ([], [])"

definition applied_node :: "probe_env RaftNode" where
  "applied_node = (fresh_node 1 [2, 3])\<lparr>nd_current_term := 3, nd_voted_for := Some 2, nd_commit_index := 1, nd_last_applied := 1,
     nd_log := \<lparr>lg_entries = [\<lparr>le_term = 3, le_index = 1, le_cmd = CmdPut ''k'' ''v''\<rparr>], lg_base_index = 0, lg_base_term = 0\<rparr>,
     nd_kv := [(''k'', ''v'')]\<rparr>"

theorem crash_restart_recovers_witness:
  "\<exists>n1 m n2. take_snapshot applied_node = Ret n1 \<and> nd_crash probe n1 = Ret m \<and> nd_restart probe m = Ret n2
     \<and> recovered [(''k'', ''v'')] n1 n2 \<and> nd_current_term n1 = 3 \<and> nd_voted_for n1 = Some 2 \<and> nd_snap_last_index n1 = 1"
proof -
  have "returns (take_snapshot applied_node)" by code_simp
  then obtain n1 where n1: "take_snapshot applied_node = Ret n1" by (auto simp: returns_iff)
  have t: "log_term_at 1 (nd_log applied_node) = Inr 3" by code_simp
  have f: "nd_last_applied applied_node = 1" "nd_snap_last_index applied_node = 0" "nd_kv applied_node = [(''k'', ''v'')]"
    "nd_meta_store applied_node = ds_init" "nd_log_store applied_node = ds_init" "nd_snapshot_store applied_node = ds_init"
    by (simp_all add: applied_node_def fresh_node_def raft_node_init_def)
  have fields: "nd_log n1 = log_set_snapshot 1 3 (nd_log applied_node)" "nd_current_term n1 = nd_current_term applied_node"
    "nd_voted_for n1 = nd_voted_for applied_node" "nd_snap_last_index n1 = 1"
    using n1 t f by (auto simp: take_snapshot_def Let_def persist_def save_snapshot_def)
  have "lg_entries (log_set_snapshot 1 3 (nd_log applied_node)) = []" by code_simp
  then have l: "log_encodable (nd_log n1)" by (simp add: fields log_encodable_def)
  have kv: "kv_encodable [(''k'', ''v'')]" by (simp add: kv_encodable_def kv_bytes_def wf_pair_def enc_str_def)
  have inv: "ds_inv (nd_meta_store applied_node)" "ds_inv (nd_log_store applied_node)" "ds_inv (nd_snapshot_store applied_node)"
    by (simp_all add: f ds_inv_def ds_init_def)
  have "take_snapshot applied_node = Ret n1 \<and> nd_snap_last_index applied_node < nd_last_applied applied_node
      \<and> kv_encodable (nd_kv applied_node) \<and> [(''k'', ''v'')] = nd_kv applied_node"
    using n1 f kv by simp
  from crash_restart_recovers [OF inv disjI1 [OF this] l, of probe] n1 fields show ?thesis
    by (auto simp: applied_node_def fresh_node_def raft_node_init_def)
qed

end
