(* ===== verification/Node_Limits.thy ===== *)
theory Node_Limits
  imports Node_Recovery
begin

text \<open>
  Two schedules of a cluster of three nodes in which \<open>src/raft/node.cpp\<close> acknowledges a write that is lost. Every step is a call of
  the node's own methods on messages that the nodes sent; the network loses some messages and delays others, as it may. No fault
  is injected and neither bug switch of the configuration is on.
\<close>

section \<open>Messages\<close>

text \<open>What a node has sent to \<open>dest\<close>, and the results that external callbacks got.\<close>

definition sent_to :: "NodeId \<Rightarrow> probe_env RaftNode \<Rightarrow> payload list" where
  "sent_to dest n = map (\<lambda>(f, d, p). p) (filter (\<lambda>(f, d, p). d = dest) (fst (nd_env n)))"

definition callbacks :: "probe_env RaftNode \<Rightarrow> (nat \<times> CmdResult) list" where
  "callbacks n = snd (nd_env n)"

definition ok_result :: CmdResult where
  "ok_result = \<lparr>res_ok = True, res_value = [], res_error = []\<rparr>"

definition ask_vote :: "Term \<Rightarrow> NodeId \<Rightarrow> RequestVote" where
  "ask_vote t c = \<lparr>rv_term = t, rv_candidate_id = c, rv_last_log_index = 0, rv_last_log_term = 0\<rparr>"

definition vote :: "Term \<Rightarrow> RequestVoteReply" where
  "vote t = \<lparr>rvr_term = t, rvr_vote_granted = True\<rparr>"

definition heartbeat :: AppendEntries where
  "heartbeat = \<lparr>ae_term = 1, ae_leader_id = 1, ae_prev_log_index = 0, ae_prev_log_term = 0, ae_entries = [], ae_leader_commit = 0\<rparr>"

definition accept_reply :: AppendEntriesReply where
  "accept_reply = \<lparr>aer_term = 1, aer_success = True, aer_conflict_index = 0, aer_conflict_term = 0\<rparr>"

definition other_write :: AppendEntries where
  "other_write = \<lparr>ae_term = 2, ae_leader_id = 3, ae_prev_log_index = 0, ae_prev_log_term = 0,
     ae_entries = [\<lparr>le_term = 2, le_index = 1, le_cmd = CmdPut ''k'' ''w''\<rparr>], ae_leader_commit = 0\<rparr>"

definition other_commit :: AppendEntries where
  "other_commit = \<lparr>ae_term = 2, ae_leader_id = 3, ae_prev_log_index = 1, ae_prev_log_term = 2, ae_entries = [], ae_leader_commit = 1\<rparr>"

definition accept_reply2 :: AppendEntriesReply where
  "accept_reply2 = accept_reply\<lparr>aer_term := 2\<rparr>"

lemma on_message_handlers:
  assumes "nd_running n"
  shows "on_message I from (encode_request_vote rv) n = Ret (handle_request_vote I from rv n)"
    "on_message I from (encode_request_vote_reply rvr) n = catch_exceptions (handle_request_vote_reply I from rvr n)"
    "on_message I from (encode_append_entries_reply aer) n = catch_exceptions (handle_append_entries_reply I from aer n)"
    "wf_append_entries ae \<Longrightarrow> on_message I from (encode_append_entries ae) n = catch_exceptions (handle_append_entries I from ae n)"
  using assms request_vote_rt [of rv "[]"] request_vote_reply_rt [of rvr "[]"] append_entries_reply_rt [of aer "[]"]
    append_entries_rt [of ae "[]"]
  by (simp_all add: on_message_def dispatch_def catch_exceptions_def)

section \<open>The nodes on the way\<close>

text \<open>Node 1 asks for votes, node 2 grants its own, and node 1 is leader of term 1.\<close>

definition up :: "NodeId \<Rightarrow> NodeId list \<Rightarrow> probe_env RaftNode" where
  "up i peers = the_state (nd_start probe (fresh_node i peers))"

definition candidate1 :: "probe_env RaftNode" where
  "candidate1 = the_state (on_election_timeout probe (up 1 [2, 3]))"

definition voter2 :: "probe_env RaftNode" where
  "voter2 = handle_request_vote probe 1 (ask_vote 1 1) (up 2 [1, 3])"

definition leader1 :: "probe_env RaftNode" where
  "leader1 = the_state (handle_request_vote_reply probe 2 (vote 1) candidate1)"

text \<open>Node 2 takes the first heartbeat. The leader takes a client's write, and then the answer to the heartbeat.\<close>

definition follower2 :: "probe_env RaftNode" where
  "follower2 = the_state (handle_append_entries probe 1 heartbeat voter2)"

definition writing1 :: "probe_env RaftNode" where
  "writing1 = the_state (snd (submit probe 0 0 (CmdPut ''k'' ''v'') (ExternalCb 7) leader1))"

definition committed1 :: "probe_env RaftNode" where
  "committed1 = the_state (handle_append_entries_reply probe 2 accept_reply writing1)"

text \<open>Node 2 times out and gets the vote of node 3.\<close>

definition candidate2 :: "probe_env RaftNode" where
  "candidate2 = the_state (on_election_timeout probe follower2)"

definition voter3 :: "probe_env RaftNode" where
  "voter3 = handle_request_vote probe 2 (ask_vote 2 2) (up 3 [1, 2])"

definition leader2 :: "probe_env RaftNode" where
  "leader2 = the_state (handle_request_vote_reply probe 3 (vote 2) candidate2)"

text \<open>In the other schedule what node 1 sends after its election is lost. Node 3, which has seen term 1, times out and is elected to
  term 2 by node 2. It takes another client's write, node 2 stores it, and node 3 commits it. Node 1 gets the entry and then the
  heartbeat that announces the commit.\<close>

definition candidate3 :: "probe_env RaftNode" where
  "candidate3 = the_state (on_election_timeout probe (handle_request_vote probe 1 (ask_vote 1 1) (up 3 [1, 2])))"

definition revoter2 :: "probe_env RaftNode" where
  "revoter2 = handle_request_vote probe 3 (ask_vote 2 3) voter2"

definition leader3 :: "probe_env RaftNode" where
  "leader3 = the_state (handle_request_vote_reply probe 2 (vote 2) candidate3)"

definition writing3 :: "probe_env RaftNode" where
  "writing3 = the_state (snd (submit probe 0 0 (CmdPut ''k'' ''w'') (ExternalCb 8) leader3))"

definition storing2 :: "probe_env RaftNode" where
  "storing2 = the_state (handle_append_entries probe 3 other_write revoter2)"

definition committed3 :: "probe_env RaftNode" where
  "committed3 = the_state (handle_append_entries_reply probe 2 accept_reply2 writing3)"

definition announcing3 :: "probe_env RaftNode" where
  "announcing3 = the_state (on_heartbeat probe committed3)"

definition replaced1 :: "probe_env RaftNode" where
  "replaced1 = the_state (handle_append_entries probe 3 other_write writing1)"

definition deposed1 :: "probe_env RaftNode" where
  "deposed1 = the_state (handle_append_entries probe 3 other_commit replaced1)"

text \<open>Every step is the delivery of a message that was sent.\<close>

lemma handled:
  "nd_running n \<Longrightarrow> p = encode_request_vote rv \<Longrightarrow> handle_request_vote I from rv n = n' \<Longrightarrow> on_message I from p n = Ret n'"
  "nd_running n \<Longrightarrow> p = encode_request_vote_reply rvr \<Longrightarrow> returns (handle_request_vote_reply I from rvr n)
    \<Longrightarrow> on_message I from p n = Ret (the_state (handle_request_vote_reply I from rvr n))"
  "nd_running n \<Longrightarrow> p = encode_append_entries_reply aer \<Longrightarrow> returns (handle_append_entries_reply I from aer n)
    \<Longrightarrow> on_message I from p n = Ret (the_state (handle_append_entries_reply I from aer n))"
  "nd_running n \<Longrightarrow> p = encode_append_entries ae \<Longrightarrow> wf_append_entries ae \<Longrightarrow> returns (handle_append_entries I from ae n)
    \<Longrightarrow> on_message I from p n = Ret (the_state (handle_append_entries I from ae n))"
  using on_message_handlers [of n]
  by (auto simp: catch_exceptions_def returns_iff)

text \<open>
  \<open>reaches P r\<close>: the call \<open>r\<close> returns and the node then satisfies \<open>P\<close>. Each call is evaluated once, by one lemma, for all that
  is needed of its result.
\<close>

definition reaches :: "('s \<Rightarrow> bool) \<Rightarrow> 's outcome \<Rightarrow> bool" where
  "reaches P r = (case r of Ret n \<Rightarrow> P n | Raise e n \<Rightarrow> False)"

lemma reachesD: "reaches P r \<Longrightarrow> returns r" "reaches P r \<Longrightarrow> P (the_state r)"
  by (simp_all add: reaches_def split: outcome.splits)

definition sends :: "NodeId \<Rightarrow> payload \<Rightarrow> probe_env RaftNode \<Rightarrow> bool" where
  "sends dest p n \<longleftrightarrow> nd_running n \<and> last (sent_to dest n) = p"

definition leads_empty :: "Term \<Rightarrow> probe_env RaftNode \<Rightarrow> bool" where
  "leads_empty t n \<longleftrightarrow> nd_role n = Leader \<and> nd_current_term n = t \<and> log_last_index (nd_log n) = 0"

definition told_client :: "Role \<Rightarrow> Term \<Rightarrow> Index \<Rightarrow> string \<Rightarrow> probe_env RaftNode \<Rightarrow> bool" where
  "told_client r t i v n \<longleftrightarrow> nd_role n = r \<and> nd_current_term n = t \<and> nd_commit_index n = i
     \<and> kv_get ''k'' (nd_kv n) = Some v \<and> callbacks n = [(7, ok_result)]"

lemma reach_candidate1:
  "reaches (sends 2 (encode_request_vote (ask_vote 1 1))) (on_election_timeout probe (up 1 [2, 3]))"
  by code_simp

lemma reach_voter2: "sends 1 (encode_request_vote_reply (vote 1)) voter2"
  by code_simp

lemma reach_leader1:
  "reaches (sends 2 (encode_append_entries heartbeat)) (handle_request_vote_reply probe 2 (vote 1) candidate1)"
  by code_simp

lemma reach_follower2:
  "reaches (sends 1 (encode_append_entries_reply accept_reply)) (handle_append_entries probe 1 heartbeat voter2)"
  by code_simp

lemma reach_writing1:
  "case submit probe 0 0 (CmdPut ''k'' ''v'') (ExternalCb 7) leader1 of (b, r) \<Rightarrow> b \<and> reaches nd_running r"
  by code_simp

lemma reach_committed1:
  "reaches (told_client Leader 1 1 ''v'') (handle_append_entries_reply probe 2 accept_reply writing1)"
  by code_simp

lemma reach_candidate2:
  "reaches (sends 3 (encode_request_vote (ask_vote 2 2))) (on_election_timeout probe follower2)"
  by code_simp

lemma reach_voter3: "sends 2 (encode_request_vote_reply (vote 2)) voter3"
  by code_simp

lemma reach_leader2: "reaches (leads_empty 2) (handle_request_vote_reply probe 3 (vote 2) candidate2)"
  by code_simp

lemma up_running: "nd_running (up 2 [1, 3])" "nd_running (up 3 [1, 2])"
  by code_simp+

text \<open>The second schedule.\<close>

lemma reach_candidate3:
  "reaches (sends 2 (encode_request_vote (ask_vote 2 3)))
     (on_election_timeout probe (handle_request_vote probe 1 (ask_vote 1 1) (up 3 [1, 2])))"
  by code_simp

lemma reach_revoter2: "sends 3 (encode_request_vote_reply (vote 2)) revoter2"
  by code_simp

lemma reach_leader3: "reaches nd_running (handle_request_vote_reply probe 2 (vote 2) candidate3)"
  by code_simp

lemma reach_writing3:
  "case submit probe 0 0 (CmdPut ''k'' ''w'') (ExternalCb 8) leader3 of (b, r) \<Rightarrow>
     b \<and> reaches (\<lambda>n. sends 1 (encode_append_entries other_write) n \<and> sends 2 (encode_append_entries other_write) n) r"
  by code_simp

lemma reach_storing2:
  "reaches (sends 3 (encode_append_entries_reply accept_reply2)) (handle_append_entries probe 3 other_write revoter2)"
  by code_simp

lemma reach_committed3: "reaches nd_running (handle_append_entries_reply probe 2 accept_reply2 writing3)"
  by code_simp

lemma reach_announcing3: "reaches (sends 1 (encode_append_entries other_commit)) (on_heartbeat probe committed3)"
  by code_simp

lemma reach_replaced1: "reaches nd_running (handle_append_entries probe 3 other_write writing1)"
  by code_simp

lemma reach_deposed1: "reaches (told_client Follower 2 1 ''w'') (handle_append_entries probe 3 other_commit replaced1)"
  by code_simp

section \<open>Every step is the delivery of a message that was sent\<close>

lemmas seen =
  reachesD(2) [OF reach_candidate1, folded candidate1_def, unfolded sends_def]
  reach_voter2 [unfolded sends_def]
  reachesD(2) [OF reach_leader1, folded leader1_def, unfolded sends_def]
  reachesD(2) [OF reach_follower2, folded follower2_def, unfolded sends_def]
  reachesD(2) [OF reach_candidate2, folded candidate2_def, unfolded sends_def]
  reach_voter3 [unfolded sends_def]

lemmas seen3 =
  reachesD(2) [OF reach_candidate3, folded candidate3_def, unfolded sends_def]
  reach_revoter2 [unfolded sends_def]
  reachesD(2) [OF reach_storing2, folded storing2_def, unfolded sends_def]
  reachesD(2) [OF reach_announcing3, folded announcing3_def, unfolded sends_def]

lemma returns_state: "returns r \<Longrightarrow> r = Ret (the_state r)"
  by (auto simp: returns_iff)

lemma accepted_call:
  assumes "case c of (b, r) \<Rightarrow> b \<and> reaches P r"
  shows "c = (True, Ret (the_state (snd c)))" "P (the_state (snd c))"
  using assms reachesD [of P "snd c"] by (auto simp: returns_iff split: prod.splits)

lemmas step_writing1 = accepted_call [OF reach_writing1, folded writing1_def]

lemmas step_writing3 = accepted_call [OF reach_writing3, folded writing3_def, unfolded sends_def]

lemma wf_sent: "wf_append_entries heartbeat" "wf_append_entries other_write" "wf_append_entries other_commit"
  by (simp_all add: wf_append_entries_def heartbeat_def other_write_def other_commit_def wf_entry_def wf_command_def)

lemma steps_delivered:
  "on_message probe 1 (last (sent_to 2 candidate1)) (up 2 [1, 3]) = Ret voter2"
  "on_message probe 2 (last (sent_to 1 voter2)) candidate1 = Ret leader1"
  "on_message probe 1 (last (sent_to 2 leader1)) voter2 = Ret follower2"
  "on_message probe 2 (last (sent_to 1 follower2)) writing1 = Ret committed1"
  "on_message probe 2 (last (sent_to 3 candidate2)) (up 3 [1, 2]) = Ret voter3"
  "on_message probe 3 (last (sent_to 2 voter3)) candidate2 = Ret leader2"
proof -
  show "on_message probe 1 (last (sent_to 2 candidate1)) (up 2 [1, 3]) = Ret voter2"
    by (rule handled(1) [OF up_running(1) seen(1) [THEN conjunct2] voter2_def [symmetric]])
  show "on_message probe 2 (last (sent_to 1 voter2)) candidate1 = Ret leader1"
    unfolding leader1_def
    by (rule handled(2) [OF seen(1) [THEN conjunct1] seen(2) [THEN conjunct2] reachesD(1) [OF reach_leader1]])
  show "on_message probe 1 (last (sent_to 2 leader1)) voter2 = Ret follower2"
    unfolding follower2_def
    by (rule handled(4) [OF seen(2) [THEN conjunct1] seen(3) [THEN conjunct2] wf_sent(1) reachesD(1) [OF reach_follower2]])
  show "on_message probe 2 (last (sent_to 1 follower2)) writing1 = Ret committed1"
    unfolding committed1_def
    by (rule handled(3) [OF step_writing1(2) seen(4) [THEN conjunct2] reachesD(1) [OF reach_committed1]])
  show "on_message probe 2 (last (sent_to 3 candidate2)) (up 3 [1, 2]) = Ret voter3"
    by (rule handled(1) [OF up_running(2) seen(5) [THEN conjunct2] voter3_def [symmetric]])
  show "on_message probe 3 (last (sent_to 2 voter3)) candidate2 = Ret leader2"
    unfolding leader2_def
    by (rule handled(2) [OF seen(5) [THEN conjunct1] seen(6) [THEN conjunct2] reachesD(1) [OF reach_leader2]])
qed

lemma steps_term2:
  "on_message probe 3 (last (sent_to 2 candidate3)) voter2 = Ret revoter2"
  "on_message probe 2 (last (sent_to 3 revoter2)) candidate3 = Ret leader3"
  "on_message probe 3 (last (sent_to 2 writing3)) revoter2 = Ret storing2"
  "on_message probe 2 (last (sent_to 3 storing2)) writing3 = Ret committed3"
  "on_message probe 3 (last (sent_to 1 writing3)) writing1 = Ret replaced1"
  "on_message probe 3 (last (sent_to 1 announcing3)) replaced1 = Ret deposed1"
proof -
  show "on_message probe 3 (last (sent_to 2 candidate3)) voter2 = Ret revoter2"
    by (rule handled(1) [OF seen(2) [THEN conjunct1] seen3(1) [THEN conjunct2] revoter2_def [symmetric]])
  show "on_message probe 2 (last (sent_to 3 revoter2)) candidate3 = Ret leader3"
    unfolding leader3_def
    by (rule handled(2) [OF seen3(1) [THEN conjunct1] seen3(2) [THEN conjunct2] reachesD(1) [OF reach_leader3]])
  show "on_message probe 3 (last (sent_to 2 writing3)) revoter2 = Ret storing2"
    unfolding storing2_def
    by (rule handled(4) [OF seen3(2) [THEN conjunct1] step_writing3(2) [THEN conjunct2, THEN conjunct2] wf_sent(2)
          reachesD(1) [OF reach_storing2]])
  show "on_message probe 2 (last (sent_to 3 storing2)) writing3 = Ret committed3"
    unfolding committed3_def
    by (rule handled(3) [OF step_writing3(2) [THEN conjunct1, THEN conjunct1] seen3(3) [THEN conjunct2]
          reachesD(1) [OF reach_committed3]])
  show "on_message probe 3 (last (sent_to 1 writing3)) writing1 = Ret replaced1"
    unfolding replaced1_def
    by (rule handled(4) [OF step_writing1(2) step_writing3(2) [THEN conjunct1, THEN conjunct2] wf_sent(2)
          reachesD(1) [OF reach_replaced1]])
  show "on_message probe 3 (last (sent_to 1 announcing3)) replaced1 = Ret deposed1"
    unfolding deposed1_def
    by (rule handled(4) [OF reachesD(2) [OF reach_replaced1, folded replaced1_def] seen3(4) [THEN conjunct2] wf_sent(3)
          reachesD(1) [OF reach_deposed1]])
qed

section \<open>Results\<close>

text \<open>C39. A leader counts an answer to an older message as the answer to the last one it sent. Three nodes, all
  messages delivered unchanged: node 1 is elected to term 1 with the vote of node 2, node 2 answers the first heartbeat, which
  carries no entry, and before the answer arrives node 1 takes a client's write. The answer then commits the write, and the client
  is told that it succeeded, although no other node holds it. Node 2, whose log is empty, next wins the election to term 2 with
  the vote of node 3: the acknowledged write is not in the new leader's log.\<close>

theorem commit_without_replication:
  "on_election_timeout probe (up 1 [2, 3]) = Ret candidate1
   \<and> on_message probe 1 (last (sent_to 2 candidate1)) (up 2 [1, 3]) = Ret voter2
   \<and> on_message probe 2 (last (sent_to 1 voter2)) candidate1 = Ret leader1
   \<and> on_message probe 1 (last (sent_to 2 leader1)) voter2 = Ret follower2
   \<and> submit probe 0 0 (CmdPut ''k'' ''v'') (ExternalCb 7) leader1 = (True, Ret writing1)
   \<and> on_message probe 2 (last (sent_to 1 follower2)) writing1 = Ret committed1
   \<and> nd_commit_index committed1 = 1 \<and> callbacks committed1 = [(7, ok_result)]
   \<and> on_election_timeout probe follower2 = Ret candidate2
   \<and> on_message probe 2 (last (sent_to 3 candidate2)) (up 3 [1, 2]) = Ret voter3
   \<and> on_message probe 3 (last (sent_to 2 voter3)) candidate2 = Ret leader2
   \<and> nd_role leader2 = Leader \<and> nd_current_term leader2 = 2 \<and> log_last_index (nd_log leader2) = 0"
  using returns_state [OF reachesD(1) [OF reach_candidate1]] returns_state [OF reachesD(1) [OF reach_candidate2]]
    reachesD(2) [OF reach_committed1, folded committed1_def] reachesD(2) [OF reach_leader2, folded leader2_def]
  by (simp add: candidate1_def [symmetric] candidate2_def [symmetric] steps_delivered step_writing1(1) told_client_def leads_empty_def)

text \<open>C40. A node that lost its leadership keeps the callbacks of the writes it took, and finds them by log index alone. Node 1,
  leader of term 1, has taken a client's write \<open>k := v\<close> at index 1, and its messages are lost. Node 3 is elected to term 2 by
  node 2, takes the write \<open>k := w\<close> at the same index, and commits it with node 2. When its messages reach node 1, node 1 is a
  follower of term 2 whose store holds \<open>w\<close>, and the client of the write \<open>k := v\<close>, which was never applied there, is told that it
  succeeded.\<close>

theorem deposed_leader_acknowledges:
  "submit probe 0 0 (CmdPut ''k'' ''v'') (ExternalCb 7) leader1 = (True, Ret writing1)
   \<and> on_election_timeout probe (handle_request_vote probe 1 (ask_vote 1 1) (up 3 [1, 2])) = Ret candidate3
   \<and> on_message probe 3 (last (sent_to 2 candidate3)) voter2 = Ret revoter2
   \<and> on_message probe 2 (last (sent_to 3 revoter2)) candidate3 = Ret leader3
   \<and> submit probe 0 0 (CmdPut ''k'' ''w'') (ExternalCb 8) leader3 = (True, Ret writing3)
   \<and> on_message probe 3 (last (sent_to 2 writing3)) revoter2 = Ret storing2
   \<and> on_message probe 2 (last (sent_to 3 storing2)) writing3 = Ret committed3
   \<and> on_heartbeat probe committed3 = Ret announcing3
   \<and> on_message probe 3 (last (sent_to 1 writing3)) writing1 = Ret replaced1
   \<and> on_message probe 3 (last (sent_to 1 announcing3)) replaced1 = Ret deposed1
   \<and> nd_role deposed1 = Follower \<and> nd_current_term deposed1 = 2
   \<and> kv_get ''k'' (nd_kv deposed1) = Some ''w'' \<and> callbacks deposed1 = [(7, ok_result)]"
  using returns_state [OF reachesD(1) [OF reach_candidate3]] returns_state [OF reachesD(1) [OF reach_announcing3]]
    reachesD(2) [OF reach_deposed1, folded deposed1_def]
  by (simp add: candidate3_def [symmetric] announcing3_def [symmetric] steps_term2 step_writing1(1) step_writing3(1) told_client_def)

end
