(* ===== verification/Dispatch_Queue.thy ===== *)
theory Dispatch_Queue
  imports Prelude
begin

text \<open>
  \<open>src/server/dispatch_queue.cpp\<close>: the queue through which timers, messages and client requests reach the one
  thread that runs the Raft node. A closure is a value of type \<open>'f\<close>.

  \<open>dq_run_once\<close> gives up its mutex in three places: while a closure runs, while it waits on the condition
  variable, and between two calls. Everything between two such points is one atomic step; \<open>post\<close> and \<open>stop\<close> of
  any thread, the running closure included, may come in at each of them.
\<close>

section \<open>The queue\<close>

record 'f DispatchQueue =
  dq_q :: "'f list"
  dq_stopped :: bool

definition dq_empty :: "'f DispatchQueue" where
  "dq_empty = \<lparr>dq_q = [], dq_stopped = False\<rparr>"

definition dq_post :: "'f \<Rightarrow> 'f DispatchQueue \<Rightarrow> 'f DispatchQueue" where
  "dq_post f d = (if dq_stopped d then d else d\<lparr>dq_q := dq_q d @ [f]\<rparr>)"

definition dq_stop :: "'f DispatchQueue \<Rightarrow> 'f DispatchQueue" where
  "dq_stop d = d\<lparr>dq_stopped := True\<rparr>"

text \<open>Where the dispatch thread is: outside \<open>dq_run_once\<close>, in a closure of the first or the second loop, or waiting.\<close>

datatype 'f place = Outside | First 'f | Waiting | Second 'f

text \<open>One test of a draining loop: pop the front and run it, or go on with what follows the loop.\<close>

definition dq_drain :: "('f \<Rightarrow> 'f place) \<Rightarrow> ('f DispatchQueue \<Rightarrow> 'f place \<times> 'f DispatchQueue) \<Rightarrow> 'f DispatchQueue
    \<Rightarrow> 'f place \<times> 'f DispatchQueue" where
  "dq_drain running after d = (case dq_q d of [] \<Rightarrow> after d | f # fs \<Rightarrow> (running f, d\<lparr>dq_q := fs\<rparr>))"

definition drain_first :: "'f DispatchQueue \<Rightarrow> 'f place \<times> 'f DispatchQueue" where
  "drain_first = dq_drain First (\<lambda>d. if dq_stopped d then (Outside, d) else (Waiting, d))"

definition drain_second :: "'f DispatchQueue \<Rightarrow> 'f place \<times> 'f DispatchQueue" where
  "drain_second = dq_drain Second (\<lambda>d. (Outside, d))"

text \<open>
  The dispatch thread takes its next atomic step. \<open>expired\<close> says whether the deadline of the wait has passed; without
  it the wait goes on until there is work or a stop.
\<close>

fun dq_run_once :: "bool \<Rightarrow> 'f place \<Rightarrow> 'f DispatchQueue \<Rightarrow> 'f place \<times> 'f DispatchQueue" where
  "dq_run_once expired Outside d = drain_first d"
| "dq_run_once expired (First f) d = drain_first d"
| "dq_run_once expired Waiting d = (if dq_q d \<noteq> [] \<or> dq_stopped d \<or> expired then drain_second d else (Waiting, d))"
| "dq_run_once expired (Second f) d = drain_second d"

section \<open>Interleavings\<close>

datatype 'f dq_event = Post 'f | Stop | Go bool

text \<open>The state of a run: place, queue, the closures accepted and the closures started so far.\<close>

type_synonym 'f dq_state = "'f place \<times> 'f DispatchQueue \<times> 'f list \<times> 'f list"

fun started :: "'f place \<Rightarrow> 'f list" where
  "started (First f) = [f]"
| "started (Second f) = [f]"
| "started Outside = []"
| "started Waiting = []"

fun dq_step :: "'f dq_event \<Rightarrow> 'f dq_state \<Rightarrow> 'f dq_state" where
  "dq_step (Post f) (p, d, acc, began) = (p, dq_post f d, if dq_stopped d then acc else acc @ [f], began)"
| "dq_step Stop (p, d, acc, began) = (p, dq_stop d, acc, began)"
| "dq_step (Go e) (p, d, acc, began) = (case dq_run_once e p d of (p', d') \<Rightarrow>
     (p', d', acc, began @ started p'))"

definition dq_run :: "'f dq_event list \<Rightarrow> 'f dq_state" where
  "dq_run evs = fold dq_step evs (Outside, dq_empty, [], [])"

fun fifo :: "'f dq_state \<Rightarrow> bool" where
  "fifo (p, d, acc, began) \<longleftrightarrow> acc = began @ dq_q d"

lemma run_once_takes:
  "dq_run_once e p d = (p', d') \<Longrightarrow> dq_q d = started p' @ dq_q d' \<and> dq_stopped d' = dq_stopped d"
  by (cases p) (auto simp: drain_first_def drain_second_def dq_drain_def split: list.splits if_splits)

lemma fifo_event: "fifo s \<Longrightarrow> fifo (dq_step e s)"
proof (cases s)
  case (fields p d acc began)
  assume "fifo s"
  with fields show ?thesis
  proof (cases e)
    case (Go b)
    obtain p' d' where r: "dq_run_once b p d = (p', d')" by fastforce
    with run_once_takes [OF r] Go fields \<open>fifo s\<close> show ?thesis by (auto split: if_splits)
  qed (auto simp: dq_post_def dq_stop_def)
qed

lemma fifo_fold: "fifo s \<Longrightarrow> fifo (fold dq_step evs s)"
  by (induction evs arbitrary: s) (simp_all add: fifo_event)

text \<open>Left to itself the dispatch thread runs what is queued and comes back.\<close>

definition gos :: "nat \<Rightarrow> bool \<Rightarrow> 'f dq_state \<Rightarrow> 'f dq_state" where
  "gos n e s = (dq_step (Go e) ^^ n) s"

lemma gos_Suc: "gos (Suc n) e s = gos n e (dq_step (Go e) s)"
  by (simp only: gos_def funpow_Suc_right comp_apply)

lemma first_drains:
  "gos (Suc (length q)) e (First f, d\<lparr>dq_q := q\<rparr>, acc, began)
     = (if dq_stopped d then Outside else Waiting, d\<lparr>dq_q := []\<rparr>, acc, began @ q)"
proof (induction q arbitrary: f began)
  case Nil
  show ?case by (simp add: gos_def drain_first_def dq_drain_def)
next
  case (Cons a q)
  show ?case using Cons.IH [of a "began @ [a]"] by (simp add: gos_Suc [of "Suc (length q)"] drain_first_def dq_drain_def)
qed

lemma outside_drains:
  "gos (Suc (length (dq_q d))) e (Outside, d, acc, began)
     = (if dq_stopped d then Outside else Waiting, d\<lparr>dq_q := []\<rparr>, acc, began @ dq_q d)"
proof (cases "dq_q d")
  case Nil
  then have "d\<lparr>dq_q := []\<rparr> = d" by simp
  with Nil show ?thesis by (simp add: gos_def drain_first_def dq_drain_def)
next
  case (Cons a q)
  with first_drains [of q e a d acc "began @ [a]"] show ?thesis
    by (simp add: gos_Suc [of "Suc (length q)"] drain_first_def dq_drain_def)
qed

section \<open>Property\<close>

text \<open>
  C32. First in, first out, nothing lost and nothing twice. Whatever the interleaving of posts, stops and steps of the
  dispatch thread, the closures started so far followed by those still queued are exactly the
  closures accepted, in the order of acceptance. And from outside \<open>dq_run_once\<close> the dispatch thread, left to itself,
  starts all of them: it then waits, or has returned if the queue was stopped.
\<close>

theorem dispatch_fifo:
  assumes "dq_run evs = (p, d, acc, began)"
  shows "acc = began @ dq_q d \<and>
    (p = Outside \<longrightarrow> gos (Suc (length (dq_q d))) e (p, d, acc, began)
       = (if dq_stopped d then Outside else Waiting, d\<lparr>dq_q := []\<rparr>, acc, acc))"
proof -
  have "fifo (dq_run evs)" unfolding dq_run_def by (rule fifo_fold) (simp add: dq_empty_def)
  with assms show ?thesis by (simp add: outside_drains)
qed

theorem dispatch_fifo_witness:
  "dq_run [Post (1::nat), Go False, Post 2, Go False, Go False, Post 3, Go False, Go False, Post 4, Stop, Post 5]
     = (Outside, \<lparr>dq_q = [4], dq_stopped = True\<rparr>, [1, 2, 3, 4], [1, 2, 3])
   \<and> gos 2 False (Outside, \<lparr>dq_q = [4], dq_stopped = True\<rparr>, [1, 2, 3, 4], [1, 2, 3])
     = (Outside, \<lparr>dq_q = [], dq_stopped = True\<rparr>, [1, 2, 3, 4], [1, 2, 3, 4 :: nat])"
proof -
  have r: "dq_run [Post (1::nat), Go False, Post 2, Go False, Go False, Post 3, Go False, Go False, Post 4, Stop, Post 5]
     = (Outside, \<lparr>dq_q = [4], dq_stopped = True\<rparr>, [1, 2, 3, 4], [1, 2, 3])"
    by (simp add: dq_run_def dq_empty_def dq_post_def dq_stop_def drain_first_def drain_second_def dq_drain_def)
  from dispatch_fifo [OF r, of False] r show ?thesis by (simp add: numeral_2_eq_2)
qed

end
