(* ===== verification/Real_Clock.thy ===== *)
theory Real_Clock
  imports Dispatch_Queue Types "HOL-Library.FSet"
begin

text \<open>
  \<open>src/server/real_clock.cpp\<close>: the timers of the real server. A background thread takes the entry with the earliest
  deadline and posts its action to the dispatch queue. \<open>steady_clock\<close> is a number of microseconds that only
  grows; a \<open>std::priority_queue\<close> leaves open which of several entries with the earliest deadline is on top, so
  taking the top is a step relation.

  The steps are the sections under the mutex. The background thread holds no lock between the pop of an
  entry and \<open>dq_.post\<close>: an entry in that window is \<open>rc_at\<close>.
\<close>

section \<open>The clock\<close>

record 'f Entry =
  e_deadline :: nat
  e_id :: u64
  e_action :: 'f

record 'f RealClock =
  rc_dq :: "'f DispatchQueue"
  rc_heap :: "'f Entry list"
  rc_cancelled :: "u64 fset"
  rc_next_id :: u64
  rc_running :: bool
  rc_at :: "'f Entry option"
  rc_now :: nat

definition clock0 :: "nat \<Rightarrow> 'f RealClock" where
  "clock0 now = \<lparr>rc_dq = dq_empty, rc_heap = [], rc_cancelled = {||}, rc_next_id = 1, rc_running = True, rc_at = None,
     rc_now = now\<rparr>"

definition rc_schedule :: "u64 \<Rightarrow> 'f \<Rightarrow> 'f RealClock \<Rightarrow> u64 \<times> 'f RealClock" where
  "rc_schedule delay_us action c =
     (let i = rc_next_id c;
          c = c\<lparr>rc_next_id := rc_next_id c + 1\<rparr>;
          deadline = rc_now c + unat delay_us
      in (i, c\<lparr>rc_heap := \<lparr>e_deadline = deadline, e_id = i, e_action = action\<rparr> # rc_heap c\<rparr>))"

definition rc_cancel :: "u64 \<Rightarrow> 'f RealClock \<Rightarrow> 'f RealClock" where
  "rc_cancel i c = c\<lparr>rc_cancelled := finsert i (rc_cancelled c)\<rparr>"

definition rc_halt :: "'f RealClock \<Rightarrow> 'f RealClock" where
  "rc_halt c = c\<lparr>rc_running := False\<rparr>"

text \<open>\<open>std::uniform_int_distribution\<close> over a generator state \<open>'g\<close> is the parameter \<open>dist\<close>.\<close>

definition rc_random_range :: "(u64 \<Rightarrow> u64 \<Rightarrow> 'g \<Rightarrow> u64 \<times> 'g) \<Rightarrow> u64 \<Rightarrow> u64 \<Rightarrow> 'g \<Rightarrow> u64 \<times> 'g" where
  "rc_random_range dist lo hi g = (if hi \<le> lo then (lo, g) else dist lo (hi - 1) g)"

definition is_top :: "'f Entry \<Rightarrow> 'f Entry list \<Rightarrow> bool" where
  "is_top e h \<longleftrightarrow> e \<in> set h \<and> list_all (\<lambda>x. e_deadline e \<le> e_deadline x) h"

text \<open>One turn of the loop of \<open>run\<close> for a due top entry: it is dropped if cancelled, else it is about to be posted.\<close>

definition rc_pop :: "'f Entry \<Rightarrow> 'f RealClock \<Rightarrow> 'f RealClock" where
  "rc_pop e c =
     (let c = c\<lparr>rc_heap := remove1 e (rc_heap c)\<rparr>
      in if e_id e |\<in>| rc_cancelled c then c\<lparr>rc_cancelled := rc_cancelled c - {|e_id e|}\<rparr>
         else c\<lparr>rc_at := Some e\<rparr>)"

definition rc_deliver :: "'f Entry \<Rightarrow> 'f RealClock \<Rightarrow> 'f RealClock" where
  "rc_deliver e c = c\<lparr>rc_dq := dq_post (e_action e) (rc_dq c), rc_at := None\<rparr>"

datatype 'f clock_label =
    Schedule u64 'f
  | Cancel u64
  | Halt
  | Tick nat
  | Queue "'f DispatchQueue"
  | Pop "'f Entry"
  | Deliver "'f Entry"

text \<open>Timers are set and cancelled by any thread, time passes, other threads use the queue, and the background thread runs.\<close>

inductive clock_step :: "'f RealClock \<Rightarrow> 'f clock_label \<Rightarrow> 'f RealClock \<Rightarrow> bool" where
  schedule: "clock_step c (Schedule d a) (snd (rc_schedule d a c))"
| cancel: "clock_step c (Cancel i) (rc_cancel i c)"
| halt: "clock_step c Halt (rc_halt c)"
| tick: "clock_step c (Tick n) (c\<lparr>rc_now := rc_now c + n\<rparr>)"
| queue: "clock_step c (Queue d) (c\<lparr>rc_dq := d\<rparr>)"
| pop: "rc_running c \<Longrightarrow> rc_at c = None \<Longrightarrow> is_top e (rc_heap c) \<Longrightarrow> e_deadline e \<le> rc_now c
    \<Longrightarrow> clock_step c (Pop e) (rc_pop e c)"
| deliver: "rc_at c = Some e \<Longrightarrow> clock_step c (Deliver e) (rc_deliver e c)"

inductive_cases clock_stepE: "clock_step c l c'"
inductive_simps deliver_iff: "clock_step c (Deliver e) c'"

inductive clock_runs :: "'f RealClock \<Rightarrow> 'f clock_label list \<Rightarrow> 'f RealClock \<Rightarrow> bool" where
  stay: "clock_runs c [] c"
| more: "clock_step c l c1 \<Longrightarrow> clock_runs c1 ls c2 \<Longrightarrow> clock_runs c (l # ls) c2"

fun delivered :: "'f clock_label list \<Rightarrow> u64 list" where
  "delivered (Deliver e # ls) = e_id e # delivered ls"
| "delivered (_ # ls) = delivered ls"
| "delivered [] = []"

section \<open>Invariant\<close>

text \<open>
  Every timer has an id of its own, below the counter; an entry is in the heap or being posted, not both; and the one being
  posted is due.
\<close>

definition clock_inv :: "'f RealClock \<Rightarrow> bool" where
  "clock_inv c \<longleftrightarrow> distinct (map e_id (rc_heap c)) \<and> (\<forall>e \<in> set (rc_heap c). e_id e < rc_next_id c)
     \<and> (\<forall>e. rc_at c = Some e \<longrightarrow> e_id e < rc_next_id c \<and> e_id e \<notin> e_id ` set (rc_heap c) \<and> e_deadline e \<le> rc_now c)"

text \<open>No timer has this id any more, and none will get it.\<close>

definition spent :: "u64 \<Rightarrow> 'f RealClock \<Rightarrow> bool" where
  "spent i c \<longleftrightarrow> i < rc_next_id c \<and> i \<notin> e_id ` set (rc_heap c) \<and> (\<forall>e. rc_at c = Some e \<longrightarrow> e_id e \<noteq> i)"

text \<open>The timer was cancelled while it was in the heap.\<close>

definition doomed :: "u64 \<Rightarrow> 'f RealClock \<Rightarrow> bool" where
  "doomed i c \<longleftrightarrow> i < rc_next_id c \<and> i |\<in>| rc_cancelled c \<and> (\<forall>e. rc_at c = Some e \<longrightarrow> e_id e \<noteq> i)"

definition room :: "nat \<Rightarrow> 'f RealClock \<Rightarrow> bool" where
  "room k c \<longleftrightarrow> unat (rc_next_id c) + k < 2 ^ 64"

lemma next_id_up:
  assumes "room (Suc k) c" shows "rc_next_id c < rc_next_id c + 1" "unat (rc_next_id c + 1) = Suc (unat (rc_next_id c))"
proof -
  show u: "unat (rc_next_id c + 1) = Suc (unat (rc_next_id c))"
    using assms by (simp add: room_def unat_word_ariths)
  show "rc_next_id c < rc_next_id c + 1" by (simp add: word_less_nat_alt u)
qed

lemma room_step: "clock_step c l c' \<Longrightarrow> room (Suc k) c \<Longrightarrow> room k c'"
  by (erule clock_stepE)
    (auto simp: rc_schedule_def rc_cancel_def rc_halt_def rc_pop_def rc_deliver_def Let_def room_def next_id_up(2))

lemma removed_id:
  assumes "distinct (map e_id h)" "e \<in> set h" "x \<in> set (remove1 e h)"
  shows "x \<in> set h \<and> e_id x \<noteq> e_id e"
  using assms by (auto simp: distinct_map set_remove1_eq inj_on_def)

lemmas clock_ops = rc_schedule_def rc_cancel_def rc_halt_def rc_pop_def rc_deliver_def Let_def

lemma inv_step:
  assumes s: "clock_step c l c'" and i: "clock_inv c" and r: "room (Suc k) c"
  shows "clock_inv c'"
  using s
proof cases
  case (schedule d a)
  have up: "rc_next_id c < rc_next_id c + 1" using next_id_up [OF r] by simp
  have "\<forall>x. x < rc_next_id c \<longrightarrow> x < rc_next_id c + 1" using up by (meson less_trans)
  with i up show ?thesis unfolding schedule by (auto simp: clock_inv_def clock_ops)
next
  case (pop e)
  have e: "e \<in> set (rc_heap c)" using pop(5) by (simp add: is_top_def)
  have d: "distinct (map e_id (rc_heap c))" using i by (simp add: clock_inv_def)
  note out = removed_id [OF d e]
  have "distinct (map e_id (remove1 e (rc_heap c)))" using d by (simp add: distinct_map inj_on_def set_remove1_eq distinct_remove1)
  with i pop e show ?thesis by (auto simp: clock_inv_def clock_ops dest: out)
qed (use i in \<open>auto simp: clock_inv_def clock_ops\<close>)

lemma spent_step:
  assumes s: "clock_step c l c'" and i: "clock_inv c" and r: "room (Suc k) c" and d: "spent i c"
  shows "spent i c' \<and> (\<forall>e. l = Deliver e \<longrightarrow> e_id e \<noteq> i)"
  using s
proof cases
  case (schedule d' a)
  have up: "rc_next_id c < rc_next_id c + 1" using next_id_up [OF r] by simp
  have "i < rc_next_id c" using d by (simp add: spent_def)
  with up have "i < rc_next_id c + 1" "i \<noteq> rc_next_id c" by auto
  with d schedule show ?thesis by (auto simp: spent_def clock_ops)
next
  case (pop e)
  have "set (remove1 e (rc_heap c)) \<subseteq> set (rc_heap c)" by (rule set_remove1_subset)
  with pop d show ?thesis by (auto simp: spent_def clock_ops is_top_def)
qed (use d in \<open>auto simp: spent_def clock_ops\<close>)

lemma doomed_step:
  assumes s: "clock_step c l c'" and i: "clock_inv c" and r: "room (Suc k) c" and d: "doomed i c"
  shows "(doomed i c' \<or> spent i c') \<and> (\<forall>e. l = Deliver e \<longrightarrow> e_id e \<noteq> i)"
  using s
proof cases
  case (schedule d' a)
  have "i < rc_next_id c" using d by (simp add: doomed_def)
  with next_id_up [OF r] have "i < rc_next_id c + 1" by (meson less_trans)
  with d schedule show ?thesis by (auto simp: doomed_def clock_ops)
next
  case (pop e)
  have e: "e \<in> set (rc_heap c)" using pop(5) by (simp add: is_top_def)
  have "distinct (map e_id (rc_heap c))" using i by (simp add: clock_inv_def)
  note out = removed_id [OF this e]
  show ?thesis
  proof (cases "e_id e = i")
    case True
    with pop d have "spent i c'" by (auto simp: spent_def doomed_def clock_ops dest: out)
    with pop show ?thesis by simp
  next
    case False
    with pop d show ?thesis by (auto simp: doomed_def clock_ops)
  qed
qed (use d in \<open>auto simp: doomed_def clock_ops\<close>)

lemma delivers:
  assumes "clock_step c (Deliver e) c'" "clock_inv c" "room (Suc k) c"
  shows "spent (e_id e) c' \<and> e_deadline e \<le> rc_now c"
  using assms by (auto simp: deliver_iff clock_inv_def spent_def clock_ops)

section \<open>Runs\<close>

lemma runs_inv: "clock_runs c tr c' \<Longrightarrow> clock_inv c \<Longrightarrow> room (k + length tr) c \<Longrightarrow> clock_inv c' \<and> room k c'"
proof (induction arbitrary: k rule: clock_runs.induct)
  case (more c l c1 ls c2)
  then have "room (Suc (k + length ls)) c" by simp
  with more inv_step [OF more.hyps(1)] room_step [OF more.hyps(1)] show ?case by blast
qed simp

lemma runs_after:
  "clock_runs c tr c' \<Longrightarrow> clock_inv c \<Longrightarrow> room (length tr) c \<Longrightarrow> doomed i c \<or> spent i c \<Longrightarrow> i \<notin> set (delivered tr)"
proof (induction rule: clock_runs.induct)
  case (more c l c1 ls c2)
  then have r: "room (Suc (length ls)) c" by simp
  note s = more.hyps(1)
  have now: "(doomed i c1 \<or> spent i c1) \<and> (\<forall>e. l = Deliver e \<longrightarrow> e_id e \<noteq> i)"
    using more.prems(3) doomed_step [OF s more.prems(1) r] spent_step [OF s more.prems(1) r] by blast
  then show ?case using more.IH [OF inv_step [OF s more.prems(1) r] room_step [OF s r]] by (cases l) auto
qed simp

lemma runs_once: "clock_runs c tr c' \<Longrightarrow> clock_inv c \<Longrightarrow> room (length tr) c \<Longrightarrow> distinct (delivered tr)"
proof (induction rule: clock_runs.induct)
  case (more c l c1 ls c2)
  then have r: "room (Suc (length ls)) c" by simp
  note s = more.hyps(1)
  have i: "clock_inv c1" and r1: "room (length ls) c1" using inv_step [OF s more.prems(1) r] room_step [OF s r] .
  have d: "distinct (delivered ls)" using more.IH [OF i r1] .
  show ?case
  proof (cases l)
    case (Deliver e)
    with delivers [of c e c1] s more.prems(1) r have "spent (e_id e) c1" by blast
    with runs_after [OF more.hyps(2) i r1] d Deliver show ?thesis by simp
  qed (use d in simp_all)
qed simp

lemma clock0_ok: "clock_inv (clock0 t)" "k < 2 ^ 64 - 1 \<Longrightarrow> room k (clock0 t)"
  by (auto simp: clock_inv_def clock0_def room_def)

lemma runs_from_start:
  assumes "clock_runs (clock0 t) tr c" "length tr + k < 2 ^ 64 - 1"
  shows "clock_inv c" "room k c"
proof -
  have "room (k + length tr) (clock0 t)" using assms(2) by (simp add: clock0_ok(2) add.commute)
  from runs_inv [OF assms(1) clock0_ok(1) this] show "clock_inv c" "room k c" by simp_all
qed

section \<open>Properties\<close>

text \<open>
  C33. Timers of the real clock. No timer's action is posted before its deadline, and none twice. A timer that is cancelled
  while it is in the heap, so any one cancelled before its deadline, is never posted, whatever the interleaving. The runs
  have fewer than 2 to the 64 steps, so that ids do not repeat.
\<close>

theorem clock_timers:
  assumes "clock_runs (clock0 t) tr c" "length tr + length tr' < 2 ^ 64 - 1"
    and "e \<in> set (rc_heap c)" "clock_runs (rc_cancel (e_id e) c) tr' c'"
  shows "distinct (delivered tr) \<and> (\<forall>x c2. clock_step c (Deliver x) c2 \<longrightarrow> e_deadline x \<le> rc_now c)
    \<and> e_id e \<notin> set (delivered tr')"
proof -
  have i: "clock_inv c" and r: "room (length tr') c" using runs_from_start [OF assms(1,2)] .
  have i': "clock_inv (rc_cancel (e_id e) c)" and r': "room (length tr') (rc_cancel (e_id e) c)"
    using i r by (simp_all add: clock_inv_def room_def rc_cancel_def)
  have "doomed (e_id e) (rc_cancel (e_id e) c)" using i assms(3) by (auto simp: clock_inv_def doomed_def rc_cancel_def)
  then have "e_id e \<notin> set (delivered tr')" using runs_after [OF assms(4) i' r'] by blast
  moreover have "length tr < 2 ^ 64 - 1" using assms(2) by linarith
  then have "distinct (delivered tr)" using runs_once [OF assms(1) clock0_ok] by blast
  moreover have "\<forall>x c2. clock_step c (Deliver x) c2 \<longrightarrow> e_deadline x \<le> rc_now c"
    using i by (auto simp: deliver_iff clock_inv_def)
  ultimately show ?thesis by blast
qed

text \<open>Two timers, of which the second is cancelled before it is due, and then both times pass.\<close>

definition two_timers :: "nat clock_label list" where
  "two_timers = [Schedule 5 10, Schedule 3 20]"

definition after_cancel :: "nat clock_label list" where
  "after_cancel = [Tick 9, Pop \<lparr>e_deadline = 3, e_id = 2, e_action = 20\<rparr>,
     Pop \<lparr>e_deadline = 5, e_id = 1, e_action = 10\<rparr>, Deliver \<lparr>e_deadline = 5, e_id = 1, e_action = 10\<rparr>]"

definition timers_set :: "nat RealClock" where
  "timers_set = (clock0 0)\<lparr>rc_heap := [\<lparr>e_deadline = 3, e_id = 2, e_action = 20\<rparr>, \<lparr>e_deadline = 5, e_id = 1, e_action = 10\<rparr>],
     rc_next_id := 3\<rparr>"

lemma two_timers_run: "clock_runs (clock0 0) two_timers timers_set"
proof -
  let ?c = "snd (rc_schedule 5 10 (clock0 0 :: nat RealClock))"
  have "snd (rc_schedule 3 20 ?c) = timers_set" by (simp add: rc_schedule_def clock0_def timers_set_def Let_def)
  then show ?thesis unfolding two_timers_def by (metis clock_runs.intros clock_step.schedule)
qed

lemma after_cancel_run: "\<exists>c. clock_runs (rc_cancel 2 timers_set) after_cancel c"
  unfolding after_cancel_def
  by (intro exI, (rule clock_runs.more, (rule clock_step.intros; simp add: clock_ops timers_set_def clock0_def is_top_def))+)
    (rule clock_runs.stay)

theorem clock_timers_witness:
  "(\<exists>c. clock_runs (rc_cancel 2 timers_set) after_cancel c) \<and> delivered after_cancel = [1] \<and> 2 \<notin> set (delivered after_cancel)"
proof -
  obtain c where c: "clock_runs (rc_cancel 2 timers_set) after_cancel c" using after_cancel_run by blast
  let ?e = "\<lparr>e_deadline = 3, e_id = 2, e_action = 20\<rparr> :: nat Entry"
  have "e_id ?e \<notin> set (delivered after_cancel)"
    by (rule clock_timers [OF two_timers_run, of after_cancel ?e c, THEN conjunct2, THEN conjunct2])
      (use c in \<open>simp_all add: two_timers_def after_cancel_def timers_set_def\<close>)
  with c show ?thesis by (auto simp: after_cancel_def)
qed

text \<open>
  C38. \<open>random_range\<close> stays in its half-open range, as \<open>Prng::range\<close> does. The distribution is a parameter; what is used
  of it is that it draws from its closed range. An empty range gives its lower end and draws nothing; the
  subtraction in the upper bound never wraps.
\<close>

theorem random_range_bounds:
  assumes "\<forall>a b g. a \<le> b \<longrightarrow> a \<le> fst (dist a b g) \<and> fst (dist a b g) \<le> b"
  shows "lo \<le> fst (rc_random_range dist lo hi g)
    \<and> (lo < hi \<longrightarrow> fst (rc_random_range dist lo hi g) < hi)
    \<and> (hi \<le> lo \<longrightarrow> rc_random_range dist lo hi g = (lo, g))"
proof (cases "hi \<le> lo")
  case False
  then have lt: "lo < hi" by simp
  have one: "unat (hi - 1) = unat hi - 1" using lt by (simp add: unat_sub_64 word_simps word_less_nat_alt word_le_nat_alt)
  have "lo \<le> hi - 1" "hi - 1 < hi" using lt unfolding word_le_nat_alt word_less_nat_alt one by linarith+
  with assms [rule_format, of lo "hi - 1" g] False show ?thesis by (auto simp: rc_random_range_def)
qed (simp add: rc_random_range_def)

theorem random_range_bounds_witness:
  "150 \<le> fst (rc_random_range (\<lambda>a b g. (b, g)) 150 300 ()) \<and> fst (rc_random_range (\<lambda>a b g. (b, g)) 150 300 ()) < 300
   \<and> rc_random_range (\<lambda>a b g. (b, g)) 7 7 () = (7, ())"
proof -
  have d: "\<forall>(a::u64) (b::u64) (g::unit). a \<le> b \<longrightarrow> a \<le> fst (b, g) \<and> fst (b, g) \<le> b" by simp
  show ?thesis using random_range_bounds [OF d, of 150 300 "()"] random_range_bounds [OF d, of 7 7 "()"] by simp
qed

text \<open>
  A cancel that comes after the pop is too late, and it leaves its mark. The entry is still posted, and the id stays in
  \<open>cancelled_\<close> in every later state: nothing erases the id of a timer that has left the heap.
\<close>

lemma marked_step:
  assumes "clock_step c l c'" "clock_inv c" "room (Suc k) c" "spent i c" "i |\<in>| rc_cancelled c"
  shows "i |\<in>| rc_cancelled c'"
  using assms by (cases rule: clock_step.cases) (auto simp: clock_ops spent_def is_top_def)

lemma marked_runs:
  "clock_runs c tr c' \<Longrightarrow> clock_inv c \<Longrightarrow> room (length tr) c \<Longrightarrow> spent i c \<Longrightarrow> i |\<in>| rc_cancelled c \<Longrightarrow> i |\<in>| rc_cancelled c'"
proof (induction rule: clock_runs.induct)
  case (more c l c1 ls c2)
  then have r: "room (Suc (length ls)) c" by simp
  note s = more.hyps(1)
  show ?case
    using more.IH [OF inv_step [OF s more.prems(1) r] room_step [OF s r]]
      spent_step [OF s more.prems(1) r more.prems(3)] marked_step [OF s more.prems(1) r more.prems(3,4)] by blast
qed simp

theorem late_cancel:
  assumes "clock_runs (clock0 t) tr c" "rc_at c = Some e" "length tr + Suc (length tr') < 2 ^ 64 - 1"
    and "clock_runs (rc_deliver e (rc_cancel (e_id e) c)) tr' c'"
  shows "clock_step (rc_cancel (e_id e) c) (Deliver e) (rc_deliver e (rc_cancel (e_id e) c))
    \<and> e_id e |\<in>| rc_cancelled c'"
proof -
  let ?c = "rc_cancel (e_id e) c" and ?d = "rc_deliver e (rc_cancel (e_id e) c)"
  have i: "clock_inv c" and r: "room (Suc (length tr')) c" using runs_from_start [OF assms(1,3)] .
  have i': "clock_inv ?c" and r': "room (Suc (length tr')) ?c"
    using i r by (simp_all add: clock_inv_def room_def rc_cancel_def)
  have s: "clock_step ?c (Deliver e) ?d" using assms(2) by (intro clock_step.deliver) (simp add: rc_cancel_def)
  have "e_id e |\<in>| rc_cancelled ?d" by (simp add: clock_ops)
  with marked_runs [OF assms(4) inv_step [OF s i' r'] room_step [OF s r']] delivers [OF s i' r'] s show ?thesis by blast
qed

end
