(* ===== verification/Std_Text.thy ===== *)
theory Std_Text
  imports History
begin

text \<open>
  The text functions of the standard library that the two programs \<open>simkv\<close> and \<open>simkv-server\<close> use on their input:
  \<open>std::stoul\<close> and \<open>std::stoull\<close>, \<open>std::getline\<close> with a separator, \<open>find\<close> and \<open>rfind\<close>, \<open>operator>>\<close> into a
  string, and \<open>std::fgets\<close>. An \<open>unsigned long\<close> has 64 bits.
\<close>

section \<open>Runs of characters\<close>

lemma takeWhile_whole: "\<forall>x \<in> set s. P x \<Longrightarrow> takeWhile P s = s"
  and dropWhile_whole: "\<forall>x \<in> set s. P x \<Longrightarrow> dropWhile P s = []"
  by (induction s) auto

section \<open>Numbers\<close>

datatype arg_error = Usage | InvalidArgument | TooLarge

definition is_space :: "char \<Rightarrow> bool" where
  "is_space c \<longleftrightarrow> c \<in> {CHR 0x20, CHR 0x09, CHR 0x0A, CHR 0x0B, CHR 0x0C, CHR 0x0D}"

definition is_digit :: "char \<Rightarrow> bool" where
  "is_digit c \<longleftrightarrow> 48 \<le> (of_char c :: nat) \<and> (of_char c :: nat) \<le> 57"

text \<open>
  White space and a sign are skipped, digits are read up to the first other character, and what follows is ignored. A minus
  sign negates the unsigned result.
\<close>

definition stoul :: "string \<Rightarrow> arg_error + u64" where
  "stoul s =
     (let s = dropWhile is_space s;
          neg = (s \<noteq> [] \<and> hd s = CHR ''-'');
          s = (if s \<noteq> [] \<and> (hd s = CHR ''-'' \<or> hd s = CHR ''+'') then tl s else s);
          ds = takeWhile is_digit s;
          n = read_nat 0 ds
      in if ds = [] then Inl InvalidArgument
         else if n \<ge> 2 ^ 64 then Inl TooLarge
         else Inr (if neg then - of_nat n else of_nat n))"

lemma is_digit_digit [simp]: "d < 10 \<Longrightarrow> is_digit (digit d)"
  by (simp add: is_digit_def digit_def)

lemma show_nat_digits: "c \<in> set (show_nat n) \<Longrightarrow> is_digit c"
proof (induction n rule: show_nat.induct)
  case (1 n)
  then show ?case by (cases "n < 10") (auto simp: show_nat.simps [of n])
qed

lemma show_nat_not_Nil [simp]: "show_nat n \<noteq> []"
  by (simp add: show_nat.simps [of n])

lemma digit_not: "is_digit c \<Longrightarrow> \<not> is_space c \<and> c \<noteq> CHR ''-'' \<and> c \<noteq> CHR ''+'' \<and> c \<noteq> CHR '':'' \<and> c \<noteq> CHR '','' \<and> c \<noteq> CHR 0x00"
  by (auto simp: is_digit_def is_space_def)

lemma show_nat_hd: "is_digit (hd (show_nat n))"
  by (rule show_nat_digits [OF hd_in_set]) simp

lemma stoul_show:
  assumes "n < 2 ^ 64" shows "stoul (show_nat n) = Inr (of_nat n)"
proof -
  have "dropWhile is_space (show_nat n) = show_nat n"
    using digit_not [OF show_nat_hd [of n]] by (cases "show_nat n") auto
  moreover have "takeWhile is_digit (show_nat n) = show_nat n" by (rule takeWhile_whole) (blast intro: show_nat_digits)
  ultimately show ?thesis using digit_not [OF show_nat_hd [of n]] assms
    by (simp add: stoul_def Let_def read_show_nat del: takeWhile_eq_all_conv)
qed

section \<open>Searching and splitting\<close>

definition str_find :: "char \<Rightarrow> string \<Rightarrow> nat option" where
  "str_find c s = (if c \<in> set s then Some (length (takeWhile (\<lambda>x. x \<noteq> c) s)) else None)"

definition str_rfind :: "char \<Rightarrow> string \<Rightarrow> nat option" where
  "str_rfind c s = map_option (\<lambda>i. length s - 1 - i) (str_find c (rev s))"

definition substr :: "nat \<Rightarrow> nat \<Rightarrow> string \<Rightarrow> string" where
  "substr pos n s = take n (drop pos s)"

lemma str_find_at: "c \<notin> set a \<Longrightarrow> str_find c (a @ c # b) = Some (length a)"
  by (simp add: str_find_def takeWhile_tail) (rule arg_cong [of _ _ length], rule takeWhile_whole, blast)

lemma str_rfind_at: "c \<notin> set b \<Longrightarrow> str_rfind c (a @ c # b) = Some (length a)"
  using str_find_at [of c "rev b" "rev a"] by (simp add: str_rfind_def)

text \<open>\<open>while (std::getline(ss, token, sep))\<close>: the separator ends a token, and nothing after the last one is no token.\<close>

function getlines :: "char \<Rightarrow> string \<Rightarrow> string list" where
  "getlines sep s =
     (if s = [] then []
      else takeWhile (\<lambda>c. c \<noteq> sep) s # getlines sep (drop 1 (dropWhile (\<lambda>c. c \<noteq> sep) s)))"
  by pat_completeness auto
termination
  by (relation "measure (\<lambda>(sep, s). length s)") (auto simp: less_Suc_eq_le diff_le_mono intro!: diff_less_mono length_dropWhile_le order.strict_trans1 [OF diff_le_mono [OF length_dropWhile_le]])

declare getlines.simps [simp del]

lemma getlines_join: "\<forall>t \<in> set ts. t \<noteq> [] \<and> sep \<notin> set t \<Longrightarrow> getlines sep (join [sep] ts) = ts"
proof (induction "[sep]" ts rule: join.induct)
  case 1
  show ?case by (simp add: getlines.simps)
next
  case (2 s)
  then have "takeWhile (\<lambda>c. c \<noteq> sep) s = s" "dropWhile (\<lambda>c. c \<noteq> sep) s = []"
    by (auto intro!: takeWhile_whole dropWhile_whole)
  with 2 show ?case
    by (simp add: getlines.simps [of sep s] getlines.simps [of sep "[]"] del: takeWhile_eq_all_conv dropWhile_eq_Nil_conv)
next
  case (3 s t ss)
  then have "takeWhile (\<lambda>c. c \<noteq> sep) (s @ [sep] @ join [sep] (t # ss)) = s"
    "drop 1 (dropWhile (\<lambda>c. c \<noteq> sep) (s @ [sep] @ join [sep] (t # ss))) = join [sep] (t # ss)"
    by (auto simp: takeWhile_tail dropWhile_append)
  with 3 show ?case by (simp add: getlines.simps [of sep "s @ sep # join [sep] (t # ss)"])
qed

section \<open>Words and lines\<close>

text \<open>The strings that repeated \<open>stream >> word\<close> gives.\<close>

function words :: "string \<Rightarrow> string list" where
  "words s =
     (let s = dropWhile is_space s
      in if s = [] then [] else takeWhile (\<lambda>c. \<not> is_space c) s # words (dropWhile (\<lambda>c. \<not> is_space c) s))"
  by pat_completeness auto
termination
proof (relation "measure length")
  fix s x :: string
  assume x: "x = dropWhile is_space s" "x \<noteq> []"
  then have "\<not> is_space (hd x)" using hd_dropWhile [of is_space s] by simp
  with x(2) have "length (dropWhile (\<lambda>c. \<not> is_space c) x) < length x"
    by (cases x) (auto intro: le_imp_less_Suc length_dropWhile_le)
  also have "length x \<le> length s" unfolding x(1) by (rule length_dropWhile_le)
  finally show "(dropWhile (\<lambda>c. \<not> is_space c) x, s) \<in> measure length" by simp
qed simp

declare words.simps [simp del]

text \<open>A token: what one word of a line can be. The null byte ends a C string.\<close>

definition token :: "string \<Rightarrow> bool" where
  "token s \<longleftrightarrow> s \<noteq> [] \<and> (\<forall>c \<in> set s. \<not> is_space c \<and> c \<noteq> CHR 0x00)"

lemma words_Nil [simp]: "words [] = []"
  by (simp add: words.simps)

lemma words_token: "token s \<Longrightarrow> r = [] \<or> is_space (hd r) \<Longrightarrow> words (s @ r) = s # words r"
proof -
  assume t: "token s" and r: "r = [] \<or> is_space (hd r)"
  then have "dropWhile is_space (s @ r) = s @ r" by (cases s) (auto simp: token_def)
  moreover have "takeWhile (\<lambda>c. \<not> is_space c) (s @ r) = s" "dropWhile (\<lambda>c. \<not> is_space c) (s @ r) = r"
    using t r by (cases r; auto simp: token_def takeWhile_append dropWhile_append takeWhile_eq_all_conv)+
  ultimately show ?thesis using t by (simp add: words.simps [of "s @ r"] token_def)
qed

lemma words_space [simp]: "words (CHR 0x20 # r) = words r"
  by (simp add: words.simps [of "CHR 0x20 # r"] words.simps [of r] is_space_def)

lemma words_join: "\<forall>t \<in> set ts. token t \<Longrightarrow> words (join '' '' ts) = ts"
proof (induction "'' ''" ts rule: join.induct)
  case (2 s)
  then show ?case using words_token [of s "[]"] by simp
next
  case (3 s t ss)
  then show ?case using words_token [of s "CHR 0x20 # join '' '' (t # ss)"] by (simp add: is_space_def)
qed simp

text \<open>\<open>fgets\<close> into a buffer of \<open>n + 1\<close> bytes: up to \<open>n\<close> characters, ending after a newline.\<close>

fun take_line :: "nat \<Rightarrow> string \<Rightarrow> string" where
  "take_line 0 s = []"
| "take_line (Suc n) [] = []"
| "take_line (Suc n) (c # cs) = c # (if c = newline then [] else take_line n cs)"

lemma take_line_pos: "0 < n \<Longrightarrow> s \<noteq> [] \<Longrightarrow> take_line n s \<noteq> []"
  by (cases n; cases s) auto

function fgets_all :: "nat \<Rightarrow> string \<Rightarrow> string list" where
  "fgets_all n s =
     (if n = 0 \<or> s = [] then []
      else let chunk = take_line n s in chunk # fgets_all n (drop (length chunk) s))"
  by pat_completeness auto
termination
  by (relation "measure (\<lambda>(n, s). length s)") (auto simp: take_line_pos)

declare fgets_all.simps [simp del]

lemma take_line_whole: "newline \<notin> set l \<Longrightarrow> length l < n \<Longrightarrow> take_line n (l @ newline # r) = l @ [newline]"
proof (induction l arbitrary: n)
  case Nil
  then show ?case by (cases n) auto
next
  case (Cons c l)
  then show ?case by (cases n) auto
qed

lemma take_line_cut: "newline \<notin> set l \<Longrightarrow> n \<le> length l \<Longrightarrow> take_line n (l @ r) = take n l"
proof (induction l arbitrary: n)
  case (Cons c l)
  then show ?case by (cases n) auto
qed simp

lemma fgets_all_line:
  assumes "newline \<notin> set l" "length l < n"
  shows "fgets_all n (l @ newline # r) = (l @ [newline]) # fgets_all n r"
  using take_line_whole [OF assms, of r] assms(2) by (simp add: fgets_all.simps [of n "l @ newline # r"] Let_def)

lemma fgets_all_lines:
  "\<forall>l \<in> set ls. newline \<notin> set l \<and> length l < n \<Longrightarrow>
   fgets_all n (concat (map (\<lambda>l. l @ [newline]) ls)) = map (\<lambda>l. l @ [newline]) ls"
proof (induction ls)
  case (Cons l ls)
  then show ?case using fgets_all_line [of l n "concat (map (\<lambda>l. l @ [newline]) ls)"] by simp
qed (simp add: fgets_all.simps)

end
