(* ===== verification/Tcp_Transport.thy ===== *)
theory Tcp_Transport
  imports Codec History
begin

unbundle bit_operations_syntax

text \<open>
  \<open>src/server/tcp_transport.cpp\<close>: messages between real servers, one frame each on a TCP connection. The
  socket calls are the record \<open>sockets\<close> over a state \<open>'o\<close> of everything outside the calling thread: the kernel, the
  peers and the other threads. What is used of them is stated by \<open>sending_ok\<close> and \<open>receiving_ok\<close>: the documented
  behaviour of a stream socket, with reads and writes of any size.

  \<open>send\<close>, \<open>connect_to\<close>, \<open>write_all\<close>, \<open>read_all\<close> and \<open>recv_loop\<close> are modelled. The thread bookkeeping of the constructor,
  \<open>accept_loop\<close> and the destructor is not.
\<close>

section \<open>Sockets and the transport\<close>

record ('o, 'r) sockets =
  sk_getaddrinfo :: "string \<Rightarrow> string \<Rightarrow> 'o \<Rightarrow> 'r option"
  sk_socket :: "'r \<Rightarrow> 'o \<Rightarrow> int \<times> 'o"
  sk_connect :: "int \<Rightarrow> 'r \<Rightarrow> 'o \<Rightarrow> int \<times> 'o"
  sk_close :: "int \<Rightarrow> 'o \<Rightarrow> 'o"
  sk_send :: "int \<Rightarrow> byte list \<Rightarrow> 'o \<Rightarrow> int \<times> 'o"
  sk_read :: "int \<Rightarrow> nat \<Rightarrow> 'o \<Rightarrow> int \<times> byte list \<times> 'o"

record PeerAddr =
  pa_host :: string
  pa_port :: "16 word"

record 'h TcpTransport =
  t_my_id :: NodeId
  t_peers :: "(NodeId, PeerAddr) omap"
  t_send_fds :: "(NodeId, int) omap"
  t_handler :: "'h option"
  t_running :: bool

record tcp_message =
  tm_from :: NodeId
  tm_to :: NodeId
  tm_payload :: "byte list"

definition set_handler :: "NodeId \<Rightarrow> 'h \<Rightarrow> 'h TcpTransport \<Rightarrow> 'h TcpTransport" where
  "set_handler i h t = t\<lparr>t_handler := Some h\<rparr>"

definition remove_handler :: "NodeId \<Rightarrow> 'h TcpTransport \<Rightarrow> 'h TcpTransport" where
  "remove_handler i t = t\<lparr>t_handler := None\<rparr>"

section \<open>Byte order\<close>

text \<open>\<open>htonl\<close> and \<open>ntohl\<close> on a little-endian host reverse the four bytes; a word lies in memory as \<open>enc_u32\<close> writes it.\<close>

definition load_u32 :: "byte list \<Rightarrow> u32" where
  "load_u32 bs = (case dec_u32 bs of Inl _ \<Rightarrow> 0 | Inr (v, _) \<Rightarrow> v)"

definition to_be32 :: "u32 \<Rightarrow> u32" where
  "to_be32 v = load_u32 (rev (enc_u32 v))"

definition from_be32 :: "u32 \<Rightarrow> u32" where
  "from_be32 v = load_u32 (rev (enc_u32 v))"

section \<open>Whole writes and whole reads\<close>

function write_all :: "('o, 'r) sockets \<Rightarrow> int \<Rightarrow> byte list \<Rightarrow> 'o \<Rightarrow> bool \<times> 'o" where
  "write_all S fd buf os =
     (if buf = [] then (True, os)
      else case sk_send S fd buf os of (n, os') \<Rightarrow>
        if n \<le> 0 then (False, os') else write_all S fd (drop (nat n) buf) os')"
  by pat_completeness auto
termination
  by (relation "measure (\<lambda>(S, fd, buf, os). length buf)") auto

declare write_all.simps [simp del]

function read_all :: "('o, 'r) sockets \<Rightarrow> int \<Rightarrow> nat \<Rightarrow> 'o \<Rightarrow> byte list option \<times> 'o" where
  "read_all S fd len os =
     (if len = 0 then (Some [], os)
      else case sk_read S fd len os of (n, bs, os') \<Rightarrow>
        if n \<le> 0 then (None, os')
        else case read_all S fd (len - nat n) os' of
               (None, os'') \<Rightarrow> (None, os'')
             | (Some rest, os'') \<Rightarrow> (Some (bs @ rest), os''))"
  by pat_completeness auto
termination
  by (relation "measure (\<lambda>(S, fd, len, os). len)") auto

declare read_all.simps [simp del]

section \<open>Sending\<close>

definition connect_to :: "('o, 'r) sockets \<Rightarrow> NodeId \<Rightarrow> 'h TcpTransport \<Rightarrow> 'o \<Rightarrow> int \<times> 'o" where
  "connect_to S peer t os =
     (case map_of (t_peers t) peer of
        None \<Rightarrow> (- 1, os)
      | Some pa \<Rightarrow>
          (case sk_getaddrinfo S (pa_host pa) (show_nat (unat (pa_port pa))) os of
             None \<Rightarrow> (- 1, os)
           | Some res \<Rightarrow>
               let (fd, os) = sk_socket S res os
               in if fd < 0 then (- 1, os)
                  else
                    let (r, os) = sk_connect S fd res os
                    in if r < 0 then (- 1, sk_close S fd os) else (fd, os)))"

text \<open>The lambda \<open>do_write\<close> of \<open>send\<close>: the two header words and the payload, stopping at the first failure.\<close>

definition do_write :: "('o, 'r) sockets \<Rightarrow> u32 \<Rightarrow> u32 \<Rightarrow> byte list \<Rightarrow> int \<Rightarrow> 'o \<Rightarrow> bool \<times> 'o" where
  "do_write S hdr_from hdr_len payload wfd os =
     (case write_all S wfd (enc_u32 hdr_from) os of
        (False, os) \<Rightarrow> (False, os)
      | (True, os) \<Rightarrow>
          (case write_all S wfd (enc_u32 hdr_len) os of
             (False, os) \<Rightarrow> (False, os)
           | (True, os) \<Rightarrow> write_all S wfd payload os))"

definition tcp_send :: "('o, 'r) sockets \<Rightarrow> NodeId \<Rightarrow> NodeId \<Rightarrow> byte list \<Rightarrow> 'h TcpTransport \<Rightarrow> 'o \<Rightarrow> 'h TcpTransport \<times> 'o" where
  "tcp_send S from to payload t os =
     (if \<not> t_running t then (t, os)
      else
        let (fd, t, os) =
              (case map_of (t_send_fds t) to of
                 Some fd \<Rightarrow> (fd, t, os)
               | None \<Rightarrow>
                   let (fd, os) = connect_to S to t os
                   in if fd < 0 then (fd, t, os) else (fd, t\<lparr>t_send_fds := om_put to fd (t_send_fds t)\<rparr>, os))
        in if map_of (t_send_fds t) to = None then (t, os)
           else
             let hdr_from = to_be32 from;
                 hdr_len = to_be32 (of_nat (length payload));
                 (ok, os) = do_write S hdr_from hdr_len payload fd os
             in if ok then (t, os)
                else
                  let os = sk_close S fd os;
                      t = t\<lparr>t_send_fds := om_erase to (t_send_fds t)\<rparr>;
                      (fd, os) = connect_to S to t os
                  in if fd \<ge> 0 then
                       let t = t\<lparr>t_send_fds := om_put to fd (t_send_fds t)\<rparr>
                       in (t, snd (do_write S hdr_from hdr_len payload fd os))
                     else (t, os))"

section \<open>Receiving\<close>

text \<open>
  \<open>recv_loop\<close> reads the members of the transport as they are at that moment, after whatever other threads did:
  \<open>mem\<close> gives them. A post is the pair of the handler and the message; \<open>posted\<close> are those made so far.
\<close>

partial_function (option) recv_loop ::
  "('o, 'r) sockets \<Rightarrow> ('o \<Rightarrow> 'h TcpTransport) \<Rightarrow> int \<Rightarrow> ('h \<times> tcp_message) list \<Rightarrow> 'o \<Rightarrow> (('h \<times> tcp_message) list \<times> 'o) option" where
  "recv_loop S mem fd posted os =
     (if \<not> t_running (mem os) then Some (posted, sk_close S fd os)
      else case read_all S fd 8 os of
        (None, os) \<Rightarrow> Some (posted, sk_close S fd os)
      | (Some hdr, os) \<Rightarrow>
          let sender_id = from_be32 (load_u32 hdr);
              payload_len = from_be32 (load_u32 (drop 4 hdr))
          in if payload_len > 64 * 1024 * 1024 then Some (posted, sk_close S fd os)
             else case read_all S fd (unat payload_len) os of
               (None, os) \<Rightarrow> Some (posted, sk_close S fd os)
             | (Some payload, os) \<Rightarrow>
                 let msg = \<lparr>tm_from = sender_id, tm_to = t_my_id (mem os), tm_payload = payload\<rparr>
                 in case t_handler (mem os) of
                      None \<Rightarrow> recv_loop S mem fd posted os
                    | Some h \<Rightarrow> recv_loop S mem fd (posted @ [(h, msg)]) os)"

section \<open>Frames\<close>

definition frame :: "NodeId \<times> byte list \<Rightarrow> byte list" where
  "frame m = enc_u32 (to_be32 (fst m)) @ enc_u32 (to_be32 (of_nat (length (snd m)))) @ snd m"

definition small :: "NodeId \<times> byte list \<Rightarrow> bool" where
  "small m \<longleftrightarrow> length (snd m) \<le> 67108864"

lemma load_enc [simp]: "load_u32 (enc_u32 v) = v" "load_u32 (enc_u32 v @ r) = v"
  using dec_u32_enc [of v "[]"] by (simp_all add: load_u32_def)

lemma enc_load_bytes: "enc_u32 (load_u32 [a, b, c, d]) = [a, b, c, d]"
  unfolding enc_u32_def load_u32_def dec_u32_def
  by (simp, intro conjI; rule bit_word_eqI; auto simp: bit_simps dest: bit_imp_le_length)

lemma enc_load: "length bs = 4 \<Longrightarrow> enc_u32 (load_u32 bs) = bs"
  by (auto simp: length_Suc_conv numeral_eq_Suc enc_load_bytes)

lemma be32_twice [simp]: "from_be32 (to_be32 v) = v"
  by (simp add: from_be32_def to_be32_def enc_load)

lemma length_frame [simp]: "length (frame m) = 8 + length (snd m)"
  by (simp add: frame_def)

lemma frame_header:
  "from_be32 (load_u32 (take 8 (frame m))) = fst m"
  "small m \<Longrightarrow> unat (from_be32 (load_u32 (drop 4 (take 8 (frame m))))) = length (snd m)"
  "drop 8 (frame m) = snd m"
  by (simp_all add: frame_def small_def unat_of_nat_32)

section \<open>What the sockets are assumed to do\<close>

text \<open>A write of a stream socket appends a prefix of the buffer to what has been sent; a failing one appends nothing.\<close>

definition sending_ok :: "('o, 'r) sockets \<Rightarrow> int \<Rightarrow> ('o \<Rightarrow> byte list) \<Rightarrow> bool" where
  "sending_ok S fd sent \<longleftrightarrow> (\<forall>buf os n os'. sk_send S fd buf os = (n, os') \<longrightarrow>
     n \<le> int (length buf) \<and> sent os' = sent os @ take (nat n) buf)"

definition link_up :: "('o, 'r) sockets \<Rightarrow> int \<Rightarrow> bool" where
  "link_up S fd \<longleftrightarrow> (\<forall>buf os. buf \<noteq> [] \<longrightarrow> 0 < fst (sk_send S fd buf os))"

text \<open>
  A read takes some bytes, at least one, off the front of what has arrived and not been read; when nothing is left the
  connection is at its end.
\<close>

definition receiving_ok :: "('o, 'r) sockets \<Rightarrow> int \<Rightarrow> ('o \<Rightarrow> byte list) \<Rightarrow> bool" where
  "receiving_ok S fd pending \<longleftrightarrow> (\<forall>len os n bs os'. 0 < len \<longrightarrow> sk_read S fd len os = (n, bs, os') \<longrightarrow>
     (if pending os = [] then n \<le> 0
      else 0 < n \<and> nat n \<le> len \<and> nat n \<le> length (pending os) \<and> bs = take (nat n) (pending os)
        \<and> pending os' = drop (nat n) (pending os)))"

definition listening :: "('o \<Rightarrow> 'h TcpTransport) \<Rightarrow> 'h \<Rightarrow> NodeId \<Rightarrow> bool" where
  "listening mem h me \<longleftrightarrow> (\<forall>os. t_running (mem os) \<and> t_handler (mem os) = Some h \<and> t_my_id (mem os) = me)"

section \<open>The sender\<close>

lemma write_all_sends:
  "sending_ok S fd sent \<Longrightarrow> write_all S fd buf os = (ok, os') \<Longrightarrow>
    \<exists>k \<le> length buf. sent os' = sent os @ take k buf \<and> (ok \<longleftrightarrow> k = length buf)"
proof (induction "length buf" arbitrary: buf os rule: less_induct)
  case less
  show ?case
  proof (cases "buf = []")
    case True
    with less.prems show ?thesis by (simp add: write_all.simps [of S fd "[]"])
  next
    case False
    obtain n os1 where w: "sk_send S fd buf os = (n, os1)" by fastforce
    have n: "n \<le> int (length buf)" and s: "sent os1 = sent os @ take (nat n) buf"
      using less.prems(1) w unfolding sending_ok_def by blast+
    show ?thesis
    proof (cases "n \<le> 0")
      case True
      with less.prems False w s have "\<not> ok" "sent os' = sent os @ take 0 buf" by (simp_all add: write_all.simps [of S fd buf])
      with False show ?thesis by (intro exI [of _ 0]) simp
    next
      case pos: False
      with less.prems(2) False w have r: "write_all S fd (drop (nat n) buf) os1 = (ok, os')"
        by (simp add: write_all.simps [of S fd buf])
      from False pos have "length (drop (nat n) buf) < length buf" by simp
      from less.hyps [OF this less.prems(1) r] obtain k where
        "k \<le> length (drop (nat n) buf)" "sent os' = sent os1 @ take k (drop (nat n) buf)" "ok \<longleftrightarrow> k = length (drop (nat n) buf)"
        by blast
      with s n pos show ?thesis by (intro exI [of _ "nat n + k"]) (auto simp: take_add)
    qed
  qed
qed

lemma write_all_up: "link_up S fd \<Longrightarrow> fst (write_all S fd buf os)"
proof (induction "length buf" arbitrary: buf os rule: less_induct)
  case less
  show ?case
  proof (cases "buf = []")
    case False
    obtain n os1 where w: "sk_send S fd buf os = (n, os1)" by fastforce
    with less.prems False have "0 < n" unfolding link_up_def by (metis fst_conv)
    with less.hyps [of "drop (nat n) buf" os1] less.prems False w show ?thesis by (simp add: write_all.simps [of S fd buf])
  qed (simp add: write_all.simps)
qed

lemma write_all_whole:
  assumes "sending_ok S fd sent" "link_up S fd"
  obtains os' where "write_all S fd buf os = (True, os')" "sent os' = sent os @ buf"
proof -
  obtain ok os' where w: "write_all S fd buf os = (ok, os')" by fastforce
  with write_all_up [OF assms(2), of buf os] have "ok" by simp
  with write_all_sends [OF assms(1) w] w that show ?thesis by auto
qed

lemma do_write_up:
  assumes "sending_ok S fd sent" "link_up S fd"
  shows "\<exists>os'. do_write S (to_be32 from) (to_be32 (of_nat (length p))) p fd os = (True, os') \<and> sent os' = sent os @ frame (from, p)"
proof -
  note w = write_all_whole [OF assms]
  obtain o1 where "write_all S fd (enc_u32 (to_be32 from)) os = (True, o1)" "sent o1 = sent os @ enc_u32 (to_be32 from)" by (rule w)
  moreover obtain o2 where "write_all S fd (enc_u32 (to_be32 (of_nat (length p)))) o1 = (True, o2)"
    "sent o2 = sent o1 @ enc_u32 (to_be32 (of_nat (length p)))" by (rule w)
  moreover obtain o3 where "write_all S fd p o2 = (True, o3)" "sent o3 = sent o2 @ p" by (rule w)
  ultimately show ?thesis by (intro exI [of _ o3]) (simp add: do_write_def frame_def)
qed

lemma send_up:
  assumes "sending_ok S fd sent" "link_up S fd" "t_running t" "map_of (t_send_fds t) to = Some fd"
  shows "\<exists>os'. tcp_send S from to p t os = (t, os') \<and> sent os' = sent os @ frame (from, p)"
proof -
  obtain os' where "do_write S (to_be32 from) (to_be32 (of_nat (length p))) p fd os = (True, os')" "sent os' = sent os @ frame (from, p)"
    using do_write_up [OF assms(1,2)] by blast
  with assms(3,4) show ?thesis by (simp add: tcp_send_def Let_def)
qed

definition tcp_sends :: "('o, 'r) sockets \<Rightarrow> NodeId \<Rightarrow> NodeId \<Rightarrow> byte list list \<Rightarrow> 'h TcpTransport \<times> 'o \<Rightarrow> 'h TcpTransport \<times> 'o" where
  "tcp_sends S from to = fold (\<lambda>p (t, os). tcp_send S from to p t os)"

lemma sends_up:
  assumes "sending_ok S fd sent" "link_up S fd" "t_running t" "map_of (t_send_fds t) to = Some fd"
  shows "\<exists>os'. tcp_sends S from to ps (t, os) = (t, os') \<and> sent os' = sent os @ concat (map (\<lambda>p. frame (from, p)) ps)"
proof (induction ps arbitrary: os)
  case (Cons p ps)
  obtain o1 where "tcp_send S from to p t os = (t, o1)" "sent o1 = sent os @ frame (from, p)" using send_up [OF assms] by blast
  with Cons.IH [of o1] show ?case by (simp add: tcp_sends_def)
qed (simp add: tcp_sends_def)

section \<open>The receiver\<close>

lemma read_all_reads:
  "receiving_ok S fd pending \<Longrightarrow> len \<le> length (pending os) \<Longrightarrow>
    \<exists>os'. read_all S fd len os = (Some (take len (pending os)), os') \<and> pending os' = drop len (pending os)"
proof (induction len arbitrary: os rule: less_induct)
  case (less len)
  show ?case
  proof (cases "len = 0")
    case False
    obtain n bs o1 where r: "sk_read S fd len os = (n, bs, o1)" by (metis prod_cases3)
    from False less.prems have "pending os \<noteq> []" by auto
    with less.prems(1) r False have n: "0 < n" "nat n \<le> len" "bs = take (nat n) (pending os)" "pending o1 = drop (nat n) (pending os)"
      unfolding receiving_ok_def by (metis gr_zeroI)+
    have "len - nat n < len" "len - nat n \<le> length (pending o1)" using n(1,2) less.prems(2) False unfolding n(4) by simp_all
    from less.IH [OF this(1) less.prems(1) this(2)] obtain os' where
      "read_all S fd (len - nat n) o1 = (Some (take (len - nat n) (pending o1)), os')" "pending os' = drop (len - nat n) (pending o1)"
      by blast
    with r n False show ?thesis
      by (simp add: read_all.simps [of S fd len] take_add [symmetric] add.commute)
  qed (simp add: read_all.simps)
qed

lemma read_all_short:
  "receiving_ok S fd pending \<Longrightarrow> length (pending os) < len \<Longrightarrow> \<exists>os'. read_all S fd len os = (None, os')"
proof (induction len arbitrary: os rule: less_induct)
  case (less len)
  obtain n bs o1 where r: "sk_read S fd len os = (n, bs, o1)" by (metis prod_cases3)
  have len: "0 < len" using less.prems by simp
  show ?case
  proof (cases "n \<le> 0")
    case True
    with r len show ?thesis by (simp add: read_all.simps [of S fd len])
  next
    case False
    with less.prems(1) r len have n: "nat n \<le> length (pending os)" "pending o1 = drop (nat n) (pending os)"
      unfolding receiving_ok_def by metis+
    have "len - nat n < len" "length (pending o1) < len - nat n" using n less.prems(2) False len by simp_all
    from less.IH [OF this(1) less.prems(1) this(2)] obtain os' where "read_all S fd (len - nat n) o1 = (None, os')" by blast
    with r len False show ?thesis by (simp add: read_all.simps [of S fd len])
  qed
qed

definition post_of :: "'h \<Rightarrow> NodeId \<Rightarrow> NodeId \<times> byte list \<Rightarrow> 'h \<times> tcp_message" where
  "post_of h me m = (h, \<lparr>tm_from = fst m, tm_to = me, tm_payload = snd m\<rparr>)"

lemma recv_step:
  assumes R: "receiving_ok S fd pending" and l: "listening mem h me" and p: "pending os = frame m @ r" and s: "small m"
  shows "\<exists>os'. recv_loop S mem fd posted os = recv_loop S mem fd (posted @ [post_of h me m]) os' \<and> pending os' = r"
proof -
  obtain o1 where h: "read_all S fd 8 os = (Some (take 8 (frame m)), o1)" and p1: "pending o1 = drop 8 (frame m @ r)"
    using read_all_reads [OF R, of 8 os] p by auto
  have p1': "pending o1 = snd m @ r" using p1 by (simp add: frame_header(3))
  obtain o2 where b: "read_all S fd (length (snd m)) o1 = (Some (snd m), o2)" "pending o2 = r"
    using read_all_reads [OF R, of "length (snd m)" o1] p1' by auto
  have small: "\<not> from_be32 (load_u32 (drop 4 (take 8 (frame m)))) > 64 * 1024 * 1024"
    using s unfolding word_less_nat_alt frame_header(2) [OF s] by (simp add: small_def)
  have "recv_loop S mem fd posted os = recv_loop S mem fd (posted @ [post_of h me m]) o2"
    using l h b small s unfolding listening_def
    by (subst recv_loop.simps) (simp add: Let_def frame_header post_of_def)
  with b show ?thesis by blast
qed

lemma recv_ends:
  assumes R: "receiving_ok S fd pending" and l: "listening mem h me" and s: "small m"
    and p: "pending os = take k (frame m)" and k: "k < length (frame m)"
  shows "\<exists>os'. recv_loop S mem fd posted os = Some (posted, os')"
proof (cases "k < 8")
  case True
  then obtain o1 where "read_all S fd 8 os = (None, o1)" using read_all_short [OF R, of os 8] p by auto
  with l show ?thesis unfolding listening_def by (subst recv_loop.simps) simp
next
  case False
  have hd: "take 8 (pending os) = take 8 (frame m)" using False p by (simp add: min_def)
  obtain o1 where h: "read_all S fd 8 os = (Some (take 8 (frame m)), o1)" and p1: "pending o1 = drop 8 (pending os)"
    using read_all_reads [OF R, of 8 os] p False k unfolding hd by auto
  have "length (pending o1) < length (snd m)" using p1 p k False by simp
  then obtain o2 where b: "read_all S fd (length (snd m)) o1 = (None, o2)" using read_all_short [OF R] by blast
  with l h show ?thesis unfolding listening_def
    by (subst recv_loop.simps) (simp add: Let_def frame_header(2) [OF s])
qed

lemma recv_frames:
  assumes R: "receiving_ok S fd pending" and l: "listening mem h me"
  shows "list_all small ms \<Longrightarrow> pending os = take k (concat (map frame ms)) \<Longrightarrow>
    \<exists>j os'. recv_loop S mem fd posted os = Some (posted @ map (post_of h me) (take j ms), os')
      \<and> (length (concat (map frame ms)) \<le> k \<longrightarrow> j = length ms)"
proof (induction ms arbitrary: posted os k)
  case Nil
  then obtain o1 where "read_all S fd 8 os = (None, o1)" using read_all_short [OF R, of os 8] by auto
  with l show ?case unfolding listening_def by (subst recv_loop.simps) simp
next
  case (Cons m ms)
  show ?case
  proof (cases "length (frame m) \<le> k")
    case True
    with Cons.prems have p: "pending os = frame m @ take (k - length (frame m)) (concat (map frame ms))" "small m" by simp_all
    from recv_step [OF R l p, of posted] obtain o1 where
      e: "recv_loop S mem fd posted os = recv_loop S mem fd (posted @ [post_of h me m]) o1"
      and p1: "pending o1 = take (k - length (frame m)) (concat (map frame ms))" by blast
    from Cons.IH [OF _ p1, of "posted @ [post_of h me m]"] Cons.prems(1) obtain j os' where
      "recv_loop S mem fd (posted @ [post_of h me m]) o1 = Some ((posted @ [post_of h me m]) @ map (post_of h me) (take j ms), os')"
      "length (concat (map frame ms)) \<le> k - length (frame m) \<longrightarrow> j = length ms" by auto
    with e True show ?thesis by (intro exI [of _ "Suc j"] exI [of _ os']) auto
  next
    case False
    with Cons.prems have "pending os = take k (frame m)" "small m" by simp_all
    from recv_ends [OF R l this(2,1)] False obtain os' where "recv_loop S mem fd posted os = Some (posted, os')" by auto
    with False show ?thesis by (intro exI [of _ 0] exI [of _ os']) simp
  qed
qed

section \<open>Properties\<close>

text \<open>
  C31. Messages over TCP arrive whole, unchanged and in order. One server sends payloads of at most 64 MiB over an open
  connection, with writes of any size; the first \<open>k\<close> bytes reach the other server, which reads them in pieces of any
  size and then sees the end of the connection. Its receive loop ends, and it has posted to its handler exactly the first \<open>j\<close>
  messages. They are all of them if all bytes arrived.
\<close>

theorem tcp_delivers:
  assumes "sending_ok S fd sent" "link_up S fd" "t_running t" "map_of (t_send_fds t) to = Some fd" "sent os = []"
    and "list_all (\<lambda>p. length p \<le> 67108864) ps"
    and "receiving_ok R fd2 pending" "listening mem h me"
    and "pending os2 = take k (sent (snd (tcp_sends S from to ps (t, os))))"
  shows "\<exists>j os3. recv_loop R mem fd2 [] os2 = Some (map (\<lambda>p. post_of h me (from, p)) (take j ps), os3)
    \<and> (length (sent (snd (tcp_sends S from to ps (t, os)))) \<le> k \<longrightarrow> j = length ps)"
proof -
  let ?ms = "map (Pair from) ps"
  have s: "sent (snd (tcp_sends S from to ps (t, os))) = concat (map frame ?ms)"
    using sends_up [OF assms(1-4), of "from" ps os] assms(5) by (auto simp: comp_def)
  have "list_all small ?ms" using assms(6) by (simp add: list_all_iff small_def)
  from recv_frames [OF assms(7,8) this, of os2 k "[]"] assms(9) obtain j os3 where
    "recv_loop R mem fd2 [] os2 = Some (map (post_of h me) (take j ?ms), os3)"
    "length (concat (map frame ?ms)) \<le> k \<longrightarrow> j = length ?ms" by (auto simp: s)
  then show ?thesis unfolding s by (intro exI [of _ j] exI [of _ os3]) (simp add: take_map comp_def)
qed

text \<open>A pipe that takes three bytes at a time and gives two, the state being the bytes in it.\<close>

definition pipe :: "(byte list, unit) sockets" where
  "pipe = \<lparr>sk_getaddrinfo = (\<lambda>host port os. Some ()), sk_socket = (\<lambda>r os. (3, os)), sk_connect = (\<lambda>fd r os. (0, os)),
     sk_close = (\<lambda>fd os. os), sk_send = (\<lambda>fd buf os. (int (min 3 (length buf)), os @ take 3 buf)),
     sk_read = (\<lambda>fd len os. let n = min (min 2 len) (length os) in (int n, take n os, drop n os))\<rparr>"

definition node7 :: "string TcpTransport" where
  "node7 = \<lparr>t_my_id = 7, t_peers = [], t_send_fds = [(7, 3)], t_handler = Some ''h'', t_running = True\<rparr>"

lemma pipe_ok: "sending_ok pipe fd id" "link_up pipe fd" "receiving_ok pipe fd id" "listening (\<lambda>os. node7) ''h'' 7"
  by (auto simp: sending_ok_def link_up_def receiving_ok_def listening_def pipe_def node7_def Let_def min_def split: if_splits)

theorem tcp_delivers_witness:
  "tcp_sends pipe 1 7 [[1, 2], [3]] (node7, []) = (node7, frame (1, [1, 2]) @ frame (1, [3]))
   \<and> (\<exists>os. recv_loop pipe (\<lambda>os. node7) 4 [] (frame (1, [1, 2]) @ frame (1, [3]))
        = Some ([(''h'', \<lparr>tm_from = 1, tm_to = 7, tm_payload = [1, 2]\<rparr>), (''h'', \<lparr>tm_from = 1, tm_to = 7, tm_payload = [3]\<rparr>)], os))"
proof -
  have t: "t_running node7" "map_of (t_send_fds node7) 7 = Some 3" by (simp_all add: node7_def)
  have s: "tcp_sends pipe 1 7 [[1, 2], [3]] (node7, []) = (node7, frame (1, [1, 2]) @ frame (1, [3]))"
    using sends_up [OF pipe_ok(1,2) t, of 1 "[[1, 2], [3]]" "[]"] by auto
  have "\<exists>j os3. recv_loop pipe (\<lambda>os. node7) 4 [] (frame (1, [1, 2]) @ frame (1, [3]))
      = Some (map (\<lambda>p. post_of ''h'' 7 (1, p)) (take j [[1, 2], [3]]), os3) \<and> j = 2"
    using tcp_delivers [OF pipe_ok(1,2) t, of "[]" "[[1, 2], [3]]" pipe 4 id "\<lambda>os. node7" "''h''" 7
        "frame (1, [1, 2]) @ frame (1, [3])" 19 1] s pipe_ok(3,4) by simp
  with s show ?thesis by (auto simp: post_of_def)
qed

text \<open>
  A message above the limit of the receiver ends the connection. \<open>send\<close> does not know the limit: it writes the frame, and the
  receiver, on reading the header, closes the connection without posting the message or anything after it.
\<close>

theorem tcp_oversize_ends:
  assumes R: "receiving_ok S fd pending" and l: "listening mem h me" and p: "pending os = frame m @ r"
    and big: "67108864 < length (snd m)" "length (snd m) < 4294967296"
  shows "\<exists>os'. recv_loop S mem fd posted os = Some (posted, os')"
proof -
  obtain o1 where h: "read_all S fd 8 os = (Some (take 8 (frame m)), o1)"
    using read_all_reads [OF R, of 8 os] p by auto
  have n: "unat (from_be32 (load_u32 (drop 4 (take 8 (frame m))))) = length (snd m)"
    using big(2) by (simp add: frame_def unat_of_nat_32)
  have "from_be32 (load_u32 (drop 4 (take 8 (frame m)))) > 64 * 1024 * 1024"
    using big(1) unfolding word_less_nat_alt n by simp
  with h l show ?thesis unfolding listening_def by (subst recv_loop.simps) (simp add: Let_def)
qed

text \<open>
  A retry that fails leaves a torn frame on a connection that stays in use. When the first attempt of \<open>send\<close> fails and the
  second, on a new connection, fails too, the new descriptor is kept in \<open>send_fds_\<close>: the next message is written behind
  the torn frame.
\<close>

theorem retry_keeps_torn_connection:
  assumes "t_running t" "map_of (t_send_fds t) to = Some fd"
    and "do_write S (to_be32 from) (to_be32 (of_nat (length p))) p fd os = (False, os1)"
    and "connect_to S to (t\<lparr>t_send_fds := om_erase to (t_send_fds t)\<rparr>) (sk_close S fd os1) = (fd', os2)" "0 \<le> fd'"
    and "do_write S (to_be32 from) (to_be32 (of_nat (length p))) p fd' os2 = (False, os3)"
  shows "\<exists>t'. tcp_send S from to p t os = (t', os3) \<and> map_of (t_send_fds t') to = Some fd'"
  using assms by (simp add: tcp_send_def Let_def)

text \<open>What the receiver then makes of it: the bytes of the next frame are taken for the payload of the torn one.\<close>

theorem torn_frame_misread:
  assumes R: "receiving_ok S fd pending" and l: "listening mem h me" and s: "small m"
    and p: "pending os = take 8 (frame m) @ frame m'" and len: "length (snd m) \<le> length (frame m')"
  shows "\<exists>os'. recv_loop S mem fd posted os
      = recv_loop S mem fd (posted @ [post_of h me (fst m, take (length (snd m)) (frame m'))]) os'"
proof -
  let ?m = "(fst m, take (length (snd m)) (frame m'))"
  have "length (snd ?m) = length (snd m)" using len by simp
  then have "frame ?m = take 8 (frame m) @ take (length (snd m)) (frame m')"
    unfolding frame_def [of ?m] by (simp add: frame_def [of m])
  then have "pending os = frame ?m @ drop (length (snd m)) (frame m')" using p by simp
  moreover have "small ?m" using s by (simp add: small_def)
  ultimately show ?thesis using recv_step [OF R l, of os ?m _ posted] by blast
qed

end
