(* ===== verification/Server.thy ===== *)
theory Server
  imports Std_Text Tcp_Transport Raft_Handlers
begin

text \<open>
  \<open>src/server/server.cpp\<close>: the command line of \<open>simkv-server\<close> and the line protocol it speaks with clients. A
  command closure runs on the dispatch thread against the node of \<open>Raft_Handlers\<close>; the promise it fulfils is the
  number \<open>p\<close> of an external callback. The listening socket and the wiring of \<open>main\<close> are not modelled.
\<close>

section \<open>Arguments\<close>

record Args =
  a_id :: NodeId
  a_raft_port :: "16 word"
  a_client_port :: "16 word"
  a_peers :: "(NodeId, PeerAddr) omap"
  a_client_peers :: "(NodeId, PeerAddr) omap"
  a_data_dir :: string

definition args_default :: Args where
  "args_default = \<lparr>a_id = 0, a_raft_port = 0, a_client_port = 0, a_peers = [], a_client_peers = [], a_data_dir = ''''\<rparr>"

text \<open>The failures are the call of \<open>usage\<close>, which exits, and the two exceptions of \<open>std::stoul\<close>, which nothing catches.\<close>

definition bindA :: "arg_error + 'a \<Rightarrow> ('a \<Rightarrow> arg_error + 'b) \<Rightarrow> arg_error + 'b" where
  "bindA r f = (case r of Inl e \<Rightarrow> Inl e | Inr x \<Rightarrow> f x)"

lemma bindA_simps [simp]: "bindA (Inl e) f = Inl e" "bindA (Inr x) f = f x"
  by (simp_all add: bindA_def)

definition parse_peer :: "string \<Rightarrow> arg_error + (NodeId \<times> PeerAddr)" where
  "parse_peer tok =
     (case (str_find (CHR '':'') tok, str_rfind (CHR '':'') tok) of
        (Some c1, Some c2) \<Rightarrow>
          if c2 = c1 then Inl Usage
          else
            bindA (stoul (substr 0 c1 tok)) (\<lambda>nid.
              let host = substr (c1 + 1) (c2 - c1 - 1) tok
              in bindA (stoul (drop (c2 + 1) tok)) (\<lambda>port. Inr (ucast nid, \<lparr>pa_host = host, pa_port = ucast port\<rparr>)))
      | _ \<Rightarrow> Inl Usage)"

fun parse_peers :: "string list \<Rightarrow> (NodeId, PeerAddr) omap \<Rightarrow> arg_error + (NodeId, PeerAddr) omap" where
  "parse_peers [] m = Inr m"
| "parse_peers (tok # toks) m = bindA (parse_peer tok) (\<lambda>(nid, pa). parse_peers toks (om_put nid pa m))"

definition parse_option :: "string \<Rightarrow> string \<Rightarrow> Args \<Rightarrow> arg_error + Args" where
  "parse_option key val a =
     (if key = ''--id'' then bindA (stoul val) (\<lambda>v. Inr (a\<lparr>a_id := ucast v\<rparr>))
      else if key = ''--raft-port'' then bindA (stoul val) (\<lambda>v. Inr (a\<lparr>a_raft_port := ucast v\<rparr>))
      else if key = ''--client-port'' then bindA (stoul val) (\<lambda>v. Inr (a\<lparr>a_client_port := ucast v\<rparr>))
      else if key = ''--peers'' then
        bindA (parse_peers (getlines (CHR '','') val) (a_peers a)) (\<lambda>m. Inr (a\<lparr>a_peers := m\<rparr>))
      else if key = ''--client-peers'' then
        bindA (parse_peers (getlines (CHR '','') val) (a_client_peers a)) (\<lambda>m. Inr (a\<lparr>a_client_peers := m\<rparr>))
      else if key = ''--data-dir'' then Inr (a\<lparr>a_data_dir := val\<rparr>)
      else Inl Usage)"

fun parse_options :: "string list \<Rightarrow> Args \<Rightarrow> arg_error + Args" where
  "parse_options [] a = Inr a"
| "parse_options [key] a = Inl Usage"
| "parse_options (key # val # rest) a = bindA (parse_option key val a) (parse_options rest)"

text \<open>\<open>argv\<close> without the name of the program.\<close>

definition parse_args :: "string list \<Rightarrow> arg_error + Args" where
  "parse_args argv =
     bindA (parse_options argv args_default) (\<lambda>a.
       if a_id a = 0 \<or> a_raft_port a = 0 \<or> a_client_port a = 0 then Inl Usage else Inr a)"

section \<open>Client requests\<close>

datatype client_request = Answer string | ReqPut string string | ReqDel string | ReqGet string

text \<open>The C string in the buffer, without the line end.\<close>

definition client_line :: "string \<Rightarrow> string" where
  "client_line chunk = rev (dropWhile (\<lambda>c. c = newline \<or> c = CHR 0x0D) (rev (takeWhile (\<lambda>c. c \<noteq> CHR 0x00) chunk)))"

definition parse_line :: "string \<Rightarrow> client_request" where
  "parse_line line =
     (let bad = Answer (''-ERR bad_command'' @ [newline]) in
      case words line of
        [] \<Rightarrow> Answer (''-ERR unknown_command'' @ [newline])
      | cmd # args \<Rightarrow>
          if cmd = ''PUT'' then (case args of key # val # _ \<Rightarrow> ReqPut key val | _ \<Rightarrow> bad)
          else if cmd = ''DEL'' then (case args of key # _ \<Rightarrow> ReqDel key | _ \<Rightarrow> bad)
          else if cmd = ''GET'' then (case args of key # _ \<Rightarrow> ReqGet key | _ \<Rightarrow> bad)
          else Answer (''-ERR unknown_command'' @ [newline]))"

definition not_leader_response :: "NodeId option \<Rightarrow> (NodeId, PeerAddr) omap \<Rightarrow> string" where
  "not_leader_response lid client_peers =
     (case lid of
        Some l \<Rightarrow>
          (case map_of client_peers l of
             Some pa \<Rightarrow> ''-REDIRECT '' @ pa_host pa @ '':'' @ show_nat (unat (pa_port pa)) @ [newline]
           | None \<Rightarrow> ''-ERR not_leader'' @ [newline])
      | None \<Rightarrow> ''-ERR not_leader'' @ [newline])"

text \<open>The callbacks given to \<open>submit\<close> and to \<open>read_index\<close>; \<open>lid\<close> is the leader the node knows when the callback runs.\<close>

definition submit_reply :: "CmdResult \<Rightarrow> string" where
  "submit_reply r = (if res_ok r then ''+OK'' @ [newline] else ''-ERR '' @ res_error r @ [newline])"

definition read_reply :: "NodeId option \<Rightarrow> (NodeId, PeerAddr) omap \<Rightarrow> bool \<Rightarrow> string option \<Rightarrow> string" where
  "read_reply lid client_peers success val =
     (if \<not> success then not_leader_response lid client_peers
      else case val of Some v \<Rightarrow> ''+'' @ v @ [newline] | None \<Rightarrow> ''-NOT_FOUND'' @ [newline])"

text \<open>
  The closure posted for a request: what it sets promise \<open>p\<close> to at once, if it does, and the node afterwards.
\<close>

fun client_closure ::
  "'e iface \<Rightarrow> (NodeId, PeerAddr) omap \<Rightarrow> nat \<Rightarrow> client_request \<Rightarrow> 'e RaftNode \<Rightarrow> string option \<times> 'e RaftNode outcome" where
  "client_closure I cp p (ReqPut key val) n =
     (let (ok, r) = submit I 0 0 (CmdPut key val) (ExternalCb p) n
      in (if ok then None else Some (not_leader_response (nd_leader_id (the_state r)) cp), r))"
| "client_closure I cp p (ReqDel key) n =
     (let (ok, r) = submit I 0 0 (CmdDelete key) (ExternalCb p) n
      in (if ok then None else Some (not_leader_response (nd_leader_id (the_state r)) cp), r))"
| "client_closure I cp p (ReqGet key) n =
     (let (ok, n') = read_index I key p n
      in (if ok then None else Some (not_leader_response (nd_leader_id n') cp), Ret n'))"
| "client_closure I cp p (Answer a) n = (Some a, Ret n)"

text \<open>
  The loop of \<open>handle_client\<close>. \<open>wait\<close> posts the closure of a request and waits for its promise; \<open>None\<close> is a
  promise that is never fulfilled, on which \<open>fut.get()\<close> blocks for ever. The result is what was written to the client, and whether
  the loop came to the end of the input.
\<close>

fun serve_lines :: "(client_request \<Rightarrow> 'w \<Rightarrow> (string \<times> 'w) option) \<Rightarrow> string list \<Rightarrow> 'w \<Rightarrow> string \<times> bool" where
  "serve_lines wait [] w = ([], True)"
| "serve_lines wait (line # ls) w =
     (case (case parse_line line of Answer a \<Rightarrow> Some (a, w) | r \<Rightarrow> wait r w) of
        None \<Rightarrow> ([], False)
      | Some (response, w) \<Rightarrow>
          let (out, fin) = serve_lines wait ls w
          in (takeWhile (\<lambda>c. c \<noteq> CHR 0x00) response @ out, fin))"

definition handle_client :: "(client_request \<Rightarrow> 'w \<Rightarrow> (string \<times> 'w) option) \<Rightarrow> string \<Rightarrow> 'w \<Rightarrow> string \<times> bool" where
  "handle_client wait input w = serve_lines wait (map client_line (fgets_all 4095 input)) w"

section \<open>Reading requests\<close>

fun request_line :: "client_request \<Rightarrow> string" where
  "request_line (ReqPut key val) = ''PUT '' @ key @ '' '' @ val"
| "request_line (ReqDel key) = ''DEL '' @ key"
| "request_line (ReqGet key) = ''GET '' @ key"
| "request_line (Answer a) = []"

fun request_ok :: "client_request \<Rightarrow> bool" where
  "request_ok (ReqPut key val) \<longleftrightarrow> token key \<and> token val"
| "request_ok (ReqDel key) \<longleftrightarrow> token key"
| "request_ok (ReqGet key) \<longleftrightarrow> token key"
| "request_ok (Answer a) \<longleftrightarrow> False"

lemma words_one: "token s \<Longrightarrow> words s = [s]"
  using words_token [of s "[]"] by simp

lemma words_more: "token s \<Longrightarrow> words (s @ CHR 0x20 # r) = s # words r"
  using words_token [of s "CHR 0x20 # r"] by (simp add: is_space_def)

lemma verb_tokens: "token ''PUT''" "token ''DEL''" "token ''GET''"
  by (simp_all add: token_def is_space_def)

lemma parse_request_line:
  assumes "request_ok r" shows "parse_line (request_line r) = r"
proof (cases r)
  case (ReqPut key val)
  with assms have "words (request_line r) = [''PUT'', key, val]"
    using words_more [OF verb_tokens(1), of "key @ CHR 0x20 # val"] by (simp add: words_more words_one)
  with ReqPut show ?thesis by (simp add: parse_line_def Let_def)
next
  case (ReqDel key)
  with assms have "words (request_line r) = [''DEL'', key]" using words_more [OF verb_tokens(2), of key] by (simp add: words_one)
  with ReqDel show ?thesis by (simp add: parse_line_def Let_def)
next
  case (ReqGet key)
  with assms have "words (request_line r) = [''GET'', key]" using words_more [OF verb_tokens(3), of key] by (simp add: words_one)
  with ReqGet show ?thesis by (simp add: parse_line_def Let_def)
qed (use assms in simp)

lemma client_line_plain:
  assumes "\<forall>c \<in> set l. c \<noteq> CHR 0x00" "l = [] \<or> \<not> is_space (last l)" "set eol \<subseteq> {newline, CHR 0x0D}"
  shows "client_line (l @ eol) = l"
proof -
  have "takeWhile (\<lambda>c. c \<noteq> CHR 0x00) (l @ eol) = l @ eol" using assms(1,3) by (intro takeWhile_whole) auto
  moreover have "dropWhile (\<lambda>c. c = newline \<or> c = CHR 0x0D) (rev eol @ rev l) = dropWhile (\<lambda>c. c = newline \<or> c = CHR 0x0D) (rev l)"
    using assms(3) by (intro dropWhile_append2) auto
  moreover have "dropWhile (\<lambda>c. c = newline \<or> c = CHR 0x0D) (rev l) = rev l"
    using assms(2) by (cases l rule: rev_cases) (auto simp: is_space_def)
  ultimately show ?thesis unfolding client_line_def by (simp only: rev_append rev_rev_ident)
qed

lemma token_last: "token s \<Longrightarrow> \<not> is_space (last s)" "token s \<Longrightarrow> s \<noteq> []"
  by (auto simp: token_def)

lemma token_plain: "token s \<Longrightarrow> \<forall>c \<in> set s. c \<noteq> CHR 0x00 \<and> c \<noteq> newline"
  by (auto simp: token_def is_space_def)

lemma request_line_plain:
  assumes "request_ok r"
  shows "\<forall>c \<in> set (request_line r). c \<noteq> CHR 0x00 \<and> c \<noteq> newline" "\<not> is_space (last (request_line r))"
proof -
  show "\<forall>c \<in> set (request_line r). c \<noteq> CHR 0x00 \<and> c \<noteq> newline"
    using assms by (cases r) (auto dest!: token_plain)
  show "\<not> is_space (last (request_line r))" using assms by (cases r) (simp_all add: token_last)
qed

lemma client_line_request:
  "request_ok r \<Longrightarrow> set eol \<subseteq> {newline, CHR 0x0D} \<Longrightarrow> client_line (request_line r @ eol) = request_line r"
  using request_line_plain by (intro client_line_plain) blast+

text \<open>The end of a line is a newline, with a carriage return before it or not.\<close>

definition line_end :: "bool \<Rightarrow> string" where
  "line_end crlf = (if crlf then [CHR 0x0D, newline] else [newline])"

definition request_bytes :: "client_request \<times> bool \<Rightarrow> string" where
  "request_bytes rb = request_line (fst rb) @ line_end (snd rb)"

lemma requests_read:
  assumes "\<forall>rb \<in> set rs. request_ok (fst rb) \<and> length (request_bytes rb) \<le> 4095"
  shows "map client_line (fgets_all 4095 (concat (map request_bytes rs))) = map (request_line \<circ> fst) rs"
proof -
  let ?l = "\<lambda>rb. request_line (fst rb) @ (if snd rb then [CHR 0x0D] else [])"
  have b: "request_bytes rb = ?l rb @ [newline]" for rb by (simp add: request_bytes_def line_end_def)
  have l: "newline \<notin> set (?l rb) \<and> length (?l rb) < 4095" if "rb \<in> set rs" for rb
    using assms request_line_plain(1) [of "fst rb"] that b [of rb] by fastforce
  have m: "map request_bytes rs = map (\<lambda>l. l @ [newline]) (map ?l rs)" by (simp add: b)
  have f: "fgets_all 4095 (concat (map request_bytes rs)) = map request_bytes rs"
    unfolding m by (rule fgets_all_lines) (use l in auto)
  have "client_line (request_bytes rb) = request_line (fst rb)" if "rb \<in> set rs" for rb
    using assms that by (auto simp: request_bytes_def line_end_def intro!: client_line_request)
  then show ?thesis unfolding f by simp
qed

lemma serve_requests:
  "\<forall>r \<in> set rs. request_ok r \<Longrightarrow> serve_lines wait (map request_line rs) w =
    (case rs of [] \<Rightarrow> ([], True)
     | r # rs' \<Rightarrow> (case wait r w of None \<Rightarrow> ([], False)
         | Some (a, w') \<Rightarrow> let (out, fin) = serve_lines wait (map request_line rs') w' in (takeWhile (\<lambda>c. c \<noteq> CHR 0x00) a @ out, fin)))"
  by (cases rs) (auto simp: parse_request_line split: client_request.splits)

text \<open>What the client should see: the answers to its requests, in order, up to one that never comes.\<close>

fun answers :: "(client_request \<Rightarrow> 'w \<Rightarrow> (string \<times> 'w) option) \<Rightarrow> client_request list \<Rightarrow> 'w \<Rightarrow> string list \<times> bool" where
  "answers wait [] w = ([], True)"
| "answers wait (r # rs) w =
     (case wait r w of
        None \<Rightarrow> ([], False)
      | Some (a, w) \<Rightarrow> (case answers wait rs w of (as, fin) \<Rightarrow> (a # as, fin)))"

lemma serve_answers:
  "\<forall>r \<in> set rs. request_ok r \<Longrightarrow> serve_lines wait (map request_line rs) w =
    (case answers wait rs w of (as, fin) \<Rightarrow> (concat (map (takeWhile (\<lambda>c. c \<noteq> CHR 0x00)) as), fin))"
proof (induction rs arbitrary: w)
  case (Cons r rs)
  then show ?case unfolding serve_requests [OF Cons.prems] by (auto split: option.splits prod.splits)
qed simp

section \<open>Arguments written and read back\<close>

definition show_peer :: "NodeId \<times> PeerAddr \<Rightarrow> string" where
  "show_peer p = show_nat (unat (fst p)) @ '':'' @ pa_host (snd p) @ '':'' @ show_nat (unat (pa_port (snd p)))"

definition show_peers :: "(NodeId, PeerAddr) omap \<Rightarrow> string" where
  "show_peers m = join '','' (map show_peer m)"

definition show_args :: "Args \<Rightarrow> string list" where
  "show_args a = [''--id'', show_nat (unat (a_id a)), ''--raft-port'', show_nat (unat (a_raft_port a)),
     ''--client-port'', show_nat (unat (a_client_port a)), ''--peers'', show_peers (a_peers a),
     ''--client-peers'', show_peers (a_client_peers a), ''--data-dir'', a_data_dir a]"

definition hosts_ok :: "(NodeId, PeerAddr) omap \<Rightarrow> bool" where
  "hosts_ok m \<longleftrightarrow> om_sorted m \<and> list_all (\<lambda>p. CHR '','' \<notin> set (pa_host (snd p))) m"

definition args_ok :: "Args \<Rightarrow> bool" where
  "args_ok a \<longleftrightarrow> a_id a \<noteq> 0 \<and> a_raft_port a \<noteq> 0 \<and> a_client_port a \<noteq> 0 \<and> hosts_ok (a_peers a) \<and> hosts_ok (a_client_peers a)"

lemma show_nat_no: "CHR '':'' \<notin> set (show_nat n)" "CHR '','' \<notin> set (show_nat n)"
  using show_nat_digits digit_not by blast+

lemma stoul_u32: "stoul (show_nat (unat (v :: 32 word))) = Inr (ucast v)"
  and stoul_u16: "stoul (show_nat (unat (w :: 16 word))) = Inr (ucast w)"
proof -
  have "unat w < 65536" using unsigned_less [of w] by simp
  with less_trans [OF unat32_bound [of v], of "2 ^ 64"] have "unat v < 2 ^ 64" "unat w < 2 ^ 64" by simp_all
  then show "stoul (show_nat (unat v)) = Inr (ucast v)" "stoul (show_nat (unat w)) = Inr (ucast w)"
    by (simp_all add: stoul_show)
qed

lemma ucast_back: "ucast (ucast (v :: 32 word) :: u64) = v" "ucast (ucast (w :: 16 word) :: u64) = w"
  by (rule bit_word_eqI; simp add: bit_simps)+

lemma parse_show_peer: "parse_peer (show_peer p) = Inr p"
proof -
  obtain i h q where p: "p = (i, \<lparr>pa_host = h, pa_port = q\<rparr>)" by (cases p; cases "snd p") auto
  let ?i = "show_nat (unat i)" and ?q = "show_nat (unat q)"
  have s: "show_peer p = ?i @ CHR '':'' # h @ CHR '':'' # ?q" by (simp add: p show_peer_def)
  have "str_find (CHR '':'') (show_peer p) = Some (length ?i)" unfolding s by (rule str_find_at [OF show_nat_no(1)])
  moreover have "str_rfind (CHR '':'') (show_peer p) = Some (length (?i @ CHR '':'' # h))"
    using str_rfind_at [OF show_nat_no(1), of "?i @ CHR '':'' # h" "unat q"] by (simp add: s)
  ultimately show ?thesis
    by (simp add: parse_peer_def substr_def) (simp add: s stoul_u32 stoul_u16 ucast_back, simp add: p)
qed

lemma parse_show_peers: "om_sorted (m @ ps) \<Longrightarrow> parse_peers (map show_peer ps) m = Inr (m @ ps)"
proof (induction ps arbitrary: m)
  case (Cons p ps)
  obtain i pa where p: "p = (i, pa)" by (cases p)
  have "om_put i pa m = m @ [(i, pa)]" using Cons.prems unfolding p
  proof (induction m)
    case (Cons x m)
    then show ?case by (cases x) (auto simp: om_sorted_def sorted_wrt_append)
  qed simp
  with Cons.IH [of "m @ [p]"] Cons.prems show ?case by (simp add: parse_show_peer p)
qed simp

lemma getlines_show_peers:
  assumes "hosts_ok m" shows "getlines (CHR '','') (show_peers m) = map show_peer m"
  unfolding show_peers_def
proof (rule getlines_join, intro ballI)
  fix t assume "t \<in> set (map show_peer m)"
  then obtain p where "t = show_peer p" "p \<in> set m" by auto
  with assms show "t \<noteq> [] \<and> CHR '','' \<notin> set t" by (auto simp: show_peer_def hosts_ok_def list_all_iff show_nat_no)
qed

lemma parse_shown: "hosts_ok m \<Longrightarrow> parse_peers (getlines (CHR '','') (show_peers m)) [] = Inr m"
  using parse_show_peers [of "[]" m] by (simp add: getlines_show_peers) (simp add: hosts_ok_def)

section \<open>Properties\<close>

text \<open>
  C36. The arguments of the server come back from its command line. For node and port numbers other than 0, peers
  in key order and hosts without a comma, the options written out and parsed again are the same. A host may itself contain
  colons, because the number is before the first and the port after the last.
\<close>

theorem server_args_round_trip: "args_ok a \<Longrightarrow> parse_args (show_args a) = Inr a"
  by (simp add: parse_args_def show_args_def parse_option_def args_default_def stoul_u32 stoul_u16 ucast_back args_ok_def parse_shown)

lemma show_small: "n < 10 \<Longrightarrow> show_nat n = [digit n]"
  by (simp add: show_nat.simps)

theorem server_args_round_trip_witness:
  "parse_args [''--id'', ''1'', ''--raft-port'', ''7'', ''--client-port'', ''8'', ''--peers'', ''2:::1:5,3:h:6'',
     ''--client-peers'', '''', ''--data-dir'', ''/tmp/1'']
   = Inr \<lparr>a_id = 1, a_raft_port = 7, a_client_port = 8,
       a_peers = [(2, \<lparr>pa_host = ''::1'', pa_port = 5\<rparr>), (3, \<lparr>pa_host = ''h'', pa_port = 6\<rparr>)],
       a_client_peers = [], a_data_dir = ''/tmp/1''\<rparr>"
proof -
  let ?a = "\<lparr>a_id = 1, a_raft_port = 7, a_client_port = 8,
       a_peers = [(2, \<lparr>pa_host = ''::1'', pa_port = 5\<rparr>), (3, \<lparr>pa_host = ''h'', pa_port = 6\<rparr>)],
       a_client_peers = [], a_data_dir = ''/tmp/1''\<rparr>"
  have ok: "args_ok ?a" by (simp add: args_ok_def hosts_ok_def)
  have "show_args ?a = [''--id'', ''1'', ''--raft-port'', ''7'', ''--client-port'', ''8'', ''--peers'', ''2:::1:5,3:h:6'',
     ''--client-peers'', '''', ''--data-dir'', ''/tmp/1'']"
    by (simp add: show_args_def show_peers_def show_peer_def show_small digit_def, code_simp)
  with server_args_round_trip [OF ok] show ?thesis by simp
qed


text \<open>A node that stores one value.\<close>

fun one_value :: "client_request \<Rightarrow> string option \<Rightarrow> (string \<times> string option) option" where
  "one_value (ReqPut k v) s = Some (submit_reply \<lparr>res_ok = True, res_value = [], res_error = []\<rparr>, Some v)"
| "one_value (ReqGet k) s = Some (read_reply None [] True s, s)"
| "one_value (ReqDel k) s = None"
| "one_value (Answer a) s = None"


text \<open>
  A line that does not fit is cut without a word. A \<open>PUT\<close> whose line is longer than the buffer is taken for a \<open>PUT\<close> of the
  beginning of the value, and is carried out; the rest of the value is read as the next command.
\<close>

theorem long_value_truncated:
  assumes "token key" "token val" "length key < 4090" "4090 \<le> length key + length val"
  shows "\<exists>rest. map (parse_line \<circ> client_line) (fgets_all 4095 (request_line (ReqPut key val) @ newline # later))
    = ReqPut key (take (4090 - length key) val) # rest"
proof -
  let ?l = "request_line (ReqPut key val)" and ?v = "take (4090 - length key) val"
  have nl: "newline \<notin> set ?l" using request_line_plain(1) [of "ReqPut key val"] assms by auto
  define pre where "pre = ''PUT '' @ key @ '' ''"
  have p: "request_line (ReqPut key v) = pre @ v" for v by (simp add: pre_def)
  have n: "length pre = 5 + length key" by (simp add: pre_def)
  have "take 4095 (pre @ val) = pre @ take (4095 - (5 + length key)) val" unfolding take_append n using assms(3) n by simp
  then have cut: "take 4095 ?l = request_line (ReqPut key ?v)" unfolding p by simp
  have "4095 \<le> length ?l" using assms(4) by simp
  from take_line_cut [OF nl this] have "take_line 4095 (?l @ newline # later) = request_line (ReqPut key ?v)" by (simp only: cut)
  then have f: "fgets_all 4095 (?l @ newline # later)
      = request_line (ReqPut key ?v) # fgets_all 4095 (drop (length (request_line (ReqPut key ?v))) (?l @ newline # later))"
    by (subst fgets_all.simps) (simp add: Let_def)
  have "token ?v" using assms by (auto simp: token_def dest: in_set_takeD)
  then have ok: "request_ok (ReqPut key ?v)" using assms(1) by simp
  show ?thesis unfolding f
    using client_line_request [OF ok, of "[]"] parse_request_line [OF ok] by (simp del: request_line.simps)
qed

end
