(* ===== verification/Cli.thy ===== *)
theory Cli
  imports Runner Checker Std_Text
begin

text \<open>
  \<open>src/cli/main.cpp\<close>: the command line of \<open>simkv\<close>. Its arguments become a \<open>RunConfig\<close>; the run is checked, the history
  written to a file if asked for, and the exit code is the verdict. \<open>std::stod\<close> is the parameter \<open>stod\<close>, the
  reading of the wall clock the parameter \<open>now\<close>. The progress lines on standard output are not modelled.
\<close>

section \<open>Options\<close>

definition parse_u64 :: "string \<Rightarrow> arg_error + u64" where
  "parse_u64 s = stoul s"

text \<open>The configuration so far and the path of \<open>--emit-history\<close>. An option whose value is missing is an unknown option.\<close>

function cli_options ::
  "(string \<Rightarrow> arg_error + rat) \<Rightarrow> string list \<Rightarrow> RunConfig \<Rightarrow> string \<Rightarrow> arg_error + (RunConfig \<times> string)" where
  "cli_options stod args cfg path =
     (case args of
        [] \<Rightarrow> Inr (cfg, path)
      | arg # rest \<Rightarrow>
          if arg = ''--seed'' \<and> rest \<noteq> [] then
            (case parse_u64 (hd rest) of Inl e \<Rightarrow> Inl e | Inr v \<Rightarrow> cli_options stod (tl rest) (cfg\<lparr>rc_seed := v\<rparr>) path)
          else if arg = ''--nodes'' \<and> rest \<noteq> [] then
            (case parse_u64 (hd rest) of Inl e \<Rightarrow> Inl e | Inr v \<Rightarrow> cli_options stod (tl rest) (cfg\<lparr>rc_num_nodes := unat v\<rparr>) path)
          else if arg = ''--ops'' \<and> rest \<noteq> [] then
            (case parse_u64 (hd rest) of Inl e \<Rightarrow> Inl e | Inr v \<Rightarrow> cli_options stod (tl rest) (cfg\<lparr>rc_total_ops := unat v\<rparr>) path)
          else if arg = ''--fault-rate'' \<and> rest \<noteq> [] then
            (case stod (hd rest) of Inl e \<Rightarrow> Inl e | Inr v \<Rightarrow> cli_options stod (tl rest) (cfg\<lparr>rc_fault_rate := v\<rparr>) path)
          else if arg = ''--dump-trace'' then cli_options stod rest (cfg\<lparr>rc_dump_trace := True\<rparr>) path
          else if arg = ''--emit-history'' \<and> rest \<noteq> [] then cli_options stod (tl rest) cfg (hd rest)
          else if arg = ''--inject-commit-bug'' then cli_options stod rest (cfg\<lparr>rc_inject_commit_bug := True\<rparr>) path
          else if arg = ''--inject-vote-bug'' then cli_options stod rest (cfg\<lparr>rc_inject_vote_bug := True\<rparr>) path
          else Inl Usage)"
  by pat_completeness auto
termination
  by (relation "measure (\<lambda>(stod, args, cfg, path). length args)") (auto simp: le_imp_less_Suc)

declare cli_options.simps [simp del]

text \<open>After the loop: the workload gets the number of operations, and one client less than there are nodes but at least two. The
  subtraction is on \<open>std::size_t\<close>.\<close>

definition cli_config :: "RunConfig \<Rightarrow> RunConfig" where
  "cli_config cfg =
     (let num_clients = max 2 (unat (of_nat (rc_num_nodes cfg) - 1 :: u64))
      in cfg\<lparr>rc_workload_cfg := (rc_workload_cfg cfg)\<lparr>wc_total_ops := rc_total_ops cfg, wc_num_clients := num_clients\<rparr>\<rparr>)"

section \<open>The program\<close>

text \<open>The line printed with a failure, from the name of the program on.\<close>

definition reproduce :: "RunConfig \<Rightarrow> string" where
  "reproduce cfg =
     (let bug_flags = (if rc_inject_commit_bug cfg then '' --inject-commit-bug'' else '''')
                      @ (if rc_inject_vote_bug cfg then '' --inject-vote-bug'' else '''')
      in ''simkv run --seed '' @ show_nat (unat (rc_seed cfg)) @ bug_flags)"

text \<open>
  How the program ends: an exit code with the history file and the reproduction line, if any, an exception of the
  number parsers, or an exception of the run.
\<close>

datatype cli_end = ExitCode int "(string \<times> string) option" "string option" | BadArgument arg_error | RunFailed exn

definition cli_main :: "(string \<Rightarrow> arg_error + rat) \<Rightarrow> u64 \<Rightarrow> string list \<Rightarrow> cli_end option" where
  "cli_main stod now argv =
     (case argv of
        [] \<Rightarrow> Some (ExitCode 1 None None)
      | cmd # args \<Rightarrow>
          if cmd \<noteq> ''run'' \<and> cmd \<noteq> ''replay'' then Some (ExitCode 1 None None)
          else
            (case cli_options stod args (default_run_config\<lparr>rc_seed := now\<rparr>) '''' of
               Inl Usage \<Rightarrow> Some (ExitCode 1 None None)
             | Inl e \<Rightarrow> Some (BadArgument e)
             | Inr (cfg, path) \<Rightarrow>
                 let cfg = cli_config cfg
                 in (case run_once cfg of
                       None \<Rightarrow> None
                     | Some (Inl e) \<Rightarrow> Some (RunFailed e)
                     | Some (Inr result) \<Rightarrow>
                         let check = check_linearizable (rr_history result);
                             file = (if path \<noteq> [] then Some (path, to_json (rr_history result)) else None)
                         in if ch_ok check then Some (ExitCode 0 file None)
                            else Some (ExitCode 1 file (Some (reproduce cfg))))))"

section \<open>Reading back the reproduction line\<close>

lemma token_show: "token (show_nat n)"
  using show_nat_digits digit_not by (fastforce simp: token_def)

lemma words_reproduce:
  "words (reproduce cfg) = [''simkv'', ''run'', ''--seed'', show_nat (unat (rc_seed cfg))]
     @ (if rc_inject_commit_bug cfg then [''--inject-commit-bug''] else [])
     @ (if rc_inject_vote_bug cfg then [''--inject-vote-bug''] else [])" (is "_ = ?ts")
proof -
  have "reproduce cfg = join '' '' ?ts" by (simp add: reproduce_def)
  moreover have "\<forall>t \<in> set ?ts. token t" by (auto simp: token_show) (auto simp: token_def is_space_def)
  ultimately show ?thesis by (simp only: words_join)
qed

section \<open>Property\<close>

text \<open>
  C37. What a failing run tells the user to type. The printed command is accepted, and it sets the seed and the two bug
  switches as they were. But it does not mention the number of nodes, the number of operations and the fault rate: they are the
  defaults, so the command repeats the run only if the run had them.
\<close>

theorem reproduce_config:
  "\<exists>args. words (reproduce cfg) = ''simkv'' # ''run'' # args
     \<and> cli_options stod args (default_run_config\<lparr>rc_seed := now\<rparr>) []
         = Inr (default_run_config\<lparr>rc_seed := rc_seed cfg, rc_inject_commit_bug := rc_inject_commit_bug cfg,
                  rc_inject_vote_bug := rc_inject_vote_bug cfg\<rparr>, [])"
  by (simp add: words_reproduce cli_options.simps parse_u64_def stoul_show default_run_config_def)

text \<open>With \<open>--nodes 0\<close> the number of clients wraps around.\<close>

lemma no_nodes_clients: "wc_num_clients (rc_workload_cfg (cli_config (cfg\<lparr>rc_num_nodes := 0\<rparr>))) = 2 ^ 64 - 1"
  by (simp add: cli_config_def Let_def unsigned_minus_1_eq_mask mask_eq_exp_minus_1)

end
