(* ===== verification/Spec2Isabelle.thy ===== *)
theory Spec2Isabelle
  imports Wal File_Store Checker Porcupine Sample_Run Node_Limits Real_Clock Server Cli
begin

text \<open>
  SimKV is a replicated key-value store on Raft, with a deterministic simulator, a fault-injecting test harness, a
  linearizability checker and a real server on TCP. This library models the C++ code under \<open>src/src\<close> and proves what makes
  its parts correct. Definitions keep the names of the code, with a short prefix for the class
  where methods of several classes have the same name (\<open>ds_\<close> DurableStore, \<open>fs_\<close> FileDurableStore, \<open>log_\<close> RaftLog,
  \<open>nd_\<close> RaftNode, \<open>eq_\<close> EventQueue, \<open>sim_\<close> Simulator, \<open>net_\<close> Network, \<open>wl_\<close> Workload, \<open>fi_\<close> FaultInjector,
  \<open>dq_\<close> DispatchQueue, \<open>rc_\<close> RealClock or RunConfig).

  \<^bold>\<open>How code is modelled.\<close> Classes are records, their methods functions on them. \<open>uint8_t\<close>, \<open>uint32_t\<close> and
  \<open>uint64_t\<close> are words, so arithmetic wraps where it wraps in the code; \<open>size_t\<close> counts of containers are \<open>nat\<close>.
  \<open>std::map\<close> is a sorted association list. A call that may throw gives \<open>exn + 'a\<close>; a method that may throw half-way gives an
  \<open>outcome\<close>, which keeps the object as it was left; a loop that may not end is an \<open>option\<close>. Closures given to the clock are
  data (\<open>timer\<close>, \<open>action\<close>), and \<open>fire_timer\<close> and \<open>exec\<close> say what each does. A \<open>double\<close> is the rational number it
  denotes. A node sees its clock, its transport and its callbacks as a record of functions \<open>iface\<close> on a state of any type, as
  \<open>RaftNode\<close> sees \<open>IClock\<close> and \<open>ITransport\<close>.

  \<^bold>\<open>Storage.\<close>
  \<^item> \<open>Codec\<close> (\<open>storage/codec.hpp\<close>): \<open>Encoder\<close> and \<open>Decoder\<close>. The locale \<open>wire_format\<close> is the contract of an encoder and its
    decoder, with the lemmas on sequences of fields; every encoding of the code interprets it.
  \<^item> \<open>Durable_Store\<close>, \<open>File_Store\<close> (\<open>storage/durable_store.cpp\<close>, \<open>file_durable_store.cpp\<close>): the simulated and the real store.
    The locale \<open>idurable_store\<close> is the contract of \<open>IDurableStore\<close>. The file store, on system calls that do what POSIX
    says, refines the simulated one, and opening it after a failure is \<open>crash()\<close>.
  \<^item> \<open>Wal\<close> (\<open>storage/wal.cpp\<close>): framing, checksum, replay. What was flushed is replayed exactly; of a torn file, exactly the
    complete records.
  \<^item> \<open>Kv_Store\<close> (\<open>storage/kv_store.cpp\<close>): refines a partial function with put, delete and compare-and-swap.

  \<^bold>\<open>Raft.\<close>
  \<^item> \<open>Types\<close>, \<open>Raft_Log\<close>, \<open>Rpc\<close> (\<open>raft/types.hpp\<close>, \<open>log.cpp\<close>, \<open>rpc.cpp\<close>): the log refines a map from indices to entries
    with a snapshot boundary; every message decodes to what was encoded.
  \<^item> \<open>Raft_Node\<close>, \<open>Raft_Handlers\<close> (\<open>raft/node.cpp\<close>): every method, message handler and timer of \<open>RaftNode\<close>, with
    snapshots, reads and membership changes.
  \<^item> \<open>Node_Contracts\<close>, \<open>Election\<close>, \<open>Cluster\<close>: what each method does to term, vote, role and durable metadata; the votes
    visible in the messages; the steps of a cluster, and election safety inside the locale \<open>observed_env\<close>, which \<open>Sim_Env\<close>
    interprets on the simulator and the simulated network. Membership is fixed there: with membership changes of any size at
    once quorums need not meet.
  \<^item> \<open>Node_Recovery\<close>: what was persisted comes back after crash and restart. \<open>Node_Limits\<close>: two schedules of three nodes in
    which the code acknowledges a write that is lost.

  \<^bold>\<open>Simulation.\<close>
  \<^item> \<open>Prng\<close> (\<open>sim/prng.cpp\<close>): splitmix64, xoshiro256**, unbiased ranges by rejection, shuffling.
  \<^item> \<open>Event_Queue\<close>, \<open>Simulator\<close> (\<open>sim/event_queue.cpp\<close>, \<open>simulator.cpp\<close>): the queue as the sorted content of the heap
    (locale \<open>timed_queue\<close>), execution in order of time and sequence number, cancellation, the trace hash.
  \<^item> \<open>Network\<close>, \<open>Sim_Env\<close> (\<open>sim/network.cpp\<close>): loss, duplication, latency and partitions; simulator and network as the
    environment of a node.

  \<^bold>\<open>Harness.\<close>
  \<^item> \<open>History\<close>, \<open>World\<close>, \<open>Workload\<close>, \<open>Fault_Injector\<close>, \<open>Runner\<close> (\<open>harness/*.cpp\<close>): the recorded operations and their
    JSON form, clients, faults, and \<open>run_once\<close>; \<open>exec\<close> executes one event of a run.
  \<^item> \<open>Env_Frame\<close>, \<open>Harness\<close>, \<open>Test_Run\<close>: the locales \<open>env_frame\<close> and \<open>world_frame\<close> say what a node and a harness part may do to
    the environment; the invariant of a run follows for every event. \<open>Sample_Run\<close> follows one run to its end; the
    theorems on runs are applied to it.
  \<^item> \<open>Checker\<close> (\<open>checker/own_checker.cpp\<close>): the search of Wing and Gong, key by key. It is exact for the store on all
    keys together, by a proof that linearizability is local; the theory also has the histories that it wrongly rejects.
  \<^item> \<open>Porcupine\<close> (\<open>checker/porcupine_glue/main.go\<close>): the model given to the external checker agrees with the built-in one.

  \<^bold>\<open>Programs.\<close>
  \<^item> \<open>Dispatch_Queue\<close>, \<open>Real_Clock\<close>, \<open>Tcp_Transport\<close> (\<open>server/*.cpp\<close>): the threads of the server as interleavings of the
    stretches between two releases of a mutex; sockets are a parameter.
  \<^item> \<open>Std_Text\<close>, \<open>Server\<close>, \<open>Cli\<close> (\<open>server/server.cpp\<close>, \<open>cli/main.cpp\<close>): parsing of command lines, the client protocol, and
    the exit code and printed reproduction command of a test run.

  This theory holds the properties of whole test runs: well-formed histories, the verdict of the checker on them, and that a
  run ends and has done its work.

  \<^bold>\<open>Bounds.\<close> No definition has fuel. Loops without a bound in the code are partial functions: the rejection loop of the random
  generator, the event loops of simulator and runner, and the receive loop of TCP. For a test run it is proved that they
  return: an event only schedules later ones and there are at most 1200 slices of 100 ms. The only exception is a stream that
  the rejection loop rejects for ever, and the theorem says so. The receive loop returns when the connection ends. \<open>run_cfg_ok\<close>
  bounds a configuration so that virtual time stays below 2 to the 64 microseconds.

  \<^bold>\<open>Parameters.\<close> Code outside the repository is an argument with its documented behaviour as hypotheses: POSIX files
  (\<open>posix_ok\<close>), sockets (\<open>sending_ok\<close>, \<open>receiving_ok\<close>), \<open>std::uniform_int_distribution\<close>, \<open>std::stod\<close>, JSON decoding in Go
  and \<open>porcupine.CheckOperations\<close> (\<open>porcupine_ok\<close>).

  \<^bold>\<open>Not modelled.\<close> \<open>demo/demo.cpp\<close> and \<open>bench/*.cpp\<close> print and measure and have no logic of their own. Of the server, the
  signal handler, \<open>client_listener\<close>, \<open>main\<close> and the accepting and joining of threads in \<open>TcpTransport\<close> only call the
  operating system. Memory order and mutexes are taken as correct: a stretch under a lock is atomic. Text on the console is
  left out but for the reproduction command.
\<close>

section \<open>Test runs\<close>

lemma run_once_world:
  assumes "run_once cfg = Some (Inr r)" "run_cfg_ok cfg"
  obtains w where "run_world cfg = Some (Inr w)" "world_ok cfg w" "rr_history r = w_history w"
    "rr_ops_completed r = wl_ops_completed (w_load w)" "wl_done (w_load w) \<or> 121 * kSec \<le> w_now w"
  using assms run_world_ok by (auto simp: run_once_def bindX_eq_ret)

lemma run_timed:
  assumes "run_once cfg = Some (Inr r)" "run_cfg_ok cfg"
  shows "\<forall>e \<in> set (rr_history r). \<not> he_pending e \<longrightarrow> he_invoke e \<le> he_ret e" "length (rr_history r) \<le> rc_total_ops cfg"
proof -
  from assms obtain w where ok: "world_ok cfg w" and h: "rr_history r = w_history w" by (rule run_once_world)
  from ok show "\<forall>e \<in> set (rr_history r). \<not> he_pending e \<longrightarrow> he_invoke e \<le> he_ret e"
    by (simp add: h world_ok_def books_ok_def hist_ok_def)
  from ok have "counts_ok (w_load w) (w_history w)" "wl_cfg (w_load w) = load_config cfg"
    by (simp_all add: world_ok_def books_ok_def load_of_def)
  then show "length (rr_history r) \<le> rc_total_ops cfg" by (simp add: h counts_ok_def load_config_def)
qed

lemma world_done:
  assumes ok: "world_ok cfg w" and c: "run_cfg_ok cfg" and d: "wl_done (w_load w)"
  shows "length (w_history w) = rc_total_ops cfg" "\<forall>e \<in> set (w_history w). \<not> he_pending e"
proof -
  let ?l = "w_load w" and ?h = "w_history w"
  have cl: "clients_ok (wl_clients ?l) ?h" and cn: "counts_ok ?l ?h" and l: "load_of cfg ?l"
    using ok by (simp_all add: world_ok_def books_ok_def)
  have "card (waiting (wl_clients ?l)) \<le> card {..<length (wl_clients ?l)}"
    by (intro card_mono) (auto simp: waiting_def)
  then have small: "card (waiting (wl_clients ?l)) < 2 ^ 62" using clients_bounded [OF c] l by (simp add: load_of_def)
  have "wl_pending ?l = 0" "wl_pending ?l = of_nat (card (waiting (wl_clients ?l)))"
    using d cn by (simp_all add: wl_done_def counts_ok_def)
  then have "unat (of_nat (card (waiting (wl_clients ?l))) :: u64) = 0" by simp
  moreover have "unat (of_nat (card (waiting (wl_clients ?l))) :: u64) = card (waiting (wl_clients ?l))"
    using small by (intro unat_of_nat_64) simp
  ultimately have "card (waiting (wl_clients ?l)) = 0" by simp
  then have "waiting (wl_clients ?l) = {}" by simp
  then have "\<not> cs_waiting (wl_clients ?l ! i)" if "i < length (wl_clients ?l)" for i using that by (auto simp: waiting_def)
  then have none: "pend_of i ?h = {}" if "i < length (wl_clients ?l)" for i
    using that cl by (simp add: clients_ok_def client_ok_def)
  show "\<forall>e \<in> set ?h. \<not> he_pending e"
  proof (intro ballI notI)
    fix e assume e: "e \<in> set ?h" "he_pending e"
    then obtain k where k: "k < length ?h" "?h ! k = e" by (auto simp: in_set_conv_nth)
    from cl e(1) obtain i where i: "i < length (wl_clients ?l)" "he_client_id e = client_no i" by (auto simp: clients_ok_def)
    then have "k \<in> pend_of i ?h" using k e(2) by (simp add: pend_of_def)
    with none [OF i(1)] show False by simp
  qed
  show "length ?h = rc_total_ops cfg"
    using d cn l by (simp add: wl_done_def counts_ok_def load_of_def load_config_def)
qed

text \<open>
  C2. The history of a test run is well formed. Whatever the seed, the faults and the order of events: no operation
  returns before it was invoked; a client has at most one operation outstanding, and its operations are
  invoked after the previous one returned; each client's request ids are 0, 1, 2, ... in the order of the history; at
  most \<open>total_ops\<close> operations are recorded; and \<open>ops_completed\<close> counts those that returned.
\<close>

theorem run_history_well_formed:
  assumes "run_cfg_ok cfg" "run_once cfg = Some (Inr r)"
  shows "(\<forall>e \<in> set (rr_history r). \<not> he_pending e \<longrightarrow> he_invoke e \<le> he_ret e)
    \<and> (\<forall>j < length (rr_history r). \<forall>i < j. he_client_id (rr_history r ! i) = he_client_id (rr_history r ! j) \<longrightarrow>
         \<not> he_pending (rr_history r ! i) \<and> he_ret (rr_history r ! i) \<le> he_invoke (rr_history r ! j))
    \<and> (\<forall>c < wc_num_clients (rc_workload_cfg cfg). req_ids c (rr_history r) = map of_nat [0..<length (req_ids c (rr_history r))])
    \<and> length (rr_history r) \<le> rc_total_ops cfg
    \<and> rr_ops_completed r = length (filter (\<lambda>e. \<not> he_pending e) (rr_history r))"
proof -
  from assms(2,1) obtain w where ok: "world_ok cfg w"
    and w: "rr_history r = w_history w" "rr_ops_completed r = wl_ops_completed (w_load w)" by (rule run_once_world)
  from ok have h: "hist_ok (w_now w) (w_history w)" and c: "clients_ok (wl_clients (w_load w)) (w_history w)"
    and n: "counts_ok (w_load w) (w_history w)"
    and l: "wl_cfg (w_load w) = load_config cfg" "length (wl_clients (w_load w)) = wc_num_clients (rc_workload_cfg cfg)"
    by (simp_all add: world_ok_def books_ok_def load_of_def)
  have "\<forall>j < length (w_history w). \<forall>i < j. he_client_id (w_history w ! i) = he_client_id (w_history w ! j) \<longrightarrow>
      \<not> he_pending (w_history w ! i) \<and> he_ret (w_history w ! i) \<le> he_invoke (w_history w ! j)"
    using h unfolding hist_ok_def by (rule conjunct2)
  moreover have "\<forall>i < wc_num_clients (rc_workload_cfg cfg). req_ids i (w_history w) = map of_nat [0..<length (req_ids i (w_history w))]"
    using c l(2) by (simp add: clients_ok_def client_ok_def)
  moreover have "wl_ops_completed (w_load w) = length (filter (\<lambda>e. \<not> he_pending e) (w_history w))"
    using n by (simp add: counts_ok_def)
  ultimately show ?thesis using run_timed [OF assms(2,1)] unfolding w by blast
qed

theorem run_history_well_formed_witness:
  "\<exists>r. run_once sample_config = Some (Inr r) \<and> length (rr_history r) \<le> 1
     \<and> rr_ops_completed r = length (filter (\<lambda>e. \<not> he_pending e) (rr_history r))"
proof -
  from sample_run obtain r where r: "run_once sample_config = Some (Inr r)" by (auto simp: run_once_def)
  with run_history_well_formed [OF sample_cfg_ok r] show ?thesis by (auto simp: sample_config_def)
qed


lemma few_uncertain: "length h \<le> n \<Longrightarrow> length (filter uncertain_put (key_ops k h)) \<le> n"
proof -
  have "length (key_ops k h) \<le> length h" by (simp add: key_ops_def)
  then show "length h \<le> n \<Longrightarrow> ?thesis" using length_filter_le [of uncertain_put "key_ops k h"] by linarith
qed


text \<open>
  C5. A run that returns has done its work: every one of the \<open>total_ops\<close> operations was issued and has
  returned, or the 120 s of virtual time allowed to the load are over.
\<close>

theorem run_completes:
  assumes "run_cfg_ok cfg" "run_world cfg = Some (Inr w)"
  shows "length (w_history w) = rc_total_ops cfg \<and> wl_ops_completed (w_load w) = rc_total_ops cfg
      \<and> (\<forall>e \<in> set (w_history w). \<not> he_pending e)
    \<or> 1 * kSec + kMaxRunTime \<le> w_now w"
proof -
  have ok: "world_ok cfg w" "wl_done (w_load w) \<or> 121 * kSec \<le> w_now w" using run_world_ok [OF assms(2,1)] by simp_all
  have n: "wl_ops_completed (w_load w) = length (filter (\<lambda>e. \<not> he_pending e) (w_history w))"
    using ok(1) by (simp add: world_ok_def books_ok_def counts_ok_def)
  have deadline: "1 * kSec + kMaxRunTime = 121 * kSec" by (simp add: kSec_def kMaxRunTime_def)
  from ok(2) show ?thesis
  proof
    assume d: "wl_done (w_load w)"
    note all = world_done [OF ok(1) assms(1) d]
    have "filter (\<lambda>e. \<not> he_pending e) (w_history w) = w_history w" using all(2) by (rule filter_True)
    with all n show ?thesis by simp
  qed (unfold deadline, rule disjI2)
qed

theorem run_completes_witness:
  "\<exists>w. run_world sample_config = Some (Inr w)
     \<and> (length (w_history w) = 1 \<and> wl_ops_completed (w_load w) = 1 \<or> 1 * kSec + kMaxRunTime \<le> w_now w)"
proof -
  from sample_run obtain w where w: "run_world sample_config = Some (Inr w)" by blast
  have "rc_total_ops sample_config = 1" by (simp add: sample_config_def)
  with run_completes [OF sample_cfg_ok w] w show ?thesis by auto
qed

lemma range_none_rejects:
  assumes "prng_range lo hi p = None"
  shows "\<exists>n > 0. \<forall>j. \<not> accepted n ((- n) mod n) (prng_draw j p)"
proof (rule ccontr)
  let ?n = "hi - lo" and ?t = "(- (hi - lo)) mod (hi - lo)"
  assume no: "\<not> ?thesis"
  have lt: "lo < hi" using assms by (auto simp: prng_range_def split: if_splits)
  then have "unat ?n = unat hi - unat lo" by (simp add: unat_sub_64)
  with lt have "0 < ?n" by (simp add: word_less_nat_alt)
  with no obtain j where "accepted ?n ?t (prng_draw j p)" by blast
  then have a: "accepted ?n ?t (prng_draw (LEAST j. accepted ?n ?t (prng_draw j p)) p)" by (rule LeastI)
  have "\<forall>i < (LEAST j. accepted ?n ?t (prng_draw j p)). \<not> accepted ?n ?t (prng_draw i p)" using not_less_Least by blast
  note range_retry_first [OF this a]
  with assms lt show False by (auto simp: prng_range_def Let_def split_def split: if_splits)
qed

text \<open>
  C4. A run ends. The event loop cannot go on forever inside a bounded stretch of virtual time, because every
  event only schedules later ones, and there are at most 1200 slices. So \<open>run_once\<close> returns a result or lets
  out an exception, unless the stream of its own seed is, from some draw on, one that \<open>range\<close> rejects for ever
  for one width \<open>n\<close>.
\<close>

theorem run_returns:
  assumes "run_cfg_ok cfg"
  shows "(\<exists>res. run_once cfg = Some res)
    \<or> (\<exists>k n. 0 < n \<and> (\<forall>j. \<not> accepted n ((- n) mod n) (prng_draw j (prng_skip k (prng_init (rc_seed cfg))))))"
proof (cases "run_world cfg")
  case None
  then obtain lo hi k where "prng_range lo hi (prng_skip k (prng_init (rc_seed cfg))) = None"
    using stuck_run_world [OF None assms] by (auto simp: draw_stuck_def draws_def run_gen_def)
  from range_none_rejects [OF this] show ?thesis by blast
next
  case (Some res)
  then show ?thesis by (cases res) (simp_all add: run_once_def)
qed

theorem run_returns_witness:
  "(\<exists>res. run_once default_run_config = Some res)
    \<or> (\<exists>k n. 0 < n \<and> (\<forall>j. \<not> accepted n ((- n) mod n) (prng_draw j (prng_skip k (prng_init 42)))))"
proof -
  have "run_cfg_ok default_run_config"
    by (simp add: run_cfg_ok_def default_run_config_def latency_ok_def load_cfg_ok_def fault_cfg_ok_def
        default_workload_config_def default_fault_config_def default_network_config_def short_def kMsec_def kSec_def)
  from run_returns [OF this] show ?thesis by (simp add: default_run_config_def)
qed

end
